(* ===== verification/Go_Base.thy ===== *)
theory Go_Base
  imports Main "HOL-Library.Word" "HOL-Library.AList" "HOL-Library.List_Lexorder"
    "HOL-Library.Char_ord" "HOL-Library.Multiset"
begin

text \<open>
  Prelude of the development: the pieces of Go and of its standard library that every
  component uses. A Go string and a Go byte slice are both a \<^typ>\<open>string\<close>: one
  \<^typ>\<open>char\<close> is one byte, so \<^const>\<open>length\<close> counts bytes as \<open>len\<close> does. A call that
  returns \<open>(value, error)\<close> is a sum, \<^const>\<open>Inl\<close> the error and \<^const>\<open>Inr\<close> the value.
  A Go map is an association list with distinct keys, whose order stands for the
  iteration order of one run (Go leaves it open).
\<close>

named_theorems result_simps \<open>how a sequence of fallible calls can succeed or fail\<close>
named_theorems gostring_simps \<open>characterisations of the Go string functions\<close>

section \<open>Fallible calls\<close>

text \<open>\<open>x, err := r; if err != nil { return err }; f(x)\<close>\<close>

definition tryR :: "'e + 'a \<Rightarrow> ('a \<Rightarrow> 'e + 'b) \<Rightarrow> 'e + 'b" where
  "tryR r f = (case r of Inl e \<Rightarrow> Inl e | Inr x \<Rightarrow> f x)"

lemma tryR_Inl [simp]: "tryR (Inl e) f = Inl e"
  by (simp add: tryR_def)

lemma tryR_Inr [simp]: "tryR (Inr x) f = f x"
  by (simp add: tryR_def)

lemma tryR_Inr_conv [result_simps]: "tryR r f = Inr y \<longleftrightarrow> (\<exists>x. r = Inr x \<and> f x = Inr y)"
  by (cases r) auto

lemma tryR_Inl_conv [result_simps]:
  "tryR r f = Inl e \<longleftrightarrow> r = Inl e \<or> (\<exists>x. r = Inr x \<and> f x = Inl e)"
  by (cases r) auto

lemma tryR_cong [fundef_cong]:
  "r = r' \<Longrightarrow> (\<And>x. r' = Inr x \<Longrightarrow> f x = f' x) \<Longrightarrow> tryR r f = tryR r' f'"
  by (cases r') auto

lemma not_Inl_conv: "(\<forall>e. r \<noteq> Inl e) \<longleftrightarrow> (\<exists>x. r = Inr x)"
  by (cases r) auto

text \<open>A loop that runs a fallible body over a slice and appends what it yields.\<close>

fun mapR :: "('a \<Rightarrow> 'e + 'b) \<Rightarrow> 'a list \<Rightarrow> 'e + 'b list" where
  "mapR f [] = Inr []"
| "mapR f (x # xs) = tryR (f x) (\<lambda>y. tryR (mapR f xs) (\<lambda>ys. Inr (y # ys)))"

lemma mapR_Inr_conv: "mapR f xs = Inr ys \<longleftrightarrow> list_all2 (\<lambda>x y. f x = Inr y) xs ys"
  by (induction xs arbitrary: ys) (auto simp: result_simps list_all2_Cons1)

lemma mapR_Inl: "mapR f xs = Inl e \<Longrightarrow> \<exists>x \<in> set xs. f x = Inl e"
  by (induction xs) (auto simp: result_simps)

lemma mapR_length: "mapR f xs = Inr ys \<Longrightarrow> length ys = length xs"
  by (auto simp: mapR_Inr_conv dest: list_all2_lengthD)

lemma mapR_set: "mapR f xs = Inr ys \<Longrightarrow> y \<in> set ys \<Longrightarrow> \<exists>x \<in> set xs. f x = Inr y"
  unfolding mapR_Inr_conv list_all2_conv_all_nth by (metis in_set_conv_nth)

lemma mapR_ok: "(\<exists>ys. mapR f xs = Inr ys) \<longleftrightarrow> (\<forall>x \<in> set xs. \<exists>y. f x = Inr y)"
  by (induction xs) (auto simp: result_simps)

lemma mapR_cong_set: "(\<And>x. x \<in> set xs \<Longrightarrow> f x = g x) \<Longrightarrow> mapR f xs = mapR g xs"
  by (induction xs) (auto simp: tryR_def split: sum.splits)

lemma list_all2_in2: "list_all2 P xs ys \<Longrightarrow> y \<in> set ys \<Longrightarrow> \<exists>x \<in> set xs. P x y"
  unfolding list_all2_conv_all_nth by (metis in_set_conv_nth)

text \<open>A loop that runs a fallible body over a slice and carries state from one turn to the next.\<close>

fun foldR :: "('s \<Rightarrow> 'a \<Rightarrow> 'e + 's) \<Rightarrow> 's \<Rightarrow> 'a list \<Rightarrow> 'e + 's" where
  "foldR f s [] = Inr s"
| "foldR f s (x # xs) = tryR (f s x) (\<lambda>s'. foldR f s' xs)"

lemma foldR_invariant:
  assumes "foldR f s xs = Inr t" "I s"
    and "\<And>x u v. x \<in> set xs \<Longrightarrow> I u \<Longrightarrow> f u x = Inr v \<Longrightarrow> I v"
  shows "I t"
  using assms by (induction xs arbitrary: s) (auto simp: result_simps)

lemma foldR_each_step:
  assumes "foldR f s xs = Inr t" "x \<in> set xs"
  shows "\<exists>u v. f u x = Inr v"
  using assms by (induction xs arbitrary: s) (auto simp: result_simps)

lemma foldR_Inl_step:
  assumes "foldR f s xs = Inl e"
  shows "\<exists>x \<in> set xs. \<exists>u. f u x = Inl e"
  using assms by (induction xs arbitrary: s) (auto simp: result_simps)

lemma foldR_append: "foldR f s (xs @ ys) = tryR (foldR f s xs) (\<lambda>t. foldR f t ys)"
  by (induction xs arbitrary: s) (auto simp: tryR_def split: sum.splits)

lemma foldR_reached:
  assumes "foldR f s xs = Inr t" "x \<in> set xs"
    and "\<And>u v. f u x = Inr v \<Longrightarrow> Q v"
    and "\<And>y u v. y \<in> set xs \<Longrightarrow> Q u \<Longrightarrow> f u y = Inr v \<Longrightarrow> Q v"
  shows "Q t"
proof -
  from assms(2) obtain as bs where xs: "xs = as @ x # bs"
    by (auto simp: in_set_conv_decomp)
  with assms(1) obtain u v where "f u x = Inr v" and rest: "foldR f v bs = Inr t"
    by (auto simp: foldR_append result_simps)
  then have "Q v" by (auto intro: assms(3))
  from foldR_invariant [OF rest, of Q, OF this] show ?thesis
    using assms(4) xs by auto
qed

section \<open>Go strings\<close>

text \<open>\<open>strings.HasPrefix\<close>, \<open>strings.TrimPrefix\<close>, \<open>strings.HasSuffix\<close>, \<open>strings.TrimSuffix\<close>.\<close>

fun has_prefix :: "string \<Rightarrow> string \<Rightarrow> bool" where
  "has_prefix s [] = True"
| "has_prefix [] (c # p) = False"
| "has_prefix (a # s) (c # p) = (a = c \<and> has_prefix s p)"

definition trim_prefix :: "string \<Rightarrow> string \<Rightarrow> string" where
  "trim_prefix s p = (if has_prefix s p then drop (length p) s else s)"

definition has_suffix :: "string \<Rightarrow> string \<Rightarrow> bool" where
  "has_suffix s p = has_prefix (rev s) (rev p)"

definition trim_suffix :: "string \<Rightarrow> string \<Rightarrow> string" where
  "trim_suffix s p = (if has_suffix s p then take (length s - length p) s else s)"

lemma has_prefix_iff [gostring_simps]: "has_prefix s p \<longleftrightarrow> (\<exists>t. s = p @ t)"
  by (induction s p rule: has_prefix.induct) auto

lemma has_prefix_append [simp]: "has_prefix (p @ t) p"
  by (auto simp: gostring_simps)

lemma trim_prefix_append [simp]: "trim_prefix (p @ t) p = t"
  by (simp add: trim_prefix_def)

lemma has_prefix_trim: "has_prefix s p \<Longrightarrow> p @ trim_prefix s p = s"
  by (auto simp: gostring_simps)

lemma has_suffix_iff [gostring_simps]: "has_suffix s p \<longleftrightarrow> (\<exists>t. s = t @ p)"
  unfolding has_suffix_def has_prefix_iff
  by (metis rev_append rev_rev_ident)

text \<open>\<open>strings.IndexByte\<close> and \<open>strings.LastIndexByte\<close>: \<^const>\<open>None\<close> is Go's \<open>-1\<close>.\<close>

fun index_byte :: "string \<Rightarrow> char \<Rightarrow> nat option" where
  "index_byte [] c = None"
| "index_byte (a # s) c = (if a = c then Some 0 else map_option Suc (index_byte s c))"

fun last_index_byte :: "string \<Rightarrow> char \<Rightarrow> nat option" where
  "last_index_byte [] c = None"
| "last_index_byte (a # s) c =
     (case last_index_byte s c of
        Some i \<Rightarrow> Some (Suc i)
      | None \<Rightarrow> if a = c then Some 0 else None)"

lemma index_byte_None [gostring_simps]: "index_byte s c = None \<longleftrightarrow> c \<notin> set s"
  by (induction s) auto

lemma index_byte_Some:
  "index_byte s c = Some i \<longleftrightarrow> i < length s \<and> s ! i = c \<and> c \<notin> set (take i s)"
proof (induction s arbitrary: i)
  case Nil
  then show ?case by simp
next
  case (Cons a s)
  then show ?case by (cases i) auto
qed

lemma index_byte_split: "c \<notin> set a \<Longrightarrow> index_byte (a @ c # b) c = Some (length a)"
  by (induction a) auto

lemma last_index_byte_None [gostring_simps]: "last_index_byte s c = None \<longleftrightarrow> c \<notin> set s"
  by (induction s) (auto split: option.splits)

lemma last_index_byte_split: "c \<notin> set b \<Longrightarrow> last_index_byte (a @ c # b) c = Some (length a)"
proof (induction a)
  case Nil
  then have "last_index_byte b c = None"
    by (simp add: last_index_byte_None)
  then show ?case by simp
next
  case (Cons x a)
  then show ?case by simp
qed

lemma last_index_byte_Some:
  "last_index_byte s c = Some i \<Longrightarrow>
     i < length s \<and> s = take i s @ c # drop (Suc i) s \<and> c \<notin> set (drop (Suc i) s)"
  by (induction s arbitrary: i) (auto simp: last_index_byte_None split: option.splits if_splits)

text \<open>\<open>strings.Split(s, sep)\<close> and \<open>bytes.Split\<close> for a one-byte separator.\<close>

fun split_byte :: "char \<Rightarrow> string \<Rightarrow> string list" where
  "split_byte c [] = [[]]"
| "split_byte c (a # s) =
     (if a = c then [] # split_byte c s
      else case split_byte c s of [] \<Rightarrow> [[a]] | w # ws \<Rightarrow> (a # w) # ws)"

lemma split_byte_not_Nil [simp]: "split_byte c s \<noteq> []"
  by (cases s) (auto split: list.splits)

lemma split_byte_no_sep: "c \<notin> set s \<Longrightarrow> split_byte c s = [s]"
  by (induction s) auto

lemma split_byte_append: "c \<notin> set a \<Longrightarrow> split_byte c (a @ c # b) = a # split_byte c b"
  by (induction a) auto

lemma split_byte_parts: "w \<in> set (split_byte c s) \<Longrightarrow> c \<notin> set w"
  by (induction s arbitrary: w) (auto split: list.splits if_splits)

text \<open>
  White space as \<open>unicode.IsSpace\<close> sees it in UTF-8: the six ASCII spaces and the
  encodings of U+0085, U+00A0, U+1680, U+2000 to U+200A, U+2028, U+2029, U+202F, U+205F
  and U+3000. UTF-8 is self-synchronising, so a byte sequence of this list is that code
  point wherever it stands, and \<open>strings.TrimSpace\<close> and \<open>strings.Fields\<close> can be
  written over it.
\<close>

definition go_spaces :: "string list" where
  "go_spaces =
     map (\<lambda>n. [char_of n]) [9, 10, 11, 12, 13, 32 :: nat]
     @ map (map char_of)
         ([[194, 133], [194, 160], [225, 154, 128], [226, 128, 168], [226, 128, 169],
           [226, 128, 175], [226, 129, 159], [227, 128, 128 :: nat]]
          @ map (\<lambda>n. [226, 128, n]) [128..<139])"

text \<open>The same list with its bytes written out, for evaluation.\<close>

lemma go_spaces_code [code]: "go_spaces =
  [[CHR 0x09], [CHR 0x0A], [CHR 0x0B], [CHR 0x0C], [CHR 0x0D], [CHR '' ''],
   [CHR 0xC2, CHR 0x85], [CHR 0xC2, CHR 0xA0], [CHR 0xE1, CHR 0x9A, CHR 0x80], [CHR 0xE2, CHR 0x80, CHR 0xA8],
   [CHR 0xE2, CHR 0x80, CHR 0xA9], [CHR 0xE2, CHR 0x80, CHR 0xAF], [CHR 0xE2, CHR 0x81, CHR 0x9F],
   [CHR 0xE3, CHR 0x80, CHR 0x80], [CHR 0xE2, CHR 0x80, CHR 0x80], [CHR 0xE2, CHR 0x80, CHR 0x81],
   [CHR 0xE2, CHR 0x80, CHR 0x82], [CHR 0xE2, CHR 0x80, CHR 0x83], [CHR 0xE2, CHR 0x80, CHR 0x84],
   [CHR 0xE2, CHR 0x80, CHR 0x85], [CHR 0xE2, CHR 0x80, CHR 0x86], [CHR 0xE2, CHR 0x80, CHR 0x87],
   [CHR 0xE2, CHR 0x80, CHR 0x88], [CHR 0xE2, CHR 0x80, CHR 0x89], [CHR 0xE2, CHR 0x80, CHR 0x8A]]"
  by (simp add: go_spaces_def upt_rec char_of_def bit_Suc_0_iff)
definition space_len :: "string \<Rightarrow> nat" where
  "space_len s = (case filter (has_prefix s) go_spaces of [] \<Rightarrow> 0 | w # _ \<Rightarrow> length w)"

fun trim_left_fuel :: "nat \<Rightarrow> string \<Rightarrow> string" where
  "trim_left_fuel 0 s = s"
| "trim_left_fuel (Suc n) s =
     (if space_len s = 0 then s else trim_left_fuel n (drop (space_len s) s))"

definition space_len_rev :: "string \<Rightarrow> nat" where
  "space_len_rev r = (case filter (\<lambda>w. has_prefix r (rev w)) go_spaces of [] \<Rightarrow> 0 | w # _ \<Rightarrow> length w)"

fun trim_right_fuel :: "nat \<Rightarrow> string \<Rightarrow> string" where
  "trim_right_fuel 0 r = r"
| "trim_right_fuel (Suc n) r =
     (if space_len_rev r = 0 then r else trim_right_fuel n (drop (space_len_rev r) r))"

definition trim_space :: "string \<Rightarrow> string" where
  "trim_space s =
     (let t = trim_left_fuel (length s) s
      in rev (trim_right_fuel (length t) (rev t)))"

text \<open>\<open>firstNonEmpty\<close> and reads of a \<open>map[string]string\<close>, which give \<open>""\<close> for a missing key.\<close>

fun first_non_empty :: "string list \<Rightarrow> string" where
  "first_non_empty [] = []"
| "first_non_empty (v # vs) = (if v \<noteq> [] then v else first_non_empty vs)"

lemma first_non_empty_in: "first_non_empty vs \<noteq> [] \<Longrightarrow> first_non_empty vs \<in> set vs"
  by (induction vs) auto

lemma first_non_empty_Nil [simp]: "first_non_empty vs = [] \<longleftrightarrow> (\<forall>v \<in> set vs. v = [])"
  by (induction vs) auto

section \<open>Go maps\<close>

type_synonym ('k, 'v) gomap = "('k \<times> 'v) list"
type_synonym smap = "(string, string) gomap"

definition sget :: "smap \<Rightarrow> string \<Rightarrow> string" where
  "sget m k = (case map_of m k of None \<Rightarrow> [] | Some v \<Rightarrow> v)"

definition wf_map :: "('k, 'v) gomap \<Rightarrow> bool" where
  "wf_map m = distinct (map fst m)"

text \<open>The keys of a map collected in a slice and sorted (\<open>sort.Strings\<close>: bytewise).\<close>

definition sorted_keys :: "(string, 'v) gomap \<Rightarrow> string list" where
  "sorted_keys m = sort (map fst m)"

lemma wf_map_Nil [simp]: "wf_map []"
  by (simp add: wf_map_def)

lemma wf_map_update [simp]: "wf_map m \<Longrightarrow> wf_map (AList.update k v m)"
  by (simp add: wf_map_def distinct_update)

lemma wf_map_delete [simp]: "wf_map m \<Longrightarrow> wf_map (AList.delete k m)"
  by (simp add: wf_map_def distinct_delete)

lemma map_of_update [simp]: "map_of (AList.update k v m) = (map_of m)(k \<mapsto> v)"
  by (simp add: update_conv')

lemma map_of_delete [simp]: "map_of (AList.delete k m) = (map_of m)(k := None)"
  by (simp add: delete_conv')

lemma sorted_keys_perm:
  assumes "wf_map m" "wf_map m'" "dom (map_of m) = dom (map_of m')"
  shows "sorted_keys m = sorted_keys m'"
proof -
  from assms have "set (map fst m) = set (map fst m')"
    by (simp add: dom_map_of_conv_image_fst)
  with assms(1,2) have "mset (map fst m) = mset (map fst m')"
    by (simp only: wf_map_def set_eq_iff_mset_eq_distinct)
  then show ?thesis
    by (simp add: sorted_keys_def properties_for_sort)
qed

lemma set_sorted_keys [simp]: "set (sorted_keys m) = dom (map_of m)"
  by (simp add: sorted_keys_def dom_map_of_conv_image_fst)

lemma distinct_sorted_keys: "wf_map m \<Longrightarrow> distinct (sorted_keys m)"
  by (simp add: sorted_keys_def wf_map_def)

lemma map_of_perm: "wf_map m \<Longrightarrow> mset m = mset m' \<Longrightarrow> map_of m = map_of m'"
  by (metis map_of_inject_set mset_eq_imp_distinct_iff mset_map set_mset_mset wf_map_def)

section \<open>Error texts\<close>

text \<open>
  A message built by \<open>fmt.Sprintf\<close> or \<open>fmt.Errorf\<close> is kept as its format and its
  arguments; where its bytes matter (a reason sent over the wire) the rendering is a
  parameter \<open>msg \<Rightarrow> string\<close> of the definition.
\<close>

datatype msg = Msg (msg_format: string) (msg_args: "string list")

end
