(* ===== verification/Backend_Dotenv.thy ===== *)
theory Backend_Dotenv
  imports Go_Base
begin

text \<open>
  \<open>internal/backend/dotenv.go\<close>: the dotenv text sops emits, one \<open>KEY=VALUE\<close> a line, split at the first
  \<open>=\<close>, values verbatim.
\<close>

definition newline :: char where "newline = CHR 0x0A"

definition dotenvLineKey :: "string \<Rightarrow> (string \<times> string) option" where
  "dotenvLineKey line = (case index_byte line CHR ''='' of
     None \<Rightarrow> None | Some eq \<Rightarrow> Some (take eq line, drop (Suc eq) line))"

definition isBlankOrComment :: "string \<Rightarrow> bool" where
  "isBlankOrComment line \<longleftrightarrow> (case line of [] \<Rightarrow> True | c # _ \<Rightarrow> c = CHR ''#'')"

text \<open>\<^const>\<open>None\<close> is \<open>ErrMalformed\<close>.\<close>

fun keys_lines :: "string list \<Rightarrow> string list option" where
  "keys_lines [] = Some []"
| "keys_lines (line # ls) =
     (if isBlankOrComment line then keys_lines ls
      else case dotenvLineKey line of
             None \<Rightarrow> None
           | Some (key, _) \<Rightarrow> map_option ((#) key) (keys_lines ls))"

definition dotenvKeys :: "string \<Rightarrow> string list option" where
  "dotenvKeys data = keys_lines (split_byte newline data)"

fun find_lines :: "string list \<Rightarrow> string \<Rightarrow> string option option" where
  "find_lines [] key = Some None"
| "find_lines (line # ls) key =
     (if isBlankOrComment line then find_lines ls key
      else case dotenvLineKey line of
             None \<Rightarrow> None
           | Some (k, v) \<Rightarrow> if k = key then Some (Some v) else find_lines ls key)"

definition dotenvFind :: "string \<Rightarrow> string \<Rightarrow> string option option" where
  "dotenvFind data key = find_lines (split_byte newline data) key"

section \<open>Keys and values agree\<close>

lemma find_listed:
  "keys_lines ls = Some ks \<Longrightarrow> (case find_lines ls k of
     None \<Rightarrow> False | Some None \<Rightarrow> k \<notin> set ks | Some (Some v) \<Rightarrow> k \<in> set ks)"
  by (induction ls arbitrary: ks) (auto split: if_split_asm option.splits)

lemma keys_find_value: "dotenvKeys data = Some ks \<Longrightarrow> k \<in> set ks \<Longrightarrow> \<exists>v. dotenvFind data k = Some (Some v)"
  using find_listed [of "split_byte newline data" ks k]
  by (auto simp: dotenvKeys_def dotenvFind_def split: option.splits)

text \<open>The text of a list of entries, as sops and the dotenv render write it.\<close>

definition dotenv_line :: "string \<times> string \<Rightarrow> string" where
  "dotenv_line kv = fst kv @ ''='' @ snd kv @ [newline]"

definition dotenv_text :: "(string \<times> string) list \<Rightarrow> string" where
  "dotenv_text kvs = concat (map dotenv_line kvs)"

definition entry_ok :: "string \<times> string \<Rightarrow> bool" where
  "entry_ok kv \<longleftrightarrow> CHR ''='' \<notin> set (fst kv) \<and> newline \<notin> set (fst kv) \<and> newline \<notin> set (snd kv)
     \<and> (case fst kv of [] \<Rightarrow> True | c # _ \<Rightarrow> c \<noteq> CHR ''#'')"

lemma dotenvLineKey_line: "CHR ''='' \<notin> set k \<Longrightarrow> dotenvLineKey (k @ CHR ''='' # v) = Some (k, v)"
  by (simp add: dotenvLineKey_def index_byte_split)

lemma entry_not_blank: "entry_ok (k, v) \<Longrightarrow> \<not> isBlankOrComment (k @ CHR ''='' # v)"
  by (cases k) (auto simp: isBlankOrComment_def entry_ok_def)

lemma split_dotenv_text:
  "list_all entry_ok kvs \<Longrightarrow>
     split_byte newline (dotenv_text kvs) = map (\<lambda>(k, v). k @ CHR ''='' # v) kvs @ [[]]"
proof (induction kvs)
  case Nil
  show ?case by (simp add: dotenv_text_def)
next
  case (Cons kv kvs)
  obtain k v where kv: "kv = (k, v)" by (cases kv)
  have "newline \<notin> set (k @ CHR ''='' # v)"
    using Cons.prems by (auto simp: kv entry_ok_def newline_def)
  from split_byte_append [OF this] Cons show ?case
    by (simp add: kv dotenv_text_def dotenv_line_def)
qed

lemma keys_entries:
  "list_all entry_ok kvs \<Longrightarrow> keys_lines (map (\<lambda>(k, v). k @ CHR ''='' # v) kvs @ [[]]) = Some (map fst kvs)"
proof (induction kvs)
  case Nil
  show ?case by (simp add: isBlankOrComment_def)
next
  case (Cons kv kvs)
  obtain k v where kv: "kv = (k, v)" by (cases kv)
  have "CHR ''='' \<notin> set k" using Cons.prems by (simp add: kv entry_ok_def)
  with Cons show ?case by (simp add: kv dotenvLineKey_line entry_not_blank)
qed

lemma find_entries:
  "list_all entry_ok kvs \<Longrightarrow>
     find_lines (map (\<lambda>(k, v). k @ CHR ''='' # v) kvs @ [[]]) key = Some (map_of kvs key)"
proof (induction kvs)
  case Nil
  show ?case by (simp add: isBlankOrComment_def)
next
  case (Cons kv kvs)
  obtain k v where kv: "kv = (k, v)" by (cases kv)
  have "CHR ''='' \<notin> set k" using Cons.prems by (simp add: kv entry_ok_def)
  with Cons show ?case by (simp add: kv dotenvLineKey_line entry_not_blank)
qed

text \<open>
  C37: a dotenv source round-trips byte for byte. Of a text of \<open>KEY=VALUE\<close> lines the parser lists
  exactly the keys, in order, and finds for each name the verbatim value of its first line, quotes,
  spaces and further \<open>=\<close> included, and nothing for any other name.
\<close>

theorem dotenv_round_trip:
  assumes "list_all entry_ok kvs"
  shows "dotenvKeys (dotenv_text kvs) = Some (map fst kvs) \<and> dotenvFind (dotenv_text kvs) key = Some (map_of kvs key)"
  unfolding dotenvKeys_def dotenvFind_def split_dotenv_text [OF assms]
  using keys_entries [OF assms] find_entries [OF assms] by simp

theorem dotenv_round_trip_witness:
  "dotenvFind (dotenv_text [(''A'', ''x=1''), (''B'', []), (''A'', ''y'')]) ''A'' = Some (Some ''x=1'')"
  using dotenv_round_trip [of "[(''A'', ''x=1''), (''B'', []), (''A'', ''y'')]" "''A''"]
  by (simp add: entry_ok_def newline_def)

text \<open>
  a malformed line is not always noticed. Reading one key succeeds though a later line has
  no \<open>=\<close>, while listing the keys of the same source fails.
\<close>

theorem dotenvFind_stops_early:
  assumes "entry_ok (k, v)" "newline \<notin> set junk" "\<not> isBlankOrComment junk" "CHR ''='' \<notin> set junk"
  shows "dotenvFind (dotenv_text [(k, v)] @ junk) k = Some (Some v) \<and> dotenvKeys (dotenv_text [(k, v)] @ junk) = None"
proof -
  have n: "newline \<notin> set (k @ CHR ''='' # v)" and e: "CHR ''='' \<notin> set k"
    using assms(1) by (auto simp: entry_ok_def newline_def)
  have "split_byte newline (dotenv_text [(k, v)] @ junk) = [k @ CHR ''='' # v, junk]"
    using split_byte_append [OF n, of junk] assms(2) by (simp add: dotenv_text_def dotenv_line_def split_byte_no_sep)
  moreover have "dotenvLineKey junk = None" using assms(4) by (simp add: dotenvLineKey_def index_byte_None [THEN iffD2])
  ultimately show ?thesis
    using assms(3) entry_not_blank [OF assms(1)] dotenvLineKey_line [OF e]
    by (simp add: dotenvKeys_def dotenvFind_def)
qed

theorem dotenvFind_stops_early_witness:
  "dotenvKeys (dotenv_text [(''A'', ''x'')] @ ''junk'') = None"
  using dotenvFind_stops_early [of "''A''" "''x''" "''junk''"]
  by (simp add: entry_ok_def newline_def isBlankOrComment_def)

end
