(* ===== verification/Wire_Codec.thy ===== *)
theory Wire_Codec
  imports Go_Base "HOL-Library.Word"
begin

text \<open>
  \<open>internal/wire/protocol.go\<close> and \<open>internal/wire/wire.go\<close>: the frames of the socket protocol, the
  bundle they carry, and the locked buffers that back its secrets. A Go byte string is a
  \<^typ>\<open>string\<close>; a length on the wire is a word of its width, and the conversion
  \<open>uint32(len(p))\<close> wraps as it does in Go.

  A writer is a sink that takes a bounded number of bytes before it fails (any bound, or none).
  A reader is the string of all bytes the peer will ever send. The locked-memory library is not
  modelled: the definitions record the calls made to it, as the list of buffers made with
  \<open>memguard.NewBuffer\<close> and not yet given to \<open>LockedBuffer.Destroy\<close>.
\<close>

section \<open>Errors, sinks and readers\<close>

datatype wire_error =
    WWrite
  | WRead
  | WLenU16 "32 word"
  | WCount nat
  | WLenCap "32 word"
  | WVersion char
  | WType char
  | WRefused string
  | WNeedId
  | WEmptyId
  | WNotFetch
  | WNotHook

record sink =
  sk_sent :: string
  sk_room :: "nat option"

type_synonym writer = "sink \<Rightarrow> wire_error option \<times> sink"

definition sink_write :: "string \<Rightarrow> writer" where
  "sink_write p s =
     (case sk_room s of
        None \<Rightarrow> (None, s\<lparr>sk_sent := sk_sent s @ p\<rparr>)
      | Some n \<Rightarrow>
          if length p \<le> n then (None, s\<lparr>sk_sent := sk_sent s @ p, sk_room := Some (n - length p)\<rparr>)
          else (Some WWrite, s\<lparr>sk_sent := sk_sent s @ take n p, sk_room := Some 0\<rparr>))"

definition thenW :: "writer \<Rightarrow> writer \<Rightarrow> writer" where
  "thenW w1 w2 s = (case w1 s of (None, s') \<Rightarrow> w2 s' | (Some e, s') \<Rightarrow> (Some e, s'))"

definition failW :: "wire_error \<Rightarrow> writer" where
  "failW e s = (Some e, s)"

fun forW :: "('a \<Rightarrow> writer) \<Rightarrow> 'a list \<Rightarrow> writer" where
  "forW f [] s = (None, s)"
| "forW f (x # xs) s = thenW (f x) (forW f xs) s"

type_synonym 'a reader = "string \<Rightarrow> wire_error + 'a \<times> string"

definition retR :: "'a \<Rightarrow> 'a reader" where
  "retR x s = Inr (x, s)"

definition failR :: "wire_error \<Rightarrow> 'a reader" where
  "failR e s = Inl e"

definition bindR :: "'a reader \<Rightarrow> ('a \<Rightarrow> 'b reader) \<Rightarrow> 'b reader" where
  "bindR m f s = tryR (m s) (\<lambda>(x, s'). f x s')"

fun repR :: "nat \<Rightarrow> 'a reader \<Rightarrow> 'a list reader" where
  "repR 0 m = retR []"
| "repR (Suc n) m = bindR m (\<lambda>x. bindR (repR n m) (\<lambda>xs. retR (x # xs)))"

text \<open>\<open>io.ReadFull\<close> into a buffer of \<open>n\<close> bytes.\<close>

definition readFull :: "nat \<Rightarrow> string reader" where
  "readFull n s = (if length s < n then Inl WRead else Inr (take n s, drop n s))"

section \<open>Constants\<close>

definition maxField :: "32 word" where "maxField = 64 * 2 ^ 20"

definition ProtocolVersion :: char where "ProtocolVersion = char_of (2::nat)"
definition msgFetchRequest :: char where "msgFetchRequest = char_of (1::nat)"
definition msgBundleResponse :: char where "msgBundleResponse = char_of (2::nat)"
definition msgErrorResponse :: char where "msgErrorResponse = char_of (3::nat)"
definition msgHookRequest :: char where "msgHookRequest = char_of (4::nat)"

definition DefaultManifestPath :: string where
  "DefaultManifestPath = ''/run/berm/manifest''"

section \<open>Integers and length-prefixed fields\<close>

definition be16 :: "16 word \<Rightarrow> string" where
  "be16 v = [char_of (unat v div 256), char_of (unat v mod 256)]"

definition be32 :: "32 word \<Rightarrow> string" where
  "be32 v = [char_of (unat v div 2 ^ 24), char_of (unat v div 2 ^ 16 mod 256),
             char_of (unat v div 2 ^ 8 mod 256), char_of (unat v mod 256)]"

fun be_nat :: "string \<Rightarrow> nat \<Rightarrow> nat" where
  "be_nat [] acc = acc"
| "be_nat (c # cs) acc = be_nat cs (acc * 256 + of_char c)"

definition writeU16 :: "32 word \<Rightarrow> writer" where
  "writeU16 v = (if v > 0xffff then failW (WLenU16 v) else sink_write (be16 (ucast v)))"

definition writeU32 :: "32 word \<Rightarrow> writer" where
  "writeU32 v = sink_write (be32 v)"

definition writeU16Bytes :: "string \<Rightarrow> writer" where
  "writeU16Bytes p = thenW (writeU16 (word_of_nat (length p))) (sink_write p)"

definition writeU32Bytes :: "string \<Rightarrow> writer" where
  "writeU32Bytes p = thenW (writeU32 (word_of_nat (length p))) (sink_write p)"

text \<open>A Go map is walked in the order of its sorted keys.\<close>

definition writeStringMap :: "smap \<Rightarrow> writer" where
  "writeStringMap m =
     (if length (sorted_keys m) > 0xffff then failW (WCount (length (sorted_keys m)))
      else thenW (writeU16 (word_of_nat (length (sorted_keys m))))
             (forW (\<lambda>k. thenW (writeU16Bytes k) (writeU16Bytes (sget m k))) (sorted_keys m)))"

definition readU16 :: "nat reader" where
  "readU16 = bindR (readFull 2) (\<lambda>buf. retR (be_nat buf 0))"

definition readU32 :: "32 word reader" where
  "readU32 = bindR (readFull 4) (\<lambda>buf. retR (word_of_nat (be_nat buf 0)))"

definition readU16Bytes :: "string reader" where
  "readU16Bytes = bindR readU16 readFull"

definition readU16String :: "string reader" where
  "readU16String = readU16Bytes"

definition readU32Plain :: "string reader" where
  "readU32Plain = bindR readU32 (\<lambda>n. if n > maxField then failR (WLenCap n) else readFull (unat n))"

fun readPairs :: "nat \<Rightarrow> smap \<Rightarrow> smap reader" where
  "readPairs 0 m = retR m"
| "readPairs (Suc n) m =
     bindR readU16String (\<lambda>k. bindR readU16String (\<lambda>v. readPairs n (AList.update k v m)))"

definition readStringMap :: "smap reader" where
  "readStringMap = bindR readU16 (\<lambda>n. readPairs n [])"

section \<open>Requests and error responses\<close>

datatype request_type = RequestFetch | RequestHook

definition WriteRequest :: writer where
  "WriteRequest = sink_write [ProtocolVersion, msgFetchRequest]"

definition WriteHookRequest :: "string \<Rightarrow> smap \<Rightarrow> writer" where
  "WriteHookRequest containerID annotations =
     (if containerID = [] then failW WNeedId
      else thenW (sink_write [ProtocolVersion, msgHookRequest])
             (thenW (writeU16Bytes containerID) (writeStringMap annotations)))"

definition ReadRequestHeader :: "request_type reader" where
  "ReadRequestHeader = bindR (readFull 2) (\<lambda>hdr.
     if hdr ! 0 \<noteq> ProtocolVersion then failR (WVersion (hdr ! 0))
     else if hdr ! 1 = msgFetchRequest then retR RequestFetch
     else if hdr ! 1 = msgHookRequest then retR RequestHook
     else failR (WType (hdr ! 1)))"

definition ReadHookBody :: "(string \<times> smap) reader" where
  "ReadHookBody = bindR readU16String (\<lambda>id.
     if id = [] then failR WEmptyId
     else bindR readStringMap (\<lambda>ann. retR (id, ann)))"

definition ReadRequest :: "unit reader" where
  "ReadRequest = bindR ReadRequestHeader (\<lambda>rt. if rt \<noteq> RequestFetch then failR WNotFetch else retR ())"

definition ReadHookRequest :: "(string \<times> smap) reader" where
  "ReadHookRequest = bindR ReadRequestHeader (\<lambda>rt. if rt \<noteq> RequestHook then failR WNotHook else ReadHookBody)"

definition WriteError :: "string \<Rightarrow> writer" where
  "WriteError reason = thenW (sink_write [ProtocolVersion, msgErrorResponse]) (writeU16Bytes reason)"

section \<open>Locked buffers and bundles\<close>

text \<open>
  \<open>lm_next\<close> numbers the calls of \<open>memguard.NewBuffer\<close>; \<open>lm_live\<close> are the buffers, with their
  sizes, that have not been destroyed. A secret is the bytes a program reads through its slice,
  with the buffer the slice is a view of (none for an empty one).
\<close>

type_synonym handle = nat

record lockmem =
  lm_next :: handle
  lm_live :: "(handle \<times> nat) list"

record secret =
  sec_bytes :: string
  sec_buf :: "handle option"

definition empty_secret :: secret where
  "empty_secret = \<lparr>sec_bytes = [], sec_buf = None\<rparr>"

record wire_file =
  wf_path :: string
  wf_owner :: string
  wf_mode :: string
  wf_data :: secret

record env_var =
  ev_name :: string
  ev_value :: secret

record pointer =
  pt_name :: string
  pt_path :: string

record wbundle =
  b_files :: "wire_file list"
  b_env :: "env_var list"
  b_pointers :: "pointer list"
  b_manifest :: string
  b_locked :: "handle list"

definition empty_bundle :: wbundle where
  "empty_bundle = \<lparr>b_files = [], b_env = [], b_pointers = [], b_manifest = [], b_locked = []\<rparr>"

definition new_buffer :: "nat \<Rightarrow> lockmem \<Rightarrow> handle \<times> lockmem" where
  "new_buffer n lm = (lm_next lm, \<lparr>lm_next = Suc (lm_next lm), lm_live = lm_live lm @ [(lm_next lm, n)]\<rparr>)"

definition destroy_buffer :: "handle \<Rightarrow> lockmem \<Rightarrow> lockmem" where
  "destroy_buffer h lm = lm\<lparr>lm_live := filter (\<lambda>x. fst x \<noteq> h) (lm_live lm)\<rparr>"

definition AddSecret :: "string \<Rightarrow> wbundle \<Rightarrow> lockmem \<Rightarrow> secret \<times> wbundle \<times> lockmem" where
  "AddSecret src b lm =
     (if src = [] then (empty_secret, b, lm)
      else let (h, lm') = new_buffer (length src) lm in
        (\<lparr>sec_bytes = src, sec_buf = Some h\<rparr>, b\<lparr>b_locked := b_locked b @ [h]\<rparr>, lm'))"

definition Destroy :: "wbundle \<Rightarrow> lockmem \<Rightarrow> wbundle \<times> lockmem" where
  "Destroy b lm =
     (b\<lparr>b_locked := [],
        b_files := map (\<lambda>f. f\<lparr>wf_data := empty_secret\<rparr>) (b_files b),
        b_env := map (\<lambda>e. e\<lparr>ev_value := empty_secret\<rparr>) (b_env b)\<rparr>,
      fold destroy_buffer (b_locked b) lm)"

section \<open>Bundle responses\<close>

definition write_file :: "wire_file \<Rightarrow> writer" where
  "write_file f = thenW (writeU16Bytes (wf_path f)) (thenW (writeU16Bytes (wf_owner f))
     (thenW (writeU16Bytes (wf_mode f)) (writeU32Bytes (sec_bytes (wf_data f)))))"

definition write_env :: "env_var \<Rightarrow> writer" where
  "write_env e = thenW (writeU16Bytes (ev_name e)) (writeU32Bytes (sec_bytes (ev_value e)))"

definition write_pointer :: "pointer \<Rightarrow> writer" where
  "write_pointer p = thenW (writeU16Bytes (pt_name p)) (writeU16Bytes (pt_path p))"

definition EncodeBundle :: "wbundle \<Rightarrow> writer" where
  "EncodeBundle b =
     thenW (sink_write [ProtocolVersion, msgBundleResponse])
     (thenW (writeU32 (word_of_nat (length (b_files b)))) (thenW (forW write_file (b_files b))
     (thenW (writeU32 (word_of_nat (length (b_env b)))) (thenW (forW write_env (b_env b))
     (thenW (writeU32 (word_of_nat (length (b_pointers b)))) (thenW (forW write_pointer (b_pointers b))
       (writeU32Bytes (b_manifest b))))))))"

text \<open>The decoder threads the input, the bundle under construction and the locked memory.\<close>

record dstate =
  d_in :: string
  d_bundle :: wbundle
  d_mem :: lockmem

type_synonym 'a decoder = "dstate \<Rightarrow> (wire_error + 'a) \<times> dstate"

definition retD :: "'a \<Rightarrow> 'a decoder" where
  "retD x st = (Inr x, st)"

definition bindD :: "'a decoder \<Rightarrow> ('a \<Rightarrow> 'b decoder) \<Rightarrow> 'b decoder" where
  "bindD m f st = (case m st of (Inl e, st') \<Rightarrow> (Inl e, st') | (Inr x, st') \<Rightarrow> f x st')"

definition liftD :: "'a reader \<Rightarrow> 'a decoder" where
  "liftD r st = (case r (d_in st) of
     Inl e \<Rightarrow> (Inl e, st) | Inr (x, rest) \<Rightarrow> (Inr x, st\<lparr>d_in := rest\<rparr>))"

definition updD :: "(wbundle \<Rightarrow> wbundle) \<Rightarrow> unit decoder" where
  "updD f st = (Inr (), st\<lparr>d_bundle := f (d_bundle st)\<rparr>)"

fun repD :: "nat \<Rightarrow> unit decoder \<Rightarrow> unit decoder" where
  "repD 0 m = retD ()"
| "repD (Suc n) m = bindD m (\<lambda>_. repD n m)"

definition readU32Locked :: "secret decoder" where
  "readU32Locked = bindD (liftD readU32) (\<lambda>n st.
     if n > maxField then (Inl (WLenCap n), st)
     else if n = 0 then (Inr empty_secret, st)
     else let (h, lm) = new_buffer (unat n) (d_mem st) in
       (case readFull (unat n) (d_in st) of
          Inl e \<Rightarrow> (Inl e, st\<lparr>d_mem := destroy_buffer h lm\<rparr>)
        | Inr (p, rest) \<Rightarrow>
            (Inr \<lparr>sec_bytes = p, sec_buf = Some h\<rparr>,
             st\<lparr>d_in := rest, d_mem := lm,
                d_bundle := (d_bundle st)\<lparr>b_locked := b_locked (d_bundle st) @ [h]\<rparr>\<rparr>)))"

definition decode_file :: "unit decoder" where
  "decode_file = bindD (liftD readU16String) (\<lambda>path. bindD (liftD readU16String) (\<lambda>owner.
     bindD (liftD readU16String) (\<lambda>mode. bindD readU32Locked (\<lambda>data.
       updD (\<lambda>b. b\<lparr>b_files := b_files b @
         [\<lparr>wf_path = path, wf_owner = owner, wf_mode = mode, wf_data = data\<rparr>]\<rparr>)))))"

definition decode_env :: "unit decoder" where
  "decode_env = bindD (liftD readU16String) (\<lambda>name. bindD readU32Locked (\<lambda>val.
     updD (\<lambda>b. b\<lparr>b_env := b_env b @ [\<lparr>ev_name = name, ev_value = val\<rparr>]\<rparr>)))"

definition decode_pointer :: "unit decoder" where
  "decode_pointer = bindD (liftD readU16String) (\<lambda>name. bindD (liftD readU16String) (\<lambda>p.
     updD (\<lambda>b. b\<lparr>b_pointers := b_pointers b @ [\<lparr>pt_name = name, pt_path = p\<rparr>]\<rparr>)))"

definition decode_body :: "unit decoder" where
  "decode_body =
     bindD (liftD readU32) (\<lambda>nFiles. bindD (repD (unat nFiles) decode_file) (\<lambda>_.
     bindD (liftD readU32) (\<lambda>nEnv. bindD (repD (unat nEnv) decode_env) (\<lambda>_.
     bindD (liftD readU32) (\<lambda>nPtr. bindD (repD (unat nPtr) decode_pointer) (\<lambda>_.
     bindD (liftD readU32Plain) (\<lambda>manifest. updD (\<lambda>b. b\<lparr>b_manifest := manifest\<rparr>))))))))"

text \<open>The deferred function: on an error every buffer tracked so far is destroyed.\<close>

definition decodeBundle :: "string \<Rightarrow> lockmem \<Rightarrow> (wire_error + wbundle) \<times> lockmem" where
  "decodeBundle inp lm =
     (case decode_body \<lparr>d_in = inp, d_bundle = empty_bundle, d_mem = lm\<rparr> of
        (Inl e, st) \<Rightarrow> (Inl e, snd (Destroy (d_bundle st) (d_mem st)))
      | (Inr _, st) \<Rightarrow> (Inr (d_bundle st), d_mem st))"

definition ReadResponse :: "string \<Rightarrow> lockmem \<Rightarrow> (wire_error + wbundle) \<times> lockmem" where
  "ReadResponse inp lm =
     (case readFull 2 inp of
        Inl e \<Rightarrow> (Inl e, lm)
      | Inr (hdr, rest) \<Rightarrow>
          if hdr ! 0 \<noteq> ProtocolVersion then (Inl (WVersion (hdr ! 0)), lm)
          else if hdr ! 1 = msgErrorResponse then
            (case readU16Bytes rest of
               Inl e \<Rightarrow> (Inl e, lm)
             | Inr (reason, _) \<Rightarrow> (Inl (WRefused reason), lm))
          else if hdr ! 1 = msgBundleResponse then decodeBundle rest lm
          else (Inl (WType (hdr ! 1)), lm))"


section \<open>Stable readers\<close>

text \<open>A reader that has succeeded does not look at what follows.\<close>

named_theorems stable_rules

definition stable :: "'a reader \<Rightarrow> bool" where
  "stable m \<longleftrightarrow> (\<forall>p x r q. m p = Inr (x, r) \<longrightarrow> m (p @ q) = Inr (x, r @ q))"

lemma stableD: "stable m \<Longrightarrow> m p = Inr (x, r) \<Longrightarrow> m (p @ q) = Inr (x, r @ q)"
  by (simp add: stable_def)

lemma stable_ret [stable_rules]: "stable (retR x)"
  by (simp add: stable_def retR_def)

lemma stable_fail [stable_rules]: "stable (failR e)"
  by (simp add: stable_def failR_def)

lemma stable_readFull [stable_rules]: "stable (readFull n)"
  by (auto simp: stable_def readFull_def split: if_splits)

lemma stable_if [stable_rules]: "stable a \<Longrightarrow> stable b \<Longrightarrow> stable (if c then a else b)"
  by simp

lemma bindR_Inr [result_simps]:
  "bindR m f s = Inr (y, t) \<longleftrightarrow> (\<exists>x u. m s = Inr (x, u) \<and> f x u = Inr (y, t))"
  by (auto simp: bindR_def result_simps)

lemma bindR_step: "m s = Inr (x, u) \<Longrightarrow> bindR m f s = f x u"
  by (simp add: bindR_def)

lemma bindR_fail: "m s = Inl e \<Longrightarrow> bindR m f s = Inl e"
  by (simp add: bindR_def)

lemma stable_bind [stable_rules]: "stable m \<Longrightarrow> (\<And>x. stable (f x)) \<Longrightarrow> stable (bindR m f)"
  unfolding stable_def by (simp add: result_simps) blast

lemma stable_rep [stable_rules]: "stable m \<Longrightarrow> stable (repR n m)"
  by (induction n) (auto intro!: stable_rules)

lemma stable_readers [stable_rules]:
  "stable readU16" "stable readU32" "stable readU16Bytes" "stable readU16String" "stable readU32Plain"
  unfolding readU16_def readU32_def readU16Bytes_def readU16String_def readU32Plain_def
  by (intro stable_rules)+

lemma stable_readPairs [stable_rules]: "stable (readPairs n m)"
  by (induction n arbitrary: m) (auto intro!: stable_rules)

lemma stable_readStringMap [stable_rules]: "stable readStringMap"
  unfolding readStringMap_def by (intro stable_rules)

section \<open>Big-endian integers\<close>

lemma length_be [simp]: "length (be16 v) = 2" "length (be32 w) = 4"
  by (simp_all add: be16_def be32_def)

lemma be_nat_be16: "be_nat (be16 v) 0 = unat v"
proof -
  have "unat v < 2 ^ 16" using unsigned_less [of v] by simp
  then show ?thesis by (simp add: be16_def)
qed

lemma base256: "n = ((n div 2 ^ 24 * 256 + n div 2 ^ 16 mod 256) * 256 + n div 2 ^ 8 mod 256) * 256 + n mod 256"
  for n :: nat
proof -
  have "n div 2 ^ 16 = n div 256 div 256" "n div 2 ^ 24 = n div 256 div 256 div 256" "n div 2 ^ 8 = n div 256"
    by (simp_all add: div_mult2_eq [symmetric])
  moreover have "n div 256 div 256 div 256 * 256 + n div 256 div 256 mod 256 = n div 256 div 256"
    "n div 256 div 256 * 256 + n div 256 mod 256 = n div 256" "n div 256 * 256 + n mod 256 = n"
    by (rule div_mult_mod_eq)+
  ultimately show ?thesis by metis
qed

lemma be_nat_be32: "be_nat (be32 v) 0 = unat v"
proof -
  have "unat v < 2 ^ 32" using unsigned_less [of v] by simp
  then have "unat v div 2 ^ 24 < 256" by simp
  then have "be_nat (be32 v) 0 =
      ((unat v div 2 ^ 24 * 256 + unat v div 2 ^ 16 mod 256) * 256 + unat v div 2 ^ 8 mod 256) * 256 + unat v mod 256"
    by (simp add: be32_def del: power_numeral)
  then show ?thesis by (simp only: base256 [symmetric])
qed

lemma readFull_append: "length p = n \<Longrightarrow> readFull n (p @ r) = Inr (p, r)"
  by (simp add: readFull_def)

lemma readFull_short: "length p < n \<Longrightarrow> readFull n p = Inl WRead"
  by (simp add: readFull_def)

lemma readU16_be16: "readU16 (be16 v @ r) = Inr (unat v, r)"
  by (simp add: readU16_def bindR_step [where m = "readFull 2", OF readFull_append] be_nat_be16 retR_def)

lemma readU32_be32: "readU32 (be32 v @ r) = Inr (v, r)"
  by (simp add: readU32_def bindR_step [where m = "readFull 4", OF readFull_append] be_nat_be32 retR_def)

section \<open>What a writer sends is what the reader reads\<close>

text \<open>
  A writer and a reader agree on a value: whatever the sink accepts, the writer only appends; if
  it succeeds the reader gets the value back and leaves the rest; if it fails part of the way, the
  reader fails on what was sent.
\<close>

definition agrees :: "writer \<Rightarrow> 'b reader \<Rightarrow> 'b \<Rightarrow> bool" where
  "agrees w rd v \<longleftrightarrow>
     (\<forall>s. \<exists>p. sk_sent (snd (w s)) = sk_sent s @ p
        \<and> (case fst (w s) of
             None \<Rightarrow> (\<forall>rest. rd (p @ rest) = Inr (v, rest))
           | Some e \<Rightarrow> \<exists>e'. rd p = Inl e'))"

lemma agreesE:
  assumes "agrees w rd v"
  obtains (full) p s' where "w s = (None, s')" "sk_sent s' = sk_sent s @ p"
      "\<And>rest. rd (p @ rest) = Inr (v, rest)"
  | (failed) p s' e e' where "w s = (Some e, s')" "sk_sent s' = sk_sent s @ p" "rd p = Inl e'"
  using assms unfolding agrees_def
  by (cases "w s"; cases "fst (w s)") (auto dest!: spec [of _ s])

lemma agrees_then:
  assumes "agrees w1 m x" "agrees w2 (f x) y" "stable m"
  shows "agrees (thenW w1 w2) (bindR m f) y"
  unfolding agrees_def
proof
  fix s
  show "\<exists>p. sk_sent (snd (thenW w1 w2 s)) = sk_sent s @ p
    \<and> (case fst (thenW w1 w2 s) of
         None \<Rightarrow> (\<forall>rest. bindR m f (p @ rest) = Inr (y, rest))
       | Some e \<Rightarrow> \<exists>e'. bindR m f p = Inl e')"
    using assms(1)
  proof (cases rule: agreesE [where s = s])
    case d1: (full p1 s1)
    from assms(2) show ?thesis
    proof (cases rule: agreesE [where s = s1])
      case (full p2 s2)
      have "bindR m f ((p1 @ p2) @ rest) = Inr (y, rest)" for rest
        using d1(3) [of "p2 @ rest"] full(3) [of rest] by (simp add: bindR_step)
      with d1 full show ?thesis by (intro exI [of _ "p1 @ p2"]) (simp add: thenW_def)
    next
      case (failed p2 s2 e e')
      have "bindR m f (p1 @ p2) = Inl e'"
        using d1(3) [of p2] failed(3) by (simp add: bindR_step)
      with d1 failed show ?thesis by (intro exI [of _ "p1 @ p2"]) (simp add: thenW_def)
    qed
  next
    case (failed p1 s1 e e')
    then show ?thesis by (intro exI [of _ p1]) (auto simp: thenW_def bindR_def)
  qed
qed

lemma agrees_map:
  assumes "agrees w m x" "\<And>r. f x r = Inr (y, r)"
  shows "agrees w (bindR m f) y"
  unfolding agrees_def
proof
  fix s
  show "\<exists>p. sk_sent (snd (w s)) = sk_sent s @ p
    \<and> (case fst (w s) of
         None \<Rightarrow> (\<forall>rest. bindR m f (p @ rest) = Inr (y, rest))
       | Some e \<Rightarrow> \<exists>e'. bindR m f p = Inl e')"
    using assms(1) by (cases rule: agreesE [where s = s]) (auto simp: bindR_def assms(2))
qed

lemma agrees_sink:
  assumes "\<And>rest. rd (p @ rest) = Inr (v, rest)" "\<And>n. n < length p \<Longrightarrow> \<exists>e. rd (take n p) = Inl e"
  shows "agrees (sink_write p) rd v"
  unfolding agrees_def sink_write_def
  using assms by (auto split: option.splits intro!: exI [of _ "take _ p"])

lemma agrees_fail: "rd [] = Inl e' \<Longrightarrow> agrees (failW e) rd v"
  by (auto simp: agrees_def failW_def)

text \<open>A fixed-size field read by \<open>io.ReadFull\<close>.\<close>

lemma agrees_readFull: "agrees (sink_write p) (readFull (length p)) p"
  by (rule agrees_sink) (auto simp: readFull_append readFull_short)

lemma agrees_u32: "agrees (writeU32 v) readU32 v"
  unfolding writeU32_def
proof (rule agrees_sink)
  show "readU32 (be32 v @ rest) = Inr (v, rest)" for rest by (rule readU32_be32)
  show "\<exists>e. readU32 (take n (be32 v)) = Inl e" if "n < length (be32 v)" for n
    using that by (auto simp: readU32_def bindR_def readFull_def)
qed

lemma readU16_short: "length p < 2 \<Longrightarrow> readU16 p = Inl WRead"
  by (simp add: readU16_def bindR_fail [OF readFull_short])

lemma agrees_u16:
  assumes "v \<le> 0xffff"
  shows "agrees (writeU16 v) readU16 (unat v)"
proof -
  have "unat v \<le> unat (0xffff :: 32 word)" using assms by (simp add: word_le_nat_alt)
  then have u: "unat (ucast v :: 16 word) = unat v" by (simp add: unsigned_ucast_eq take_bit_nat_eq_self)
  have "agrees (sink_write (be16 (ucast v))) readU16 (unat v)"
    by (rule agrees_sink) (auto simp: readU16_be16 u readU16_short)
  moreover have "\<not> v > 0xffff" using assms by (simp add: not_less)
  ultimately show ?thesis by (simp add: writeU16_def)
qed

lemma unat_len: "length p < 2 ^ 32 \<Longrightarrow> unat (word_of_nat (length p) :: 32 word) = length p"
  by (simp add: unsigned_of_nat take_bit_nat_eq_self)

text \<open>
  The interface between the two ends of a field: a writer, a reader and the values they are meant
  for. \<open>view\<close> forgets what the wire does not carry.
\<close>

locale wire_pair =
  fixes wr :: "'a \<Rightarrow> writer" and rd :: "'b reader" and view :: "'a \<Rightarrow> 'b" and ok :: "'a \<Rightarrow> bool"
  assumes sound: "ok x \<Longrightarrow> agrees (wr x) rd (view x)"
    and stable: "stable rd"
begin

lemma round_trip:
  assumes "ok x" "wr x s = (None, s')"
  shows "\<exists>p. sk_sent s' = sk_sent s @ p \<and> rd (p @ rest) = Inr (view x, rest)"
  using sound [OF assms(1)] assms(2) by (cases rule: agreesE [where s = s]) auto

text \<open>Anything the reader accepts out of a writer's output, cut anywhere, is the whole value.\<close>

lemma never_misread:
  assumes "ok x" "sk_sent (snd (wr x s)) = sk_sent s @ p @ q" "rd p = Inr (y, r)"
  shows "fst (wr x s) = None \<and> y = view x \<and> q = [] \<and> r = []"
  using sound [OF assms(1)]
proof (cases rule: agreesE [where s = s])
  case (full p' s')
  then have "p' = p @ q" using assms(2) by simp
  then have "rd (p @ q) = Inr (view x, [])" using full(3) [of "[]"] by simp
  moreover have "rd (p @ q) = Inr (y, r @ q)" using stable assms(3) by (rule stableD)
  ultimately show ?thesis using full by simp
next
  case (failed p' s' e e')
  then have "p' = p @ q" using assms(2) by simp
  moreover have "rd (p @ q) = Inr (y, r @ q)" using stable assms(3) by (rule stableD)
  ultimately show ?thesis using failed by simp
qed

lemma list_agrees: "\<forall>x \<in> set xs. ok x \<Longrightarrow> agrees (forW wr xs) (repR (length xs) rd) (map view xs)"
proof (induction xs)
  case Nil
  show ?case by (auto simp: agrees_def retR_def)
next
  case (Cons x xs)
  have "agrees (thenW (wr x) (forW wr xs)) (repR (Suc (length xs)) rd) (view x # map view xs)"
    unfolding repR.simps
  proof (rule agrees_then)
    show "agrees (wr x) rd (view x)" using Cons.prems by (intro sound) simp
    show "agrees (forW wr xs) (bindR (repR (length xs) rd) (\<lambda>ys. retR (view x # ys))) (view x # map view xs)"
      by (rule agrees_map [where x = "map view xs"]) (use Cons in \<open>auto simp: retR_def\<close>)
  qed (rule stable)
  moreover have "forW wr (x # xs) = thenW (wr x) (forW wr xs)" by (rule ext) simp
  ultimately show ?case by simp
qed

end

definition short_string :: "string \<Rightarrow> bool" where
  "short_string p \<longleftrightarrow> length p < 2 ^ 32"

interpretation str16: wire_pair writeU16Bytes readU16String "\<lambda>p. p" short_string
proof
  fix p :: string
  assume "short_string p"
  then have n: "unat (word_of_nat (length p) :: 32 word) = length p"
    unfolding short_string_def by (rule unat_len)
  show "agrees (writeU16Bytes p) readU16String p"
  proof (cases "(word_of_nat (length p) :: 32 word) \<le> 0xffff")
    case True
    show ?thesis
      unfolding writeU16Bytes_def readU16String_def readU16Bytes_def
      by (rule agrees_then [OF agrees_u16 [OF True]])
        (use agrees_readFull [of p] n in \<open>auto intro: stable_rules\<close>)
  next
    case False
    have "agrees (failW (WLenU16 (word_of_nat (length p)))) readU16String p"
      by (rule agrees_fail [of _ WRead])
        (simp add: readU16String_def readU16Bytes_def bindR_fail [OF readU16_short])
    moreover have "writeU16Bytes p = failW (WLenU16 (word_of_nat (length p)))"
      using False by (auto simp: writeU16Bytes_def writeU16_def thenW_def failW_def fun_eq_iff)
    ultimately show ?thesis by simp
  qed
qed (rule stable_rules)

definition payload :: "string \<Rightarrow> bool" where
  "payload p \<longleftrightarrow> length p \<le> 64 * 2 ^ 20"

interpretation str32: wire_pair writeU32Bytes readU32Plain "\<lambda>p. p" payload
proof
  fix p :: string
  assume "payload p"
  then have l: "length p \<le> 64 * 2 ^ 20" by (simp add: payload_def)
  then have n: "unat (word_of_nat (length p) :: 32 word) = length p" by (intro unat_len) simp
  have "\<not> (word_of_nat (length p) :: 32 word) > maxField"
    using l n by (simp add: maxField_def word_less_nat_alt)
  then show "agrees (writeU32Bytes p) readU32Plain p"
    unfolding writeU32Bytes_def readU32Plain_def
    by (intro agrees_then [OF agrees_u32]) (use agrees_readFull [of p] n in \<open>auto intro: stable_rules\<close>)
qed (rule stable_rules)


section \<open>The contents of a bundle\<close>

text \<open>What a bundle says, without the buffers that hold it, and a reader of it.\<close>

definition file_view :: "wire_file \<Rightarrow> string \<times> string \<times> string \<times> string" where
  "file_view f = (wf_path f, wf_owner f, wf_mode f, sec_bytes (wf_data f))"

definition env_view :: "env_var \<Rightarrow> string \<times> string" where
  "env_view e = (ev_name e, sec_bytes (ev_value e))"

definition pointer_view :: "pointer \<Rightarrow> string \<times> string" where
  "pointer_view p = (pt_name p, pt_path p)"

definition bundle_view ::
  "wbundle \<Rightarrow> (string \<times> string \<times> string \<times> string) list \<times> (string \<times> string) list \<times> (string \<times> string) list \<times> string" where
  "bundle_view b = (map file_view (b_files b), map env_view (b_env b), map pointer_view (b_pointers b), b_manifest b)"

definition rd_file :: "(string \<times> string \<times> string \<times> string) reader" where
  "rd_file = bindR readU16String (\<lambda>p. bindR readU16String (\<lambda>ow. bindR readU16String (\<lambda>md.
     bindR readU32Plain (\<lambda>d. retR (p, ow, md, d)))))"

definition rd_env :: "(string \<times> string) reader" where
  "rd_env = bindR readU16String (\<lambda>n. bindR readU32Plain (\<lambda>v. retR (n, v)))"

definition rd_pointer :: "(string \<times> string) reader" where
  "rd_pointer = bindR readU16String (\<lambda>n. bindR readU16String (\<lambda>p. retR (n, p)))"

definition rd_body ::
  "((string \<times> string \<times> string \<times> string) list \<times> (string \<times> string) list \<times> (string \<times> string) list \<times> string) reader" where
  "rd_body =
     bindR readU32 (\<lambda>nf. bindR (repR (unat nf) rd_file) (\<lambda>fs.
     bindR readU32 (\<lambda>ne. bindR (repR (unat ne) rd_env) (\<lambda>es.
     bindR readU32 (\<lambda>np. bindR (repR (unat np) rd_pointer) (\<lambda>ps.
     bindR readU32Plain (\<lambda>m. retR (fs, es, ps, m))))))))"

lemma stable_rd [stable_rules]: "stable rd_file" "stable rd_env" "stable rd_pointer" "stable rd_body"
  unfolding rd_file_def rd_env_def rd_pointer_def rd_body_def by (intro stable_rules)+

definition file_fits :: "wire_file \<Rightarrow> bool" where
  "file_fits f \<longleftrightarrow> short_string (wf_path f) \<and> short_string (wf_owner f) \<and> short_string (wf_mode f)
     \<and> payload (sec_bytes (wf_data f))"

definition env_fits :: "env_var \<Rightarrow> bool" where
  "env_fits e \<longleftrightarrow> short_string (ev_name e) \<and> payload (sec_bytes (ev_value e))"

definition pointer_fits :: "pointer \<Rightarrow> bool" where
  "pointer_fits p \<longleftrightarrow> short_string (pt_name p) \<and> short_string (pt_path p)"

text \<open>The sizes a bundle must have: payloads within the decoder's cap, the rest below \<open>2 ^ 32\<close>.\<close>

definition bundle_fits :: "wbundle \<Rightarrow> bool" where
  "bundle_fits b \<longleftrightarrow>
     length (b_files b) < 2 ^ 32 \<and> length (b_env b) < 2 ^ 32 \<and> length (b_pointers b) < 2 ^ 32
     \<and> (\<forall>f \<in> set (b_files b). file_fits f) \<and> (\<forall>e \<in> set (b_env b). env_fits e)
     \<and> (\<forall>p \<in> set (b_pointers b). pointer_fits p) \<and> payload (b_manifest b)"

lemmas agrees_last = agrees_map [OF _ retR_def]

interpretation file_pair: wire_pair write_file rd_file file_view file_fits
proof
  fix f assume "file_fits f"
  then show "agrees (write_file f) rd_file (file_view f)"
    unfolding file_fits_def write_file_def rd_file_def file_view_def
    by (auto intro!: agrees_then [OF str16.sound] agrees_last [OF str32.sound] stable_rules)
qed (rule stable_rules)

interpretation env_pair: wire_pair write_env rd_env env_view env_fits
proof
  fix e assume "env_fits e"
  then show "agrees (write_env e) rd_env (env_view e)"
    unfolding env_fits_def write_env_def rd_env_def env_view_def
    by (auto intro!: agrees_then [OF str16.sound] agrees_last [OF str32.sound] stable_rules)
qed (rule stable_rules)

interpretation pointer_pair: wire_pair write_pointer rd_pointer pointer_view pointer_fits
proof
  fix p assume "pointer_fits p"
  then show "agrees (write_pointer p) rd_pointer (pointer_view p)"
    unfolding pointer_fits_def write_pointer_def rd_pointer_def pointer_view_def
    by (auto intro!: agrees_then [OF str16.sound] agrees_last [OF str16.sound] stable_rules)
qed (rule stable_rules)

definition write_body :: "wbundle \<Rightarrow> writer" where
  "write_body b =
     thenW (writeU32 (word_of_nat (length (b_files b)))) (thenW (forW write_file (b_files b))
     (thenW (writeU32 (word_of_nat (length (b_env b)))) (thenW (forW write_env (b_env b))
     (thenW (writeU32 (word_of_nat (length (b_pointers b)))) (thenW (forW write_pointer (b_pointers b))
       (writeU32Bytes (b_manifest b)))))))"

lemma EncodeBundle_body:
  "EncodeBundle b = thenW (sink_write [ProtocolVersion, msgBundleResponse]) (write_body b)"
  by (simp add: EncodeBundle_def write_body_def)

interpretation body_pair: wire_pair write_body rd_body bundle_view bundle_fits
proof
  fix b assume b: "bundle_fits b"
  have len: "unat (word_of_nat (length xs) :: 32 word) = length xs" if "length xs < 2 ^ 32" for xs :: "'z list"
    using that by (simp add: unsigned_of_nat take_bit_nat_eq_self)
  have fs: "agrees (forW write_file (b_files b)) (repR (unat (word_of_nat (length (b_files b)) :: 32 word)) rd_file)
      (map file_view (b_files b))"
    and es: "agrees (forW write_env (b_env b)) (repR (unat (word_of_nat (length (b_env b)) :: 32 word)) rd_env)
      (map env_view (b_env b))"
    and ps: "agrees (forW write_pointer (b_pointers b)) (repR (unat (word_of_nat (length (b_pointers b)) :: 32 word)) rd_pointer)
      (map pointer_view (b_pointers b))"
    using b by (simp_all add: bundle_fits_def len file_pair.list_agrees env_pair.list_agrees pointer_pair.list_agrees)
  have m: "payload (b_manifest b)" using b by (simp add: bundle_fits_def)
  show "agrees (write_body b) rd_body (bundle_view b)"
    unfolding write_body_def rd_body_def bundle_view_def
    by (intro agrees_then [OF agrees_u32] agrees_then [OF fs] agrees_then [OF es] agrees_then [OF ps]
        agrees_last [OF str32.sound [OF m]] stable_rules)
qed (rule stable_rules)

section \<open>The decoder computes the contents\<close>

lemma readU32Locked_eq:
  "readU32Locked st =
     (case readU32 (d_in st) of
        Inl e \<Rightarrow> (Inl e, st)
      | Inr (n, rest) \<Rightarrow>
          if n > maxField then (Inl (WLenCap n), st\<lparr>d_in := rest\<rparr>)
          else if n = 0 then (Inr empty_secret, st\<lparr>d_in := rest\<rparr>)
          else if length rest < unat n
          then (Inl WRead, st\<lparr>d_in := rest,
                 d_mem := destroy_buffer (lm_next (d_mem st)) (snd (new_buffer (unat n) (d_mem st)))\<rparr>)
          else (Inr \<lparr>sec_bytes = take (unat n) rest, sec_buf = Some (lm_next (d_mem st))\<rparr>,
             st\<lparr>d_in := drop (unat n) rest, d_mem := snd (new_buffer (unat n) (d_mem st)),
                d_bundle := (d_bundle st)\<lparr>b_locked := b_locked (d_bundle st) @ [lm_next (d_mem st)]\<rparr>\<rparr>))"
  by (simp add: readU32Locked_def bindD_def liftD_def readFull_def new_buffer_def Let_def
      split: sum.split prod.split)

text \<open>A decoder step and the reader it implements, as a relation on the contents so far.\<close>

type_synonym contents =
  "(string \<times> string \<times> string \<times> string) list \<times> (string \<times> string) list \<times> (string \<times> string) list \<times> string"

definition implements :: "'a decoder \<Rightarrow> 'b reader \<Rightarrow> ('a \<Rightarrow> 'b \<Rightarrow> contents \<Rightarrow> contents \<Rightarrow> bool) \<Rightarrow> bool" where
  "implements m r P \<longleftrightarrow>
     (\<forall>st. case r (d_in st) of
        Inl e \<Rightarrow> fst (m st) = Inl e
      | Inr (y, rest) \<Rightarrow> \<exists>x st'. m st = (Inr x, st') \<and> d_in st' = rest
            \<and> P x y (bundle_view (d_bundle st)) (bundle_view (d_bundle st')))"

lemma implementsE:
  assumes "implements m r P"
  obtains (failed) e st' where "r (d_in st) = Inl e" "m st = (Inl e, st')"
  | (ok) y x st' where "r (d_in st) = Inr (y, d_in st')" "m st = (Inr x, st')"
      "P x y (bundle_view (d_bundle st)) (bundle_view (d_bundle st'))"
  using assms unfolding implements_def
  by (cases "r (d_in st)"; cases "m st") (auto dest!: spec [of _ st])

lemma implements_bind:
  assumes "implements m r P" "\<And>x y. implements (f x) (k y) (Q x y)"
    and "\<And>x y u v a b c. P x y a b \<Longrightarrow> Q x y u v b c \<Longrightarrow> R u v a c"
  shows "implements (bindD m f) (bindR r k) R"
  unfolding implements_def
proof
  fix st
  show "case bindR r k (d_in st) of
      Inl e \<Rightarrow> fst (bindD m f st) = Inl e
    | Inr (y, rest) \<Rightarrow> \<exists>x st'. bindD m f st = (Inr x, st') \<and> d_in st' = rest
          \<and> R x y (bundle_view (d_bundle st)) (bundle_view (d_bundle st'))"
    using assms(1)
  proof (cases rule: implementsE [where st = st])
    case 1: (ok y x st')
    from assms(2) [of x y] show ?thesis
      by (cases rule: implementsE [where st = st']) (use 1 assms(3) in \<open>auto simp: bindR_def bindD_def\<close>)
  qed (auto simp: bindR_def bindD_def)
qed

lemma implements_lift: "implements (liftD r) r (\<lambda>x y a b. x = y \<and> a = b)"
  by (auto simp: implements_def liftD_def split: sum.splits)

lemma implements_locked: "implements readU32Locked readU32Plain (\<lambda>x y a b. sec_bytes x = y \<and> a = b)"
  unfolding implements_def readU32Locked_eq
  by (auto simp: readU32Plain_def bindR_def failR_def readFull_def empty_secret_def bundle_view_def
      split: sum.splits if_split_asm)

lemma implements_upd:
  "(\<And>b. bundle_view (f b) = g (bundle_view b)) \<Longrightarrow> implements (updD f) (retR y) (\<lambda>_ z a b. z = y \<and> b = g a)"
  by (simp add: implements_def updD_def retR_def)


lemma implements_lift_bind:
  "(\<And>x. implements (f x) (k x) Q) \<Longrightarrow> implements (bindD (liftD r) f) (bindR r k) Q"
  unfolding implements_def
proof
  fix st
  assume a: "\<And>x. \<forall>st. case k x (d_in st) of
      Inl e \<Rightarrow> fst (f x st) = Inl e
    | Inr (y, rest) \<Rightarrow> \<exists>u st'. f x st = (Inr u, st') \<and> d_in st' = rest
          \<and> Q u y (bundle_view (d_bundle st)) (bundle_view (d_bundle st'))"
  show "case bindR r k (d_in st) of
      Inl e \<Rightarrow> fst (bindD (liftD r) f st) = Inl e
    | Inr (y, rest) \<Rightarrow> \<exists>u st'. bindD (liftD r) f st = (Inr u, st') \<and> d_in st' = rest
          \<and> Q u y (bundle_view (d_bundle st)) (bundle_view (d_bundle st'))"
  proof (cases "r (d_in st)")
    case (Inr p)
    then obtain x rest where "r (d_in st) = Inr (x, rest)" by (cases p) simp
    moreover from this have "bindD (liftD r) f st = f x (st\<lparr>d_in := rest\<rparr>)"
      by (simp add: bindD_def liftD_def)
    ultimately show ?thesis using spec [OF a [of x], of "st\<lparr>d_in := rest\<rparr>"]
      unfolding bindR_def by (simp split: sum.split_asm sum.split)
  qed (simp add: bindR_def bindD_def liftD_def)
qed

lemma implements_locked_bind:
  assumes "\<And>x. implements (f x) (k (sec_bytes x)) Q"
  shows "implements (bindD readU32Locked f) (bindR readU32Plain k) Q"
  unfolding implements_def
proof
  fix st
  show "case bindR readU32Plain k (d_in st) of
      Inl e \<Rightarrow> fst (bindD readU32Locked f st) = Inl e
    | Inr (y, rest) \<Rightarrow> \<exists>u st'. bindD readU32Locked f st = (Inr u, st') \<and> d_in st' = rest
          \<and> Q u y (bundle_view (d_bundle st)) (bundle_view (d_bundle st'))"
    using implements_locked
  proof (cases rule: implementsE [where st = st])
    case 1: (ok y x st')
    from assms [of x] show ?thesis
      by (cases rule: implementsE [where st = st']) (use 1 in \<open>auto simp: bindR_def bindD_def\<close>)
  qed (auto simp: bindR_def bindD_def)
qed

lemma implements_updI:
  "(\<And>b. Q () y (bundle_view b) (bundle_view (f b))) \<Longrightarrow> implements (updD f) (retR y) Q"
  by (simp add: implements_def updD_def retR_def)

lemma implements_rep:
  assumes "implements m r (\<lambda>_ y a b. b = g y a)"
  shows "implements (repD n m) (repR n r) (\<lambda>_ ys a b. b = fold g ys a)"
proof (induction n)
  case 0
  show ?case by (simp add: implements_def retD_def retR_def)
next
  case (Suc n)
  have *: "implements (repD n m) (bindR (repR n r) (\<lambda>ys. retR (y # ys))) (\<lambda>_ zs a b. zs \<noteq> [] \<and> hd zs = y \<and> b = fold g (tl zs) a)" for y
    unfolding implements_def
  proof
    fix st
    show "case bindR (repR n r) (\<lambda>ys. retR (y # ys)) (d_in st) of
        Inl e \<Rightarrow> fst (repD n m st) = Inl e
      | Inr (zs, rest) \<Rightarrow> \<exists>x st'. repD n m st = (Inr x, st') \<and> d_in st' = rest \<and> zs \<noteq> [] \<and> hd zs = y
          \<and> bundle_view (d_bundle st') = fold g (tl zs) (bundle_view (d_bundle st))"
      using Suc by (cases rule: implementsE [where st = st]) (auto simp: bindR_def retR_def)
  qed
  show ?case
    unfolding repD.simps repR.simps
    by (rule implements_bind [OF assms *]) (auto simp: neq_Nil_conv)
qed

definition add_file :: "string \<times> string \<times> string \<times> string \<Rightarrow> contents \<Rightarrow> contents" where
  "add_file y = (\<lambda>(fs, es, ps, m). (fs @ [y], es, ps, m))"

definition add_env :: "string \<times> string \<Rightarrow> contents \<Rightarrow> contents" where
  "add_env y = (\<lambda>(fs, es, ps, m). (fs, es @ [y], ps, m))"

definition add_pointer :: "string \<times> string \<Rightarrow> contents \<Rightarrow> contents" where
  "add_pointer y = (\<lambda>(fs, es, ps, m). (fs, es, ps @ [y], m))"

lemma fold_add [simp]:
  "fold add_file ys (fs, es, ps, m) = (fs @ ys, es, ps, m)"
  "fold add_env zs (fs, es, ps, m) = (fs, es @ zs, ps, m)"
  "fold add_pointer zs (fs, es, ps, m) = (fs, es, ps @ zs, m)"
    apply (induction ys arbitrary: fs) apply (simp_all add: add_file_def)
   apply (induction zs arbitrary: es) apply (simp_all add: add_env_def)
  apply (induction zs arbitrary: ps) apply (simp_all add: add_pointer_def)
  done

lemma implements_file: "implements decode_file rd_file (\<lambda>_ y a b. b = add_file y a)"
  unfolding decode_file_def rd_file_def
  by (intro implements_lift_bind implements_locked_bind implements_updI)
    (simp add: bundle_view_def file_view_def add_file_def)

lemma implements_env: "implements decode_env rd_env (\<lambda>_ y a b. b = add_env y a)"
  unfolding decode_env_def rd_env_def
  by (intro implements_lift_bind implements_locked_bind implements_updI)
    (simp add: bundle_view_def env_view_def add_env_def)

lemma implements_pointer: "implements decode_pointer rd_pointer (\<lambda>_ y a b. b = add_pointer y a)"
  unfolding decode_pointer_def rd_pointer_def
  by (intro implements_lift_bind implements_updI)
    (simp add: bundle_view_def pointer_view_def add_pointer_def)

lemma implements_rep_bind:
  assumes "implements m r (\<lambda>_ y a b. b = g y a)"
    and "\<And>x ys. implements (f x) (k ys) (\<lambda>u v b c. \<forall>a. b = fold g ys a \<longrightarrow> Q u v a c)"
  shows "implements (bindD (repD n m) f) (bindR (repR n r) k) Q"
  by (rule implements_bind [OF implements_rep [OF assms(1)] assms(2)]) blast

lemma implements_body:
  "implements decode_body rd_body (\<lambda>_ (fs, es, ps, m) (fs', es', ps', m') b.
      b = (fs' @ fs, es' @ es, ps' @ ps, m))"
  unfolding decode_body_def rd_body_def
  by (intro implements_lift_bind implements_rep_bind [OF implements_file]
      implements_rep_bind [OF implements_env] implements_rep_bind [OF implements_pointer] implements_updI)
    (auto simp: bundle_view_def)

lemma decodeBundle_contents:
  "(case rd_body inp of
      Inl e \<Rightarrow> fst (decodeBundle inp lm) = Inl e
    | Inr (c, rest) \<Rightarrow> \<exists>b. fst (decodeBundle inp lm) = Inr b \<and> bundle_view b = c)"
  using implements_body
  by (cases rule: implementsE [where st = "\<lparr>d_in = inp, d_bundle = empty_bundle, d_mem = lm\<rparr>"])
    (auto simp: decodeBundle_def bundle_view_def empty_bundle_def)


section \<open>Locked memory\<close>

text \<open>
  The buffers live before a bundle was begun are \<open>base\<close>; those the bundle has tracked since are
  live too, each once, and back its secrets. \<open>backed\<close> says what a secret view rests on.
\<close>

definition mem_ok :: "lockmem \<Rightarrow> bool" where
  "mem_ok lm \<longleftrightarrow> (\<forall>x \<in> set (lm_live lm). fst x < lm_next lm)"

definition backed :: "lockmem \<Rightarrow> handle list \<Rightarrow> secret \<Rightarrow> bool" where
  "backed lm hs s \<longleftrightarrow>
     (case sec_buf s of
        None \<Rightarrow> sec_bytes s = []
      | Some h \<Rightarrow> h \<in> set hs \<and> (h, length (sec_bytes s)) \<in> set (lm_live lm))"

definition owns :: "(handle \<times> nat) list \<Rightarrow> wbundle \<Rightarrow> lockmem \<Rightarrow> bool" where
  "owns base b lm \<longleftrightarrow> mem_ok lm
     \<and> (\<exists>mine. lm_live lm = base @ mine \<and> map fst mine = b_locked b \<and> distinct (b_locked b)
          \<and> (\<forall>x \<in> set base. fst x \<notin> set (b_locked b)))
     \<and> (\<forall>f \<in> set (b_files b). backed lm (b_locked b) (wf_data f))
     \<and> (\<forall>e \<in> set (b_env b). backed lm (b_locked b) (ev_value e))"

lemma owns_empty: "mem_ok lm \<Longrightarrow> owns (lm_live lm) empty_bundle lm"
  by (simp add: owns_def empty_bundle_def)

lemma mem_ok_new: "mem_ok lm \<Longrightarrow> mem_ok (snd (new_buffer n lm))"
  by (auto simp: mem_ok_def new_buffer_def)

lemma backed_new:
  "backed lm hs s \<Longrightarrow> backed (snd (new_buffer n lm)) (hs @ hs') s"
  by (auto simp: backed_def new_buffer_def split: option.splits)

lemma owns_new:
  assumes "owns base b lm"
  shows "owns base (b\<lparr>b_locked := b_locked b @ [lm_next lm]\<rparr>) (snd (new_buffer n lm))"
proof -
  from assms obtain mine where m: "lm_live lm = base @ mine" "map fst mine = b_locked b"
    "distinct (b_locked b)" "\<forall>x \<in> set base. fst x \<notin> set (b_locked b)" and ok: "mem_ok lm"
    by (auto simp: owns_def)
  have nx: "fst x \<noteq> lm_next lm" if "x \<in> set (lm_live lm)" for x
    using ok that by (auto simp: mem_ok_def)
  then have "\<forall>x \<in> set base. fst x \<noteq> lm_next lm" using m(1) by simp
  moreover have "lm_next lm \<notin> set (b_locked b)"
    unfolding m(2) [symmetric] using nx m(1) by force
  ultimately have "lm_next lm \<notin> set (b_locked b)" "\<forall>x \<in> set base. fst x \<noteq> lm_next lm" by simp_all
  moreover define lm' where "lm' = snd (new_buffer n lm)"
  then have "lm_live lm' = base @ mine @ [(lm_next lm, n)]" "mem_ok lm'"
    using mem_ok_new [OF ok] m(1) by (simp_all add: new_buffer_def)
  moreover have "backed lm hs s \<Longrightarrow> backed lm' (hs @ hs') s" for hs hs' s
    unfolding lm'_def by (rule backed_new)
  ultimately show ?thesis
    unfolding lm'_def [symmetric] using m assms
    by (auto simp: owns_def intro!: exI [of _ "mine @ [(lm_next lm, n)]"])
qed

lemma owns_failed_read:
  assumes "mem_ok lm"
  shows "destroy_buffer (lm_next lm) (snd (new_buffer n lm)) = lm\<lparr>lm_next := Suc (lm_next lm)\<rparr>"
proof -
  have "filter (\<lambda>x. fst x \<noteq> lm_next lm) (lm_live lm) = lm_live lm"
    using assms by (auto simp: mem_ok_def intro!: filter_True)
  then show ?thesis by (simp add: destroy_buffer_def new_buffer_def)
qed

lemma owns_skip: "owns base b lm \<Longrightarrow> owns base b (lm\<lparr>lm_next := Suc (lm_next lm)\<rparr>)"
  by (auto simp: owns_def mem_ok_def backed_def less_Suc_eq split: option.splits)

lemma lm_live_fold_destroy:
  "lm_live (fold destroy_buffer hs lm) = filter (\<lambda>x. fst x \<notin> set hs) (lm_live lm)"
  by (induction hs arbitrary: lm) (auto simp: destroy_buffer_def intro: filter_cong)

lemma owns_Destroy: "owns base b lm \<Longrightarrow> lm_live (snd (Destroy b lm)) = base"
proof -
  assume "owns base b lm"
  then obtain mine where m: "lm_live lm = base @ mine" "map fst mine = b_locked b"
    "\<forall>x \<in> set base. fst x \<notin> set (b_locked b)"
    by (auto simp: owns_def)
  have "\<forall>x \<in> set mine. fst x \<in> set (b_locked b)"
    unfolding m(2) [symmetric] by simp
  then show ?thesis using m by (auto simp: Destroy_def lm_live_fold_destroy filter_empty_conv intro!: filter_True)
qed

lemma Destroy_idem: "Destroy (fst (Destroy b lm)) lm' = (fst (Destroy b lm), lm')"
  by (auto simp: Destroy_def comp_def)

lemma AddSecret_owns:
  assumes "owns base b lm" "AddSecret src b lm = (s, b', lm')"
  shows "owns base b' lm'" "sec_bytes s = src" "backed lm' (b_locked b') s"
    "b_files b' = b_files b" "b_env b' = b_env b" "b_pointers b' = b_pointers b" "b_manifest b' = b_manifest b"
  using assms owns_new [OF assms(1), of "length src"]
  by (auto simp: AddSecret_def Let_def backed_def empty_secret_def new_buffer_def split: if_splits)

text \<open>Decoder steps that keep the ownership, with what they give back.\<close>

definition keeps :: "(handle \<times> nat) list \<Rightarrow> 'a decoder \<Rightarrow> ('a \<Rightarrow> dstate \<Rightarrow> bool) \<Rightarrow> bool" where
  "keeps base m Q \<longleftrightarrow>
     (\<forall>st. owns base (d_bundle st) (d_mem st) \<longrightarrow>
        (case m st of (r, st') \<Rightarrow> owns base (d_bundle st') (d_mem st') \<and> (\<forall>x. r = Inr x \<longrightarrow> Q x st')))"

lemma keepsI:
  assumes "\<And>st r st'. owns base (d_bundle st) (d_mem st) \<Longrightarrow> m st = (r, st') \<Longrightarrow>
    owns base (d_bundle st') (d_mem st') \<and> (\<forall>x. r = Inr x \<longrightarrow> Q x st')"
  shows "keeps base m Q"
  unfolding keeps_def
proof (intro allI impI)
  fix st :: dstate
  assume o: "owns base (d_bundle st) (d_mem st)"
  obtain r st' where m: "m st = (r, st')" by (cases "m st")
  from assms [OF o m] show "case m st of (r, st') \<Rightarrow>
      owns base (d_bundle st') (d_mem st') \<and> (\<forall>x. r = Inr x \<longrightarrow> Q x st')"
    by (simp add: m)
qed

lemma keepsD:
  assumes "keeps base m Q" "m st = (r, st')" "owns base (d_bundle st) (d_mem st)"
  shows "owns base (d_bundle st') (d_mem st')" "r = Inr x \<Longrightarrow> Q x st'"
proof -
  note k = assms(1) [unfolded keeps_def, rule_format, OF assms(3), unfolded assms(2)]
  from k show "owns base (d_bundle st') (d_mem st')" "r = Inr x \<Longrightarrow> Q x st'" by simp_all
qed

lemma keeps_bind:
  assumes "keeps base m (\<lambda>_ _. True)" "\<And>x. keeps base (f x) Q"
  shows "keeps base (bindD m f) Q"
proof (rule keepsI)
  fix st r st'
  assume o: "owns base (d_bundle st) (d_mem st)" and b: "bindD m f st = (r, st')"
  obtain q u where q: "m st = (q, u)" by (cases "m st")
  have ou: "owns base (d_bundle u) (d_mem u)" by (rule keepsD(1) [OF assms(1) q o])
  show "owns base (d_bundle st') (d_mem st') \<and> (\<forall>x. r = Inr x \<longrightarrow> Q x st')"
  proof (cases q)
    case (Inl e)
    then show ?thesis using b q ou by (auto simp: bindD_def)
  next
    case (Inr x)
    then have "f x u = (r, st')" using b q by (simp add: bindD_def)
    from keepsD [OF assms(2) this ou] show ?thesis by blast
  qed
qed

lemma keeps_lift: "keeps base (liftD r) (\<lambda>_ _. True)"
  by (rule keepsI) (auto simp: liftD_def split: sum.splits)

lemmas keeps_lift_bind = keeps_bind [OF keeps_lift]

lemma keeps_rep: "keeps base m (\<lambda>_ _. True) \<Longrightarrow> keeps base (repD n m) (\<lambda>_ _. True)"
proof (induction n)
  case (Suc n)
  then show ?case unfolding repD.simps by (intro keeps_bind) simp_all
qed (simp add: keeps_def retD_def)

lemma keeps_locked: "keeps base readU32Locked (\<lambda>s st. backed (d_mem st) (b_locked (d_bundle st)) s)"
  unfolding keeps_def
proof (intro allI impI)
  fix st :: dstate
  assume o: "owns base (d_bundle st) (d_mem st)"
  then have ok: "mem_ok (d_mem st)" by (simp add: owns_def)
  show "case readU32Locked st of (r, st') \<Rightarrow> owns base (d_bundle st') (d_mem st')
    \<and> (\<forall>x. r = Inr x \<longrightarrow> backed (d_mem st') (b_locked (d_bundle st')) x)"
  proof (cases "readU32 (d_in st)")
    case (Inl e)
    then show ?thesis using o by (simp add: readU32Locked_eq)
  next
    case (Inr nr)
    obtain n rest where nr: "nr = (n, rest)" by (cases nr)
    have "unat n \<le> length rest \<Longrightarrow> min (length rest) (unat n) = unat n" by simp
    then show ?thesis
      using o owns_new [OF o, of "unat n"] owns_skip [OF o] owns_failed_read [OF ok, of "unat n"]
      by (auto simp: readU32Locked_eq Inr nr backed_def empty_secret_def new_buffer_def)
  qed
qed

lemma keeps_locked_upd:
  assumes "\<And>s b. b_locked (f s b) = b_locked b"
    and "\<And>s b. b_files (f s b) = b_files b \<or> (\<exists>w. b_files (f s b) = b_files b @ [w] \<and> wf_data w = s)"
    and "\<And>s b. b_env (f s b) = b_env b \<or> (\<exists>w. b_env (f s b) = b_env b @ [w] \<and> ev_value w = s)"
  shows "keeps base (bindD readU32Locked (\<lambda>s. updD (f s))) (\<lambda>_ _. True)"
  unfolding keeps_def
proof (intro allI impI)
  fix st :: dstate
  assume o: "owns base (d_bundle st) (d_mem st)"
  obtain r st' where rs: "readU32Locked st = (r, st')" by (cases "readU32Locked st")
  from keeps_locked [of base] o rs have o': "owns base (d_bundle st') (d_mem st')"
    and b: "\<And>s. r = Inr s \<Longrightarrow> backed (d_mem st') (b_locked (d_bundle st')) s"
    by (fastforce simp: keeps_def)+
  have "owns base (f s (d_bundle st')) (d_mem st')" if "r = Inr s" for s
    using o' b [OF that] assms(2) [of s "d_bundle st'"] assms(3) [of s "d_bundle st'"]
    unfolding owns_def assms(1) by auto
  with o' show "case bindD readU32Locked (\<lambda>s. updD (f s)) st of (r, st') \<Rightarrow>
      owns base (d_bundle st') (d_mem st') \<and> (\<forall>x. r = Inr x \<longrightarrow> True)"
    by (simp add: bindD_def rs updD_def split: sum.split)
qed

lemma keeps_upd:
  assumes "\<And>b. b_locked (f b) = b_locked b" "\<And>b. b_files (f b) = b_files b" "\<And>b. b_env (f b) = b_env b"
  shows "keeps base (updD f) (\<lambda>_ _. True)"
  by (simp add: keeps_def updD_def owns_def assms)

lemma keeps_body: "keeps base decode_body (\<lambda>_ _. True)"
  unfolding decode_body_def decode_file_def decode_env_def decode_pointer_def
  by (intro keeps_lift_bind keeps_bind keeps_rep keeps_locked_upd keeps_upd) auto

lemma decodeBundle_memory:
  assumes "mem_ok lm" "decodeBundle inp lm = (r, lm')"
  shows "case r of Inl e \<Rightarrow> lm_live lm' = lm_live lm | Inr b \<Rightarrow> owns (lm_live lm) b lm'"
proof -
  obtain q st where d: "decode_body \<lparr>d_in = inp, d_bundle = empty_bundle, d_mem = lm\<rparr> = (q, st)"
    by (cases "decode_body \<lparr>d_in = inp, d_bundle = empty_bundle, d_mem = lm\<rparr>")
  have "owns (lm_live lm) (d_bundle st) (d_mem st)"
    using keeps_body [of "lm_live lm"] d owns_empty [OF assms(1)]
    by (auto simp: keeps_def dest: spec [of _ "\<lparr>d_in = inp, d_bundle = empty_bundle, d_mem = lm\<rparr>"])
  with assms(2) show ?thesis
    by (cases q) (auto simp: decodeBundle_def d owns_Destroy)
qed

end
