(* ===== verification/Delivery_Types.thy ===== *)
theory Delivery_Types
  imports Go_Base
begin

text \<open>
  The delivery vocabulary (\<open>internal/delivery/delivery.go\<close>) and the source formats
  (\<open>internal/backend/backend.go\<close>): mechanisms, the env-exposure gate, the execution
  targets and the delivery plan. A mechanism, a format and a render kind are Go string
  types, so any string can flow in and \<open>Valid\<close> is what tells a good one.
\<close>

section \<open>Mechanisms and formats\<close>

type_synonym mechanism = string
type_synonym source_format = string
type_synonym render_kind = string

definition MechClient :: mechanism where "MechClient = ''client''"
definition MechHook :: mechanism where "MechHook = ''hook''"
definition MechVolume :: mechanism where "MechVolume = ''volume''"

definition mech_valid :: "mechanism \<Rightarrow> bool" where
  "mech_valid m \<longleftrightarrow> m = MechClient \<or> m = MechHook \<or> m = MechVolume"

definition EnvAllowed :: "mechanism \<Rightarrow> bool" where
  "EnvAllowed m \<longleftrightarrow> m = MechClient"

definition FormatDotenv :: source_format where "FormatDotenv = ''dotenv''"
definition FormatBinary :: source_format where "FormatBinary = ''binary''"

definition format_valid :: "source_format \<Rightarrow> bool" where
  "format_valid f \<longleftrightarrow> f = FormatDotenv \<or> f = FormatBinary"

definition RenderDotenv :: render_kind where "RenderDotenv = ''dotenv''"
definition RenderEnvdir :: render_kind where "RenderEnvdir = ''envdir''"

lemmas mech_defs = MechClient_def MechHook_def MechVolume_def
lemmas format_defs = FormatDotenv_def FormatBinary_def
lemmas render_defs = RenderDotenv_def RenderEnvdir_def

lemma mech_distinct [simp]:
  "MechClient \<noteq> MechHook" "MechClient \<noteq> MechVolume" "MechHook \<noteq> MechVolume"
  "MechHook \<noteq> MechClient" "MechVolume \<noteq> MechClient" "MechVolume \<noteq> MechHook"
  by (simp_all add: mech_defs)

lemma mech_not_Nil [simp]: "MechClient \<noteq> []" "MechHook \<noteq> []" "MechVolume \<noteq> []"
  by (simp_all add: mech_defs)

lemma mech_valid_consts [simp]:
  "mech_valid MechClient" "mech_valid MechHook" "mech_valid MechVolume" "\<not> mech_valid []"
  by (simp_all add: mech_valid_def mech_defs)

lemma format_distinct [simp]: "FormatDotenv \<noteq> FormatBinary" "FormatBinary \<noteq> FormatDotenv"
  by (simp_all add: format_defs)

lemma format_valid_consts [simp]: "format_valid FormatDotenv" "format_valid FormatBinary"
  by (simp_all add: format_valid_def)

lemma render_distinct [simp]: "RenderDotenv \<noteq> RenderEnvdir" "RenderEnvdir \<noteq> RenderDotenv"
  by (simp_all add: render_defs)

section \<open>Targets and plans\<close>

record file_target =
  ft_name :: string
  ft_source :: string
  ft_format :: source_format
  ft_whole :: bool
  ft_key :: string
  ft_path :: string
  ft_owner :: string
  ft_mode :: string
  ft_pointer_var :: string

record env_target =
  et_var :: string
  et_source :: string
  et_key :: string
  et_all :: bool

record render_target =
  rt_kind :: render_kind
  rt_source :: string
  rt_path :: string
  rt_owner :: string
  rt_mode :: string

record dplan =
  dp_container :: string
  dp_service :: string
  dp_mechanism :: mechanism
  dp_files :: "file_target list"
  dp_env :: "env_target list"
  dp_renders :: "render_target list"
  dp_env_exposure :: bool

section \<open>The delivery interface\<close>

text \<open>
  \<open>type Delivery interface\<close>: what the control plane may call on a mechanism, and the two
  promises its comments make: \<open>SupportsEnv\<close> mirrors \<open>EnvAllowed(Mechanism())\<close>, and
  \<open>Deliver\<close> rejects a plan with env when env is not supported, before it touches the
  world \<open>w\<close>.
\<close>

datatype 'e delivery_error =
  ErrNotImplemented
| ErrEnvUnsupported
| DeliveryFailure 'e

locale delivery_mechanism =
  fixes mech :: mechanism
    and supports_env :: bool
    and deliver :: "dplan \<Rightarrow> 'w \<Rightarrow> 'e delivery_error option \<times> 'w"
  assumes mech_ok: "mech_valid mech"
    and env_mirror: "supports_env \<longleftrightarrow> EnvAllowed mech"
    and env_refused: "\<not> supports_env \<Longrightarrow> dp_env p \<noteq> [] \<Longrightarrow> deliver p w = (Some ErrEnvUnsupported, w)"
begin


lemma file_only_mechanism: "mech \<noteq> MechClient \<Longrightarrow> \<not> supports_env"
  using env_mirror by (simp add: EnvAllowed_def)

lemma env_delivered_only_by_client:
  "dp_env p \<noteq> [] \<Longrightarrow> fst (deliver p w) = None \<Longrightarrow> mech = MechClient"
  using env_refused file_only_mechanism by fastforce

lemma env_refusal_keeps_world:
  "mech \<noteq> MechClient \<Longrightarrow> dp_env p \<noteq> [] \<Longrightarrow> snd (deliver p w) = w"
  using env_refused file_only_mechanism by fastforce

end

section \<open>The client and hook mechanisms\<close>

text \<open>
  \<open>delivery/client.go\<close> and \<open>delivery/hook.go\<close>: their \<open>Deliver\<close> is a stub, the work is
  done by the socket server. The world is untouched.
\<close>

definition client_deliver :: "dplan \<Rightarrow> 'w \<Rightarrow> 'e delivery_error option \<times> 'w" where
  "client_deliver p w = (Some ErrNotImplemented, w)"

definition client_supports_env :: bool where "client_supports_env = True"

definition hook_deliver :: "dplan \<Rightarrow> 'w \<Rightarrow> 'e delivery_error option \<times> 'w" where
  "hook_deliver p w =
     (if dp_env p \<noteq> [] then (Some ErrEnvUnsupported, w) else (Some ErrNotImplemented, w))"

definition hook_supports_env :: bool where "hook_supports_env = False"

interpretation client_mech: delivery_mechanism MechClient client_supports_env client_deliver
  by unfold_locales (auto simp: client_supports_env_def EnvAllowed_def)

interpretation hook_mech: delivery_mechanism MechHook hook_supports_env hook_deliver
  by unfold_locales (auto simp: hook_supports_env_def EnvAllowed_def hook_deliver_def)

end
