(* ===== verification/Backend_Sops.thy ===== *)
theory Backend_Sops
  imports Backend_Dotenv Wire_Codec Delivery_Types
begin

text \<open>
  \<open>internal/backend/backend.go\<close>, \<open>sopsage.go\<close> and \<open>exec.go\<close>: the crypto seam and its sops driver. The
  sops program is a parameter: what one run prints and how it ends, as a function of the argument
  vector and the environment it is given. The files it reads do not change while a plan is delivered.
\<close>

section \<open>Errors\<close>

datatype backend_cause =
    ErrWrongFormat
  | ErrNoSuchKey string
  | ErrSourceMissing string
  | ErrUnknownAgeKey string
  | ErrDecrypt "int option" string
  | ErrMalformed

text \<open>\<open>wrapSource\<close>: the cause with the name of the source.\<close>

record backend_error =
  be_cause :: backend_cause
  be_source :: string

definition wrapSource :: "backend_cause \<Rightarrow> string \<Rightarrow> backend_error" where
  "wrapSource c n = \<lparr>be_cause = c, be_source = n\<rparr>"

section \<open>Running sops\<close>

datatype run_error = ExitError int | OtherError string

record sops_result =
  so_start_err :: "run_error option"
  so_out :: string
  so_stderr :: "string list"
  so_copy_err :: "string option"
  so_wait_err :: "run_error option"
  so_flush_err :: "string option"

record sops_env =
  io_run :: "string list \<Rightarrow> string list \<Rightarrow> sops_result"
  io_exists :: "string \<Rightarrow> bool"
  io_path :: string
  io_chunk :: nat

definition stderrHead :: nat where "stderrHead = 512"

definition sopsBinary :: string where "sopsBinary = ''sops''"

definition minimalEnv :: "sops_env \<Rightarrow> string \<Rightarrow> string list" where
  "minimalEnv io ageKeyPath =
     [''PATH='' @ (if io_path io = [] then ''/usr/local/sbin:/usr/local/bin:/usr/sbin:/usr/bin:/sbin:/bin''
                   else io_path io),
      ''SOPS_AGE_KEY_FILE='' @ ageKeyPath]"

definition decryptArgs :: "source_format \<Rightarrow> string \<Rightarrow> string list" where
  "decryptArgs format cipherPath = [''-d'', ''--input-type'', format, ''--output-type'', format, cipherPath]"

definition newSopsCmd :: "sops_env \<Rightarrow> source_format \<Rightarrow> string \<Rightarrow> string \<Rightarrow> sops_result" where
  "newSopsCmd io format cipherPath ageKeyPath =
     io_run io (sopsBinary # decryptArgs format cipherPath) (minimalEnv io ageKeyPath)"

text \<open>\<open>boundedWriter.Write\<close> keeps at most \<open>max\<close> bytes and reports all of them written.\<close>

definition bounded_write :: "nat \<Rightarrow> string \<Rightarrow> string \<Rightarrow> string" where
  "bounded_write mx p buf =
     (if length buf < mx then (if length p \<le> mx - length buf then buf @ p else buf @ take (mx - length buf) p)
      else buf)"

definition stderr_head :: "sops_result \<Rightarrow> string" where
  "stderr_head r = fold (bounded_write stderrHead) (so_stderr r) []"

definition classifyExec :: "run_error \<Rightarrow> string \<Rightarrow> backend_cause" where
  "classifyExec err stderr =
     (case err of
        ExitError code \<Rightarrow>
          (let h = trim_space stderr; h = (if length h > stderrHead then take stderrHead h else h) in
           ErrDecrypt (Some code) h)
      | OtherError m \<Rightarrow> ErrDecrypt None m)"

text \<open>
  \<open>captureDecrypt\<close>: the locked transit page is made and destroyed, the stream is flushed into one
  locked buffer of the size of the plaintext, and \<^term>\<open>Inr None\<close> is the empty plaintext.
\<close>

definition drainStream :: "sops_result \<Rightarrow> lockmem \<Rightarrow> lockmem" where
  "drainStream r lm =
     (if so_flush_err r = None
      then let (h, lm') = new_buffer (length (so_out r)) lm in destroy_buffer h lm' else lm)"

definition captureDecrypt ::
  "sops_env \<Rightarrow> sops_result \<Rightarrow> lockmem \<Rightarrow> (backend_cause + (string \<times> handle) option) \<times> lockmem" where
  "captureDecrypt io r lm =
     (case so_start_err r of
        Some e \<Rightarrow> (Inl (classifyExec e (stderr_head r)), lm)
      | None \<Rightarrow>
          let (t, lm1) = new_buffer (io_chunk io) lm; lm2 = destroy_buffer t lm1 in
          (case so_wait_err r of
             Some e \<Rightarrow> (Inl (classifyExec e (stderr_head r)), drainStream r lm2)
           | None \<Rightarrow>
               (case so_copy_err r of
                  Some m \<Rightarrow> (Inl (ErrDecrypt None m), drainStream r lm2)
                | None \<Rightarrow>
                    (case so_flush_err r of
                       Some m \<Rightarrow> (Inl (ErrDecrypt None m), lm2)
                     | None \<Rightarrow>
                         let (h, lm3) = new_buffer (length (so_out r)) lm2 in
                         if so_out r = [] then (Inr None, destroy_buffer h lm3)
                         else (Inr (Some (so_out r, h)), lm3)))))"

text \<open>\<open>streamDecrypt\<close>: the bytes that went to the destination, and the error.\<close>

definition streamDecrypt :: "sops_result \<Rightarrow> string \<times> backend_cause option" where
  "streamDecrypt r =
     (case so_start_err r of
        Some e \<Rightarrow> ([], Some (classifyExec e (stderr_head r)))
      | None \<Rightarrow> (so_out r, map_option (\<lambda>e. classifyExec e (stderr_head r)) (so_wait_err r)))"

section \<open>The driver\<close>

record sealed =
  sd_name :: string
  sd_path :: string
  sd_format :: source_format
  sd_key_ref :: string

record opened =
  op_name :: string
  op_format :: source_format
  op_cipher :: string
  op_key_path :: string
  op_retained :: "handle list"

definition defaultAgeKey :: string where "defaultAgeKey = ''default''"

definition sops_Open :: "sops_env \<Rightarrow> (string \<rightharpoonup> string) \<Rightarrow> sealed \<Rightarrow> backend_error + opened" where
  "sops_Open io keyPaths src =
     (if \<not> format_valid (sd_format src) then Inl (wrapSource ErrWrongFormat (sd_name src))
      else let keyName = (if sd_key_ref src = [] then defaultAgeKey else sd_key_ref src) in
        case keyPaths keyName of
          None \<Rightarrow> Inl (wrapSource (ErrUnknownAgeKey keyName) (sd_name src))
        | Some keyPath \<Rightarrow>
            if \<not> io_exists io keyPath then Inl (wrapSource (ErrUnknownAgeKey keyName) (sd_name src))
            else if \<not> io_exists io (sd_path src) then Inl (wrapSource (ErrSourceMissing (sd_path src)) (sd_name src))
            else Inr \<lparr>op_name = sd_name src, op_format = sd_format src, op_cipher = sd_path src,
                   op_key_path = keyPath, op_retained = []\<rparr>)"

definition op_run :: "sops_env \<Rightarrow> opened \<Rightarrow> sops_result" where
  "op_run io op = newSopsCmd io (op_format op) (op_cipher op) (op_key_path op)"

definition sops_Keys :: "sops_env \<Rightarrow> opened \<Rightarrow> lockmem \<Rightarrow> (backend_error + string list) \<times> lockmem" where
  "sops_Keys io op lm =
     (if op_format op \<noteq> FormatDotenv then (Inl (wrapSource ErrWrongFormat (op_name op)), lm)
      else case captureDecrypt io (op_run io op) lm of
             (Inl c, lm') \<Rightarrow> (Inl (wrapSource c (op_name op)), lm')
           | (Inr None, lm') \<Rightarrow> (Inr [], lm')
           | (Inr (Some (data, h)), lm') \<Rightarrow>
               ((case dotenvKeys data of
                   None \<Rightarrow> Inl (wrapSource ErrMalformed (op_name op)) | Some ks \<Rightarrow> Inr ks),
                destroy_buffer h lm'))"

text \<open>The copy of a value into a buffer of its own, kept for \<open>Close\<close>.\<close>

definition copyLocked :: "string \<Rightarrow> opened \<Rightarrow> lockmem \<Rightarrow> opened \<times> lockmem" where
  "copyLocked src op lm =
     (if src = [] then (op, lm)
      else let (h, lm') = new_buffer (length src) lm in (op\<lparr>op_retained := op_retained op @ [h]\<rparr>, lm'))"

definition sops_Value ::
  "sops_env \<Rightarrow> opened \<Rightarrow> string \<Rightarrow> lockmem \<Rightarrow> (backend_error + string) \<times> opened \<times> lockmem" where
  "sops_Value io op key lm =
     (if op_format op \<noteq> FormatDotenv then (Inl (wrapSource ErrWrongFormat (op_name op)), op, lm)
      else case captureDecrypt io (op_run io op) lm of
             (Inl c, lm') \<Rightarrow> (Inl (wrapSource c (op_name op)), op, lm')
           | (Inr None, lm') \<Rightarrow> (Inl (wrapSource (ErrNoSuchKey key) (op_name op)), op, lm')
           | (Inr (Some (data, h)), lm') \<Rightarrow>
               (case dotenvFind data key of
                  None \<Rightarrow> (Inl (wrapSource ErrMalformed (op_name op)), op, destroy_buffer h lm')
                | Some None \<Rightarrow> (Inl (wrapSource (ErrNoSuchKey key) (op_name op)), op, destroy_buffer h lm')
                | Some (Some v) \<Rightarrow>
                    let (op', lm'') = copyLocked v op lm' in (Inr v, op', destroy_buffer h lm'')))"

text \<open>\<open>WriteValue\<close> and \<open>WritePayload\<close> give the bytes sent to the destination and whether they succeed.\<close>

definition sops_WriteValue ::
  "sops_env \<Rightarrow> opened \<Rightarrow> string \<Rightarrow> lockmem \<Rightarrow> (string \<times> backend_error option) \<times> lockmem" where
  "sops_WriteValue io op key lm =
     (if op_format op \<noteq> FormatDotenv then (([], Some (wrapSource ErrWrongFormat (op_name op))), lm)
      else case captureDecrypt io (op_run io op) lm of
             (Inl c, lm') \<Rightarrow> (([], Some (wrapSource c (op_name op))), lm')
           | (Inr None, lm') \<Rightarrow> (([], Some (wrapSource (ErrNoSuchKey key) (op_name op))), lm')
           | (Inr (Some (data, h)), lm') \<Rightarrow>
               (case dotenvFind data key of
                  None \<Rightarrow> (([], Some (wrapSource ErrMalformed (op_name op))), destroy_buffer h lm')
                | Some None \<Rightarrow> (([], Some (wrapSource (ErrNoSuchKey key) (op_name op))), destroy_buffer h lm')
                | Some (Some v) \<Rightarrow> ((v, None), destroy_buffer h lm')))"

definition sops_Payload ::
  "sops_env \<Rightarrow> opened \<Rightarrow> lockmem \<Rightarrow> (backend_error + string) \<times> opened \<times> lockmem" where
  "sops_Payload io op lm =
     (if op_format op \<noteq> FormatBinary then (Inl (wrapSource ErrWrongFormat (op_name op)), op, lm)
      else case captureDecrypt io (op_run io op) lm of
             (Inl c, lm') \<Rightarrow> (Inl (wrapSource c (op_name op)), op, lm')
           | (Inr None, lm') \<Rightarrow> (Inr [], op, lm')
           | (Inr (Some (data, h)), lm') \<Rightarrow> (Inr data, op\<lparr>op_retained := op_retained op @ [h]\<rparr>, lm'))"

definition sops_WritePayload :: "sops_env \<Rightarrow> opened \<Rightarrow> string \<times> backend_error option" where
  "sops_WritePayload io op =
     (if op_format op \<noteq> FormatBinary then ([], Some (wrapSource ErrWrongFormat (op_name op)))
      else let (out, e) = streamDecrypt (op_run io op) in
        (out, map_option (\<lambda>c. wrapSource c (op_name op)) e))"

definition sops_Close :: "opened \<Rightarrow> lockmem \<Rightarrow> opened \<times> lockmem" where
  "sops_Close op lm = (op\<lparr>op_retained := []\<rparr>, fold destroy_buffer (op_retained op) lm)"

section \<open>What the driver does to locked memory\<close>

text \<open>\<open>lm'\<close> has the buffers of \<open>lm\<close> and, after them, the fresh ones \<open>new\<close>.\<close>

definition grows :: "lockmem \<Rightarrow> lockmem \<Rightarrow> (handle \<times> nat) list \<Rightarrow> bool" where
  "grows lm lm' new \<longleftrightarrow> lm_live lm' = lm_live lm @ new \<and> lm_next lm \<le> lm_next lm'
     \<and> (\<forall>x \<in> set new. lm_next lm \<le> fst x \<and> fst x < lm_next lm') \<and> distinct (map fst new)"

lemma grows_refl [simp]: "grows lm lm []"
  by (simp add: grows_def)

lemma grows_mem_ok: "grows lm lm' new \<Longrightarrow> mem_ok lm \<Longrightarrow> mem_ok lm'"
  by (auto simp: grows_def mem_ok_def)

lemma grows_trans: "grows a b xs \<Longrightarrow> grows b c ys \<Longrightarrow> grows a c (xs @ ys)"
  by (fastforce simp: grows_def)

lemma grows_new: "new_buffer n lm = (h, lm') \<Longrightarrow> grows lm lm' [(h, n)]"
  by (auto simp: grows_def new_buffer_def)

lemma grows_destroy:
  assumes "grows lm lm' new" "mem_ok lm" "lm_next lm \<le> h"
  shows "grows lm (destroy_buffer h lm') (filter (\<lambda>x. fst x \<noteq> h) new)"
proof -
  have "filter (\<lambda>x. fst x \<noteq> h) (lm_live lm) = lm_live lm"
    using assms(2,3) by (auto simp: mem_ok_def intro!: filter_True)
  then show ?thesis using assms(1) by (auto simp: grows_def destroy_buffer_def distinct_map_filter)
qed

lemma grows_new_destroy: "new_buffer n lm = (h, lm') \<Longrightarrow> mem_ok lm \<Longrightarrow> grows lm (destroy_buffer h lm') []"
  using grows_destroy [OF grows_new, of n lm h lm' h] by (auto simp: new_buffer_def)

definition captured :: "sops_result \<Rightarrow> backend_cause + string" where
  "captured r =
     (case so_start_err r of Some e \<Rightarrow> Inl (classifyExec e (stderr_head r)) | None \<Rightarrow>
     (case so_wait_err r of Some e \<Rightarrow> Inl (classifyExec e (stderr_head r)) | None \<Rightarrow>
     (case so_copy_err r of Some m \<Rightarrow> Inl (ErrDecrypt None m) | None \<Rightarrow>
     (case so_flush_err r of Some m \<Rightarrow> Inl (ErrDecrypt None m) | None \<Rightarrow> Inr (so_out r)))))"

lemma drainStream_grows: "mem_ok lm \<Longrightarrow> grows lm (drainStream r lm) []"
  by (auto simp: drainStream_def Let_def intro: grows_new_destroy split: prod.splits)

lemma captureDecrypt_cases:
  assumes "captureDecrypt io r lm = (res, lm')" "mem_ok lm"
  obtains (err) c where "res = Inl c" "captured r = Inl c" "grows lm lm' []"
  | (none) "res = Inr None" "captured r = Inr []" "grows lm lm' []"
  | (got) d h where "res = Inr (Some (d, h))" "captured r = Inr d" "d \<noteq> []" "grows lm lm' [(h, length d)]"
proof -
  obtain t lm1 where t: "new_buffer (io_chunk io) lm = (t, lm1)" by (metis prod.exhaust)
  let ?lm2 = "destroy_buffer t lm1"
  have g2: "grows lm ?lm2 []" using t assms(2) by (rule grows_new_destroy)
  then have ok2: "mem_ok ?lm2" using assms(2) grows_mem_ok by blast
  have gd: "grows lm (drainStream r ?lm2) []"
    using grows_trans [OF g2 drainStream_grows [OF ok2]] by simp
  obtain h lm3 where h: "new_buffer (length (so_out r)) ?lm2 = (h, lm3)" by (metis prod.exhaust)
  have g3: "grows lm lm3 [(h, length (so_out r))]" using grows_trans [OF g2 grows_new [OF h]] by simp
  have g4: "grows lm (destroy_buffer h lm3) []" using grows_trans [OF g2 grows_new_destroy [OF h ok2]] by simp
  have run: "captureDecrypt io r lm =
     (case so_start_err r of Some e \<Rightarrow> (Inl (classifyExec e (stderr_head r)), lm) | None \<Rightarrow>
     (case so_wait_err r of Some e \<Rightarrow> (Inl (classifyExec e (stderr_head r)), drainStream r ?lm2) | None \<Rightarrow>
     (case so_copy_err r of Some m \<Rightarrow> (Inl (ErrDecrypt None m), drainStream r ?lm2) | None \<Rightarrow>
     (case so_flush_err r of Some m \<Rightarrow> (Inl (ErrDecrypt None m), ?lm2) | None \<Rightarrow>
        if so_out r = [] then (Inr None, destroy_buffer h lm3) else (Inr (Some (so_out r, h)), lm3)))))"
    by (simp only: captureDecrypt_def t h Let_def prod.case)
  show thesis
  proof (cases "captured r")
    case (Inl c)
    with assms(1) have "res = Inl c \<and> grows lm lm' []" unfolding run
      using gd g2 by (auto simp: captured_def split: option.splits)
    with Inl show thesis using err by blast
  next
    case (Inr d)
    then have "so_start_err r = None" "so_wait_err r = None" "so_copy_err r = None" "so_flush_err r = None" "so_out r = d"
      by (auto simp: captured_def split: option.splits)
    with assms(1) Inr g3 g4 have "(d = [] \<and> res = Inr None \<and> grows lm lm' [])
      \<or> (d \<noteq> [] \<and> res = Inr (Some (d, h)) \<and> grows lm lm' [(h, length d)])" unfolding run
      by (cases "d = []") auto
    then show thesis
    proof (elim disjE conjE)
      assume "d = []" "res = Inr None" "grows lm lm' []"
      then show thesis using Inr by (intro none) simp_all
    next
      assume "d \<noteq> []" "res = Inr (Some (d, h))" "grows lm lm' [(h, length d)]"
      then show thesis using Inr by (intro got) simp_all
    qed
  qed
qed

section \<open>What the driver answers\<close>

definition plaintext :: "sops_env \<Rightarrow> opened \<Rightarrow> backend_error + string" where
  "plaintext io op = (case captured (op_run io op) of Inl c \<Rightarrow> Inl (wrapSource c (op_name op)) | Inr d \<Rightarrow> Inr d)"

definition op_keys_of :: "sops_env \<Rightarrow> opened \<Rightarrow> backend_error + string list" where
  "op_keys_of io op =
     (if op_format op \<noteq> FormatDotenv then Inl (wrapSource ErrWrongFormat (op_name op))
      else tryR (plaintext io op) (\<lambda>d. if d = [] then Inr []
        else case dotenvKeys d of None \<Rightarrow> Inl (wrapSource ErrMalformed (op_name op)) | Some ks \<Rightarrow> Inr ks))"

definition op_value_of :: "sops_env \<Rightarrow> opened \<Rightarrow> string \<Rightarrow> backend_error + string" where
  "op_value_of io op k =
     (if op_format op \<noteq> FormatDotenv then Inl (wrapSource ErrWrongFormat (op_name op))
      else tryR (plaintext io op) (\<lambda>d. if d = [] then Inl (wrapSource (ErrNoSuchKey k) (op_name op))
        else case dotenvFind d k of
          None \<Rightarrow> Inl (wrapSource ErrMalformed (op_name op))
        | Some None \<Rightarrow> Inl (wrapSource (ErrNoSuchKey k) (op_name op))
        | Some (Some v) \<Rightarrow> Inr v))"

definition op_payload_of :: "sops_env \<Rightarrow> opened \<Rightarrow> backend_error + string" where
  "op_payload_of io op =
     (if op_format op \<noteq> FormatBinary then Inl (wrapSource ErrWrongFormat (op_name op)) else plaintext io op)"

lemma sops_Keys_spec:
  assumes "sops_Keys io op lm = (r, lm')" "mem_ok lm"
  shows "r = op_keys_of io op \<and> grows lm lm' []"
proof (cases "op_format op = FormatDotenv")
  case True
  obtain res lm1 where c: "captureDecrypt io (op_run io op) lm = (res, lm1)" by (metis prod.exhaust)
  from c assms(2) show ?thesis
  proof (cases rule: captureDecrypt_cases)
    case (got d h)
    have "grows lm (destroy_buffer h lm1) []"
      using grows_destroy [OF got(4) assms(2), of h] got(4) by (simp add: grows_def)
    then show ?thesis using assms(1) c got True
      by (auto simp: sops_Keys_def op_keys_of_def plaintext_def split: option.splits)
  qed (use assms(1) c True in \<open>auto simp: sops_Keys_def op_keys_of_def plaintext_def\<close>)
qed (use assms in \<open>auto simp: sops_Keys_def op_keys_of_def\<close>)

lemma copyLocked_spec:
  assumes "copyLocked v op lm = (op', lm')"
  shows "\<exists>new. grows lm lm' new \<and> op' = op\<lparr>op_retained := op_retained op @ map fst new\<rparr>"
  using assms grows_new [of "length v" lm]
  by (auto simp: copyLocked_def Let_def intro: exI [of _ "[]"] split: if_splits prod.splits)

lemma sops_Value_spec:
  assumes "sops_Value io op k lm = (r, op', lm')" "mem_ok lm"
  shows "r = op_value_of io op k \<and> (\<exists>new. grows lm lm' new \<and> op' = op\<lparr>op_retained := op_retained op @ map fst new\<rparr>)"
proof (cases "op_format op = FormatDotenv")
  case True
  obtain res lm1 where c: "captureDecrypt io (op_run io op) lm = (res, lm1)" by (metis prod.exhaust)
  from c assms(2) show ?thesis
  proof (cases rule: captureDecrypt_cases)
    case (got d h)
    have h: "lm_next lm \<le> h" "h < lm_next lm1" using got(4) by (auto simp: grows_def)
    have d1: "grows lm (destroy_buffer h lm1) []"
      using grows_destroy [OF got(4) assms(2) h(1)] by simp
    show ?thesis
    proof (cases "\<exists>v. dotenvFind d k = Some (Some v)")
      case tv: True
      then obtain v where v: "dotenvFind d k = Some (Some v)" ..
      obtain op2 lm2 where cp: "copyLocked v op lm1 = (op2, lm2)" by (metis prod.exhaust)
      from copyLocked_spec [OF cp] obtain new where
        new: "grows lm1 lm2 new" "op2 = op\<lparr>op_retained := op_retained op @ map fst new\<rparr>" by blast
      have "filter (\<lambda>x. fst x \<noteq> h) new = new" using new(1) h(2) by (auto simp: grows_def intro!: filter_True)
      then have "grows lm (destroy_buffer h lm2) new"
        using grows_destroy [OF grows_trans [OF got(4) new(1)] assms(2) h(1)] by simp
      then show ?thesis using assms(1) c got True v cp new(2)
        by (auto simp: sops_Value_def op_value_of_def plaintext_def)
    next
      case False
      then have "r = op_value_of io op k \<and> op' = op \<and> lm' = destroy_buffer h lm1" using assms(1) c got True
        by (auto simp: sops_Value_def op_value_of_def plaintext_def split: option.splits)
      then show ?thesis using d1 by (auto intro!: exI [of _ "[]"])
    qed
  qed (use assms(1) c True in \<open>auto simp: sops_Value_def op_value_of_def plaintext_def intro!: exI [of _ "[]"]\<close>)
qed (use assms in \<open>auto simp: sops_Value_def op_value_of_def intro!: exI [of _ "[]"]\<close>)

lemma sops_Payload_spec:
  assumes "sops_Payload io op lm = (r, op', lm')" "mem_ok lm"
  shows "r = op_payload_of io op \<and> (\<exists>new. grows lm lm' new \<and> op' = op\<lparr>op_retained := op_retained op @ map fst new\<rparr>)"
proof (cases "op_format op = FormatBinary")
  case True
  obtain res lm1 where c: "captureDecrypt io (op_run io op) lm = (res, lm1)" by (metis prod.exhaust)
  from c assms(2) show ?thesis
  proof (cases rule: captureDecrypt_cases)
    case (got d h)
    then show ?thesis using assms(1) c True
      by (auto simp: sops_Payload_def op_payload_of_def plaintext_def intro!: exI [of _ "[(h, length d)]"])
  qed (use assms(1) c True in \<open>auto simp: sops_Payload_def op_payload_of_def plaintext_def intro!: exI [of _ "[]"]\<close>)
qed (use assms in \<open>auto simp: sops_Payload_def op_payload_of_def intro!: exI [of _ "[]"]\<close>)

lemma sops_WriteValue_spec:
  assumes "sops_WriteValue io op k lm = (r, lm')" "mem_ok lm"
  shows "r = (case op_value_of io op k of Inl e \<Rightarrow> ([], Some e) | Inr v \<Rightarrow> (v, None)) \<and> grows lm lm' []"
proof (cases "op_format op = FormatDotenv")
  case True
  obtain res lm1 where c: "captureDecrypt io (op_run io op) lm = (res, lm1)" by (metis prod.exhaust)
  from c assms(2) show ?thesis
  proof (cases rule: captureDecrypt_cases)
    case (got d h)
    have "grows lm (destroy_buffer h lm1) []"
      using grows_destroy [OF got(4) assms(2), of h] got(4) by (simp add: grows_def)
    then show ?thesis using assms(1) c got True
      by (auto simp: sops_WriteValue_def op_value_of_def plaintext_def split: option.splits)
  qed (use assms(1) c True in \<open>auto simp: sops_WriteValue_def op_value_of_def plaintext_def\<close>)
qed (use assms in \<open>auto simp: sops_WriteValue_def op_value_of_def\<close>)

lemma keys_of_value_of:
  "op_keys_of io op = Inr ks \<Longrightarrow> k \<in> set ks \<Longrightarrow> \<exists>v. op_value_of io op k = Inr v"
  by (auto simp: op_keys_of_def op_value_of_def result_simps split: if_splits option.splits
      dest: keys_find_value) (use keys_find_value in fastforce)+

lemma write_payload_of:
  "sops_WritePayload io op = (p, None) \<Longrightarrow> op_payload_of io op = Inr q \<Longrightarrow> p = q"
  by (auto simp: sops_WritePayload_def op_payload_of_def plaintext_def captured_def streamDecrypt_def
      split: if_splits option.splits prod.splits sum.splits)

lemma observers_retained [simp]:
  "op_keys_of io (op\<lparr>op_retained := x\<rparr>) = op_keys_of io op"
  "op_value_of io (op\<lparr>op_retained := x\<rparr>) = op_value_of io op"
  "op_payload_of io (op\<lparr>op_retained := x\<rparr>) = op_payload_of io op"
proof -
  have sel: "op_name (op\<lparr>op_retained := x\<rparr>) = op_name op" "op_format (op\<lparr>op_retained := x\<rparr>) = op_format op"
    "op_cipher (op\<lparr>op_retained := x\<rparr>) = op_cipher op" "op_key_path (op\<lparr>op_retained := x\<rparr>) = op_key_path op"
    by simp_all
  have p: "plaintext io (op\<lparr>op_retained := x\<rparr>) = plaintext io op"
    by (simp only: plaintext_def op_run_def sel)
  show "op_keys_of io (op\<lparr>op_retained := x\<rparr>) = op_keys_of io op"
    "op_value_of io (op\<lparr>op_retained := x\<rparr>) = op_value_of io op"
    "op_payload_of io (op\<lparr>op_retained := x\<rparr>) = op_payload_of io op"
    by (simp_all only: op_keys_of_def op_value_of_def [abs_def] op_payload_of_def p sel)
qed

end
