(* ===== verification/Config_Model.thy ===== *)
theory Config_Model
  imports Delivery_Types
begin

text \<open>
  \<open>internal/config/config.go\<close>: the berm.yml schema and the \<open>BERM_*\<close> globals. The yaml body is
  read by a library and is a value here. The two Go maps of the schema are only looked up, never
  walked, so they are partial functions. A \<open>time.Duration\<close> is its count of nanoseconds.
\<close>

record source =
  src_file :: string
  src_format :: string
  src_age_key :: string
  src_owner :: string
  src_access :: "string list"

record defaults =
  def_delivery :: string
  def_mode :: string

record globals =
  g_sources_root :: string
  g_default_delivery :: string
  g_client_timeout :: int
  g_stale_digest :: bool
  g_digest_schedule :: string
  g_runtime :: string
  g_socket :: string

record config =
  c_age_keys :: "string \<rightharpoonup> string"
  c_sources :: "string \<rightharpoonup> source"
  c_defaults :: defaults
  c_globals :: globals

definition nano_second :: int where "nano_second = 1000000000"

definition DefaultClientTimeout :: int where "DefaultClientTimeout = 30 * nano_second"

definition DefaultDigestSchedule :: string where "DefaultDigestSchedule = ''daily''"

text \<open>\<open>strconv.ParseBool\<close>; the result is \<^const>\<open>None\<close> where Go returns an error.\<close>

definition parse_bool :: "string \<Rightarrow> bool option" where
  "parse_bool s =
     (if s \<in> set [''1'', ''t'', ''T'', ''TRUE'', ''true'', ''True''] then Some True
      else if s \<in> set [''0'', ''f'', ''F'', ''FALSE'', ''false'', ''False''] then Some False
      else None)"

text \<open>
  The environment is a function from names to values, \<open>""\<close> for an unset name, as
  \<open>os.Getenv\<close> gives it. \<open>time.ParseDuration\<close> computes with floating point fractions, so it is
  a parameter of the definitions that use it, \<^const>\<open>None\<close> for its error.
\<close>

definition boolEnv :: "(string \<Rightarrow> string) \<Rightarrow> string \<Rightarrow> bool" where
  "boolEnv getenv name =
     (let v = getenv name in
      if v = [] then False
      else case parse_bool v of None \<Rightarrow> False | Some b \<Rightarrow> b)"

definition loadGlobals :: "(string \<Rightarrow> int option) \<Rightarrow> (string \<Rightarrow> string) \<Rightarrow> globals" where
  "loadGlobals parse_duration getenv =
     \<lparr>g_sources_root = getenv ''BERM_SOURCES_ROOT'',
      g_default_delivery = getenv ''BERM_DEFAULT_DELIVERY'',
      g_client_timeout =
        (let v = getenv ''BERM_CLIENT_TIMEOUT'' in
         if v \<noteq> [] then case parse_duration v of Some d \<Rightarrow> d | None \<Rightarrow> DefaultClientTimeout
         else DefaultClientTimeout),
      g_stale_digest = boolEnv getenv ''BERM_STALE_DIGEST'',
      g_digest_schedule =
        (let v = getenv ''BERM_DIGEST_SCHEDULE'' in if v \<noteq> [] then v else DefaultDigestSchedule),
      g_runtime = getenv ''BERM_RUNTIME'',
      g_socket = getenv ''BERM_SOCKET''\<rparr>"

definition empty_globals :: globals where
  "empty_globals = \<lparr>g_sources_root = [], g_default_delivery = [], g_client_timeout = 0,
     g_stale_digest = False, g_digest_schedule = [], g_runtime = [], g_socket = []\<rparr>"

end
