(* ===== verification/Go_Path.thy ===== *)
theory Go_Path
  imports Go_Base
begin

text \<open>
  The part of Go's \<open>path/filepath\<close> the program uses, on Unix: \<open>Clean\<close>, \<open>Join\<close>, \<open>Dir\<close>,
  \<open>Base\<close>, \<open>IsAbs\<close> and \<open>Rel\<close>. All are lexical: they never look at the file system. A path is
  taken apart at its slashes and put together again.
\<close>

definition is_abs :: "string \<Rightarrow> bool" where
  "is_abs p \<longleftrightarrow> has_prefix p ''/''"

fun join_slash :: "string list \<Rightarrow> string" where
  "join_slash [] = []"
| "join_slash [x] = x"
| "join_slash (x # y # ys) = x @ ''/'' @ join_slash (y # ys)"

text \<open>
  The elements of a path: empty ones and \<open>.\<close> vanish, \<open>..\<close> removes the element before it, is
  dropped at the root and kept at the start of a relative path. The accumulator is reversed.
\<close>

fun clean_elems :: "bool \<Rightarrow> string list \<Rightarrow> string list \<Rightarrow> string list" where
  "clean_elems rooted acc [] = rev acc"
| "clean_elems rooted acc (e # es) =
     (if e = [] \<or> e = ''.'' then clean_elems rooted acc es
      else if e = ''..'' then
        (case acc of
           [] \<Rightarrow> if rooted then clean_elems rooted [] es else clean_elems rooted [''..''] es
         | a # acc' \<Rightarrow> if a = ''..'' then clean_elems rooted (''..'' # acc) es
                       else clean_elems rooted acc' es)
      else clean_elems rooted (e # acc) es)"

definition path_elems :: "string \<Rightarrow> string list" where
  "path_elems p = clean_elems (is_abs p) [] (split_byte CHR ''/'' p)"

definition path_of :: "bool \<Rightarrow> string list \<Rightarrow> string" where
  "path_of rooted es =
     (if rooted then ''/'' @ join_slash es else if es = [] then ''.'' else join_slash es)"

definition path_clean :: "string \<Rightarrow> string" where
  "path_clean p = path_of (is_abs p) (path_elems p)"

text \<open>\<open>filepath.Join\<close>: empty elements are ignored, the rest joined with a slash and cleaned.\<close>

definition path_join :: "string \<Rightarrow> string \<Rightarrow> string" where
  "path_join a b =
     (if a = [] \<and> b = [] then []
      else if a = [] then path_clean b
      else if b = [] then path_clean a
      else path_clean (a @ ''/'' @ b))"

text \<open>\<open>filepath.Dir\<close>: what stands before the last slash, cleaned.\<close>

definition path_dir :: "string \<Rightarrow> string" where
  "path_dir p =
     (case last_index_byte p CHR ''/'' of
        None \<Rightarrow> path_clean []
      | Some i \<Rightarrow> path_clean (take (Suc i) p))"

text \<open>\<open>filepath.Base\<close>: the last element, trailing slashes removed first.\<close>

definition path_base :: "string \<Rightarrow> string" where
  "path_base p =
     (if p = [] then ''.''
      else let q = rev (dropWhile (\<lambda>c. c = CHR ''/'') (rev p)) in
        if q = [] then ''/''
        else rev (takeWhile (\<lambda>c. c \<noteq> CHR ''/'') (rev q)))"

fun drop_common :: "string list \<Rightarrow> string list \<Rightarrow> string list \<times> string list" where
  "drop_common (b # bs) (t # ts) = (if b = t then drop_common bs ts else (b # bs, t # ts))"
| "drop_common bs ts = (bs, ts)"

definition path_rel :: "string \<Rightarrow> string \<Rightarrow> string option" where
  "path_rel base targ =
     (if path_clean base = path_clean targ then Some ''.''
      else if is_abs base \<noteq> is_abs targ then None
      else let (bs, ts) = drop_common (path_elems base) (path_elems targ) in
        if bs \<noteq> [] \<and> hd bs = ''..'' then None
        else Some (join_slash (replicate (length bs) ''..'' @ ts)))"

section \<open>Lemmas\<close>

definition plain_elem :: "string \<Rightarrow> bool" where
  "plain_elem e \<longleftrightarrow> e \<noteq> [] \<and> e \<noteq> ''.'' \<and> e \<noteq> ''..'' \<and> CHR ''/'' \<notin> set e"

lemma join_slash_Cons: "es \<noteq> [] \<Longrightarrow> join_slash (e # es) = e @ CHR ''/'' # join_slash es"
  by (cases es) auto

lemma split_join_slash:
  "es \<noteq> [] \<Longrightarrow> (\<forall>e \<in> set es. CHR ''/'' \<notin> set e) \<Longrightarrow> split_byte CHR ''/'' (join_slash es) = es"
  by (induction es rule: join_slash.induct) (auto simp: split_byte_append split_byte_no_sep)

lemma clean_elems_plain:
  "list_all plain_elem es \<Longrightarrow> clean_elems r acc es = rev acc @ es"
  by (induction es arbitrary: acc) (auto simp: plain_elem_def)

lemma clean_elems_rooted_plain:
  assumes "\<And>e. e \<in> set es \<Longrightarrow> CHR ''/'' \<notin> set e" and "list_all plain_elem acc"
  shows "list_all plain_elem (clean_elems True acc es)"
  using assms
proof (induction es arbitrary: acc)
  case Nil
  then show ?case by (simp add: list_all_iff)
next
  case (Cons e es)
  consider (skip) "e = [] \<or> e = ''.''" | (up) "e \<noteq> []" "e \<noteq> ''.''" "e = ''..''"
    | (keep) "e \<noteq> []" "e \<noteq> ''.''" "e \<noteq> ''..''" by blast
  then show ?case
  proof cases
    case skip
    then have "clean_elems True acc (e # es) = clean_elems True acc es" by simp
    then show ?thesis using Cons by simp
  next
    case up
    have "clean_elems True acc (e # es) = clean_elems True (tl acc) es"
      using up Cons.prems(2) by (cases acc) (simp_all add: plain_elem_def)
    moreover have "list_all plain_elem (tl acc)" using Cons.prems(2) by (cases acc) simp_all
    ultimately show ?thesis using Cons by simp
  next
    case keep
    then have "clean_elems True acc (e # es) = clean_elems True (e # acc) es" by simp
    moreover have "plain_elem e" using keep Cons.prems(1) [of e] by (simp add: plain_elem_def)
    ultimately show ?thesis using Cons by simp
  qed
qed

lemma path_elems_abs_plain:
  assumes "is_abs p"
  shows "list_all plain_elem (path_elems p)"
proof -
  have "list_all plain_elem (clean_elems True [] (split_byte CHR ''/'' p))"
    by (rule clean_elems_rooted_plain) (use split_byte_parts in auto)
  then show ?thesis using assms by (simp add: path_elems_def)
qed

lemma path_elems_path_of_abs:
  assumes "list_all plain_elem es"
  shows "path_elems (path_of True es) = es"
proof (cases "es = []")
  case True
  then show ?thesis by (simp add: path_of_def path_elems_def is_abs_def)
next
  case False
  have "split_byte CHR ''/'' (path_of True es) = [] # es"
    using assms False by (simp add: path_of_def split_join_slash list_all_iff plain_elem_def)
  moreover have "is_abs (path_of True es)" by (simp add: path_of_def is_abs_def)
  ultimately show ?thesis
    using clean_elems_plain [OF assms, of True "[]"] by (simp add: path_elems_def)
qed

lemma is_abs_path_of [simp]: "is_abs (path_of True es)"
  by (simp add: path_of_def is_abs_def)

lemma path_clean_abs: "is_abs p \<Longrightarrow> path_clean p = path_of True (path_elems p) \<and> is_abs (path_clean p)"
  by (simp add: path_clean_def)

lemma path_clean_idem_abs: "is_abs p \<Longrightarrow> path_clean (path_clean p) = path_clean p"
  by (simp add: path_clean_def path_elems_path_of_abs path_elems_abs_plain)

lemma path_elems_clean_abs: "is_abs p \<Longrightarrow> path_elems (path_clean p) = path_elems p"
  by (simp add: path_clean_def path_elems_path_of_abs path_elems_abs_plain)

lemma path_of_abs_inj:
  "list_all plain_elem es \<Longrightarrow> list_all plain_elem fs \<Longrightarrow> path_of True es = path_of True fs \<Longrightarrow> es = fs"
  by (metis path_elems_path_of_abs)

lemma drop_common_prefix: "drop_common bs (bs @ ts) = ([], ts)"
  by (induction bs) auto

lemma drop_common_Nil: "drop_common bs ts = ([], us) \<Longrightarrow> ts = bs @ us"
  by (induction bs ts rule: drop_common.induct) (auto split: if_splits)

lemma drop_common_suffix: "drop_common bs ts = (bs', ts') \<Longrightarrow> \<exists>cs. bs = cs @ bs' \<and> ts = cs @ ts'"
proof (induction bs ts rule: drop_common.induct)
  case (1 b bs t ts)
  show ?case
  proof (cases "b = t")
    case True
    then obtain cs where "bs = cs @ bs'" "ts = cs @ ts'" using 1 by auto
    then have "b # bs = (b # cs) @ bs' \<and> t # ts = (b # cs) @ ts'" using True by simp
    then show ?thesis by blast
  next
    case False
    then show ?thesis using "1.prems" by simp
  qed
qed auto

section \<open>Joining\<close>

lemma split_byte_append_sep: "split_byte c (a @ c # b) = split_byte c a @ split_byte c b"
  by (induction a) (auto split: list.splits)

lemma clean_elems_append: "clean_elems r acc (xs @ ys) = clean_elems r (rev (clean_elems r acc xs)) ys"
proof (induction xs arbitrary: acc)
  case (Cons x xs)
  then show ?case by (auto split: list.split)
qed simp

lemma path_elems_join:
  assumes "is_abs a" "list_all plain_elem ts" "ts \<noteq> []"
  shows "path_elems (a @ ''/'' @ join_slash ts) = path_elems a @ ts"
proof -
  have abs: "is_abs (a @ ''/'' @ join_slash ts)" using assms(1) by (cases a) (auto simp: is_abs_def)
  have "split_byte CHR ''/'' (a @ CHR ''/'' # join_slash ts) = split_byte CHR ''/'' a @ ts"
    using assms(2,3) by (simp add: split_byte_append_sep split_join_slash list_all_iff plain_elem_def)
  then show ?thesis
    using assms(1) abs by (simp add: path_elems_def clean_elems_append clean_elems_plain [OF assms(2)])
qed

lemma path_elems_dot:
  assumes "is_abs a"
  shows "path_elems (a @ ''/.'') = path_elems a"
proof -
  have abs: "is_abs (a @ ''/.'')" using assms(1) by (cases a) (auto simp: is_abs_def)
  have "split_byte CHR ''/'' (a @ CHR ''/'' # ''.'') = split_byte CHR ''/'' a @ [''.'']"
    by (simp add: split_byte_append_sep split_byte_no_sep)
  then show ?thesis using assms abs by (simp add: path_elems_def clean_elems_append)
qed

text \<open>The paths at or below a directory.\<close>

definition under :: "string \<Rightarrow> string \<Rightarrow> bool" where
  "under dir q \<longleftrightarrow> (\<exists>rest. list_all plain_elem rest \<and> q = path_of True (path_elems dir @ rest))"

lemma path_join_under:
  assumes "is_abs d" "list_all plain_elem ts" "ts \<noteq> []"
  shows "path_elems (path_join d (join_slash ts)) = path_elems d @ ts" "is_abs (path_join d (join_slash ts))"
    "path_clean (path_join d (join_slash ts)) = path_of True (path_elems d @ ts)"
proof -
  have d: "d \<noteq> []" using assms(1) by (auto simp: is_abs_def)
  have j: "join_slash ts \<noteq> []"
    using assms(2,3) by (cases ts rule: join_slash.cases) (auto simp: plain_elem_def)
  have a: "is_abs (d @ ''/'' @ join_slash ts)" using assms(1) by (cases d) (auto simp: is_abs_def)
  have p: "path_join d (join_slash ts) = path_clean (d @ ''/'' @ join_slash ts)" using d j by (simp add: path_join_def)
  show e: "path_elems (path_join d (join_slash ts)) = path_elems d @ ts"
    unfolding p path_elems_clean_abs [OF a] by (rule path_elems_join [OF assms])
  show i: "is_abs (path_join d (join_slash ts))" unfolding p using path_clean_abs [OF a] by simp
  show "path_clean (path_join d (join_slash ts)) = path_of True (path_elems d @ ts)"
    using path_clean_abs [OF i] e by simp
qed

lemma path_join_dot: "is_abs d \<Longrightarrow> path_join d ''.'' = path_of True (path_elems d)"
proof -
  assume d: "is_abs d"
  then have "is_abs (d @ ''/.'')" by (cases d) (auto simp: is_abs_def)
  then show ?thesis using d path_elems_dot [OF d] by (auto simp: path_join_def path_clean_def is_abs_def)
qed

lemma path_rel_below:
  assumes "path_rel base p = Some rel" "rel \<noteq> ''..''" "\<not> has_prefix rel ''../''" "is_abs base"
  shows "rel = ''.'' \<or> (\<exists>ts. list_all plain_elem ts \<and> ts \<noteq> [] \<and> rel = join_slash ts \<and> path_elems p = path_elems base @ ts)"
proof (cases "path_clean base = path_clean p")
  case True
  then show ?thesis using assms(1) by (simp add: path_rel_def)
next
  case False
  obtain bs ts where dc: "drop_common (path_elems base) (path_elems p) = (bs, ts)" by (metis prod.exhaust)
  have abs: "is_abs p" and rel: "rel = join_slash (replicate (length bs) ''..'' @ ts)"
    using assms(1,4) False dc by (auto simp: path_rel_def split: if_splits)
  have bs: "bs = []"
  proof (rule ccontr)
    assume "bs \<noteq> []"
    then obtain n where "replicate (length bs) ''..'' = ''..'' # replicate n ''..''" by (cases bs) auto
    then have "rel = ''..'' \<or> has_prefix rel ''../''"
      using rel by (cases "replicate n ''..'' @ ts") auto
    then show False using assms(2,3) by simp
  qed
  then have e: "path_elems p = path_elems base @ ts" using drop_common_Nil dc by metis
  then have "ts \<noteq> []" using False assms(4) abs by (auto simp: path_clean_def)
  moreover have "list_all plain_elem ts" using path_elems_abs_plain [OF abs] e by simp
  ultimately show ?thesis using e rel bs by auto
qed

text \<open>The end of a name survives cleaning.\<close>

lemma clean_elems_last: "w \<noteq> [] \<Longrightarrow> w \<noteq> ''.'' \<Longrightarrow> w \<noteq> ''..'' \<Longrightarrow> clean_elems r acc (ws @ [w]) = clean_elems r acc ws @ [w]"
  by (simp add: clean_elems_append)

lemma join_slash_last: "\<exists>p. join_slash (es @ [w]) = p @ w"
proof (induction es rule: join_slash.induct)
  case (3 x y ys)
  then obtain p where "join_slash (y # ys @ [w]) = p @ w" by auto
  then have "join_slash ((x # y # ys) @ [w]) = (x @ ''/'' @ p) @ w" by simp
  then show ?case by blast
next
  case (2 x)
  have "join_slash ([x] @ [w]) = (x @ ''/'') @ w" by simp
  then show ?case by blast
qed simp

lemma path_clean_tmp: "\<exists>p. path_clean (x @ ''.tmp'') = p @ ''.tmp''"
proof -
  have nosep: "CHR ''/'' \<notin> set ''.tmp''" by simp
  have "\<exists>ws w. split_byte CHR ''/'' (x @ ''.tmp'') = ws @ [w @ ''.tmp'']"
  proof (induction x)
    case Nil
    then show ?case by (intro exI [of _ "[]"]) (simp add: split_byte_no_sep)
  next
    case (Cons a x)
    then obtain ws w where "split_byte CHR ''/'' (x @ ''.tmp'') = ws @ [w @ ''.tmp'']" by blast
    then show ?case by (cases ws) (auto intro: exI [of _ "[] # ws"] exI [of _ "[]"] Cons_eq_appendI)
  qed
  then obtain ws w where ws: "split_byte CHR ''/'' (x @ ''.tmp'') = ws @ [w @ ''.tmp'']" by blast
  have "length (w @ ''.tmp'') > 2" by simp
  then have "w @ ''.tmp'' \<noteq> []" "w @ ''.tmp'' \<noteq> ''.''" "w @ ''.tmp'' \<noteq> ''..''" by force+
  then have e: "path_elems (x @ ''.tmp'') = clean_elems (is_abs (x @ ''.tmp'')) [] ws @ [w @ ''.tmp'']"
    unfolding path_elems_def ws by (rule clean_elems_last)
  obtain p where j: "join_slash (path_elems (x @ ''.tmp'')) = p @ w @ ''.tmp''"
    unfolding e using join_slash_last by blast
  have ne: "path_elems (x @ ''.tmp'') \<noteq> []" by (simp add: e)
  have "path_clean (x @ ''.tmp'') = (if is_abs (x @ ''.tmp'') then ''/'' else []) @ p @ w @ ''.tmp''"
    by (simp add: path_clean_def path_of_def j ne)
  then show ?thesis by (metis append.assoc)
qed

end
