(* ===== verification/Delivery_Source.thy ===== *)
theory Delivery_Source
  imports Backend_Sops Config_Model Go_Path
begin

text \<open>
  \<open>internal/delivery/opener.go\<close>, and the interface \<open>Opener\<close>/\<open>Opened\<close> the delivery layer reads secrets through.
  The interface is a record of operations, so that the delivery code is modelled against it; its
  contract is the locale \<open>secret_source\<close>, which the config-backed opener over sops interprets.
\<close>

section \<open>The interface\<close>

datatype open_error =
    UndefinedSource string
  | BackendError backend_error
  | CipherUnreadable string

record 'h source_ops =
  so_open :: "string \<Rightarrow> open_error + 'h"
  so_keys :: "'h \<Rightarrow> lockmem \<Rightarrow> (backend_error + string list) \<times> lockmem"
  so_value :: "'h \<Rightarrow> string \<Rightarrow> lockmem \<Rightarrow> (backend_error + string) \<times> 'h \<times> lockmem"
  so_write_value :: "'h \<Rightarrow> string \<Rightarrow> lockmem \<Rightarrow> (string \<times> backend_error option) \<times> lockmem"
  so_payload :: "'h \<Rightarrow> lockmem \<Rightarrow> (backend_error + string) \<times> 'h \<times> lockmem"
  so_write_payload :: "'h \<Rightarrow> string \<times> backend_error option"
  so_close :: "'h \<Rightarrow> lockmem \<Rightarrow> 'h \<times> lockmem"
  so_cipher_hash :: "string \<Rightarrow> open_error + string"

text \<open>
  What the delivery layer relies on. A handle answers the same however often it is asked, a key it
  lists has a value, reading leaves in locked memory only what the handle keeps, and closing it
  frees exactly that.
\<close>

locale secret_source =
  fixes ops :: "'h source_ops"
    and kept :: "'h \<Rightarrow> handle list"
    and keys_of :: "'h \<Rightarrow> backend_error + string list"
    and value_of :: "'h \<Rightarrow> string \<Rightarrow> backend_error + string"
    and payload_of :: "'h \<Rightarrow> backend_error + string"
  assumes opened_empty: "so_open ops s = Inr h \<Longrightarrow> kept h = []"
    and read_keys: "so_keys ops h lm = (rk, lm') \<Longrightarrow> mem_ok lm \<Longrightarrow> rk = keys_of h \<and> grows lm lm' []"
    and read_value: "so_value ops h k lm = (r, h', lm') \<Longrightarrow> mem_ok lm \<Longrightarrow>
        r = value_of h k \<and> keys_of h' = keys_of h \<and> value_of h' = value_of h \<and> payload_of h' = payload_of h
        \<and> (\<exists>new. grows lm lm' new \<and> kept h' = kept h @ map fst new)"
    and read_payload: "so_payload ops h lm = (r, h', lm') \<Longrightarrow> mem_ok lm \<Longrightarrow>
        r = payload_of h \<and> (\<exists>new. grows lm lm' new \<and> kept h' = kept h @ map fst new)"
    and write_value: "so_write_value ops h k lm = (w, lm') \<Longrightarrow> mem_ok lm \<Longrightarrow>
        w = (case value_of h k of Inl e \<Rightarrow> ([], Some e) | Inr v \<Rightarrow> (v, None)) \<and> grows lm lm' []"
    and write_payload: "so_write_payload ops h = (p, None) \<Longrightarrow> payload_of h = Inr q \<Longrightarrow> p = q"
    and close: "so_close ops h lm = (h', lm') \<Longrightarrow>
        lm_live lm' = filter (\<lambda>x. fst x \<notin> set (kept h)) (lm_live lm) \<and> lm_next lm' = lm_next lm"
    and listed: "keys_of h = Inr ks \<Longrightarrow> k \<in> set ks \<Longrightarrow> \<exists>v. value_of h k = Inr v"

section \<open>The config-backed opener\<close>

text \<open>
  \<open>read_cipher\<close> is the content of a ciphertext file, or \<^const>\<open>None\<close> when it cannot be read;
  \<open>sha256_hex\<close> is the hash of it in hexadecimal.
\<close>

record opener_env =
  oe_cfg :: config
  oe_sops :: sops_env
  oe_read_cipher :: "string \<Rightarrow> string option"
  oe_sha256_hex :: "string \<Rightarrow> string"

definition resolvePath :: "config \<Rightarrow> string \<Rightarrow> string" where
  "resolvePath cfg file =
     (if is_abs file \<or> g_sources_root (c_globals cfg) = [] then file
      else path_join (g_sources_root (c_globals cfg)) file)"

definition seal_source :: "config \<Rightarrow> string \<Rightarrow> open_error + sealed" where
  "seal_source cfg source =
     (case c_sources cfg source of
        None \<Rightarrow> Inl (UndefinedSource source)
      | Some src \<Rightarrow> Inr \<lparr>sd_name = source, sd_path = resolvePath cfg (src_file src),
          sd_format = (if src_format src \<noteq> [] then src_format src else FormatDotenv),
          sd_key_ref = src_age_key src\<rparr>)"

definition OpenSource :: "opener_env \<Rightarrow> string \<Rightarrow> open_error + opened" where
  "OpenSource env source =
     tryR (seal_source (oe_cfg env) source) (\<lambda>s.
       case sops_Open (oe_sops env) (c_age_keys (oe_cfg env)) s of
         Inl e \<Rightarrow> Inl (BackendError e) | Inr op \<Rightarrow> Inr op)"

definition SourceCipherHash :: "opener_env \<Rightarrow> string \<Rightarrow> open_error + string" where
  "SourceCipherHash env source =
     tryR (seal_source (oe_cfg env) source) (\<lambda>s.
       case oe_read_cipher env (sd_path s) of
         None \<Rightarrow> Inl (CipherUnreadable source)
       | Some data \<Rightarrow> Inr (''sha256:'' @ oe_sha256_hex env data))"

definition config_ops :: "opener_env \<Rightarrow> opened source_ops" where
  "config_ops env =
     \<lparr>so_open = OpenSource env, so_keys = sops_Keys (oe_sops env), so_value = sops_Value (oe_sops env),
      so_write_value = sops_WriteValue (oe_sops env), so_payload = sops_Payload (oe_sops env),
      so_write_payload = sops_WritePayload (oe_sops env), so_close = sops_Close,
      so_cipher_hash = SourceCipherHash env\<rparr>"

lemma lm_next_fold_destroy [simp]: "lm_next (fold destroy_buffer hs lm) = lm_next lm"
  by (induction hs arbitrary: lm) (simp_all add: destroy_buffer_def)

interpretation cfg: secret_source "config_ops env" op_retained "op_keys_of (oe_sops env)"
  "op_value_of (oe_sops env)" "op_payload_of (oe_sops env)" for env
proof
  show "so_open (config_ops env) s = Inr h \<Longrightarrow> op_retained h = []" for s h
    by (auto simp: config_ops_def OpenSource_def sops_Open_def Let_def result_simps
        split: sum.splits option.splits if_split_asm)
  show "so_keys (config_ops env) h lm = (rk, lm') \<Longrightarrow> mem_ok lm \<Longrightarrow>
      rk = op_keys_of (oe_sops env) h \<and> grows lm lm' []" for h lm rk lm'
    by (auto simp: config_ops_def dest: sops_Keys_spec)
  show "so_value (config_ops env) h k lm = (r, h', lm') \<Longrightarrow> mem_ok lm \<Longrightarrow>
      r = op_value_of (oe_sops env) h k \<and> op_keys_of (oe_sops env) h' = op_keys_of (oe_sops env) h
      \<and> op_value_of (oe_sops env) h' = op_value_of (oe_sops env) h
      \<and> op_payload_of (oe_sops env) h' = op_payload_of (oe_sops env) h
      \<and> (\<exists>new. grows lm lm' new \<and> op_retained h' = op_retained h @ map fst new)" for h k lm r h' lm'
    by (auto simp: config_ops_def dest!: sops_Value_spec)
  show "so_payload (config_ops env) h lm = (r, h', lm') \<Longrightarrow> mem_ok lm \<Longrightarrow>
      r = op_payload_of (oe_sops env) h \<and> (\<exists>new. grows lm lm' new \<and> op_retained h' = op_retained h @ map fst new)"
    for h lm r h' lm'
    by (auto simp: config_ops_def dest!: sops_Payload_spec)
  show "so_write_value (config_ops env) h k lm = (w, lm') \<Longrightarrow> mem_ok lm \<Longrightarrow>
      w = (case op_value_of (oe_sops env) h k of Inl e \<Rightarrow> ([], Some e) | Inr v \<Rightarrow> (v, None)) \<and> grows lm lm' []"
    for h k lm w lm'
    using sops_WriteValue_spec by (simp add: config_ops_def)
  show "so_write_payload (config_ops env) h = (p, None) \<Longrightarrow> op_payload_of (oe_sops env) h = Inr q \<Longrightarrow> p = q" for h p q
    by (simp add: config_ops_def write_payload_of)
  show "so_close (config_ops env) h lm = (h', lm') \<Longrightarrow>
      lm_live lm' = filter (\<lambda>x. fst x \<notin> set (op_retained h)) (lm_live lm) \<and> lm_next lm' = lm_next lm" for h lm h' lm'
    by (auto simp: config_ops_def sops_Close_def lm_live_fold_destroy)
  show "op_keys_of (oe_sops env) h = Inr ks \<Longrightarrow> k \<in> set ks \<Longrightarrow> \<exists>v. op_value_of (oe_sops env) h k = Inr v" for h ks k
    by (rule keys_of_value_of)
qed

end
