(* ===== verification/Delivery_Bundle.thy ===== *)
theory Delivery_Bundle
  imports Delivery_Source
begin

text \<open>
  \<open>internal/delivery/manifest.go\<close> and \<open>handler.go\<close>: the manifest of a plan, and the bundle the daemon builds
  for one caller. The JSON text of a manifest and the formatted clock are parameters, as is whether
  flushing a locked stream fails.
\<close>

section \<open>Manifests\<close>

record manifest_file =
  mf_name :: string
  mf_path :: string
  mf_owner :: string
  mf_mode :: string
  mf_source :: string
  mf_cipher_hash :: string
  mf_pointer_var :: string

record manifest_render =
  mr_kind :: string
  mr_path :: string
  mr_source :: string
  mr_cipher_hash :: string

record manifest_env =
  me_var :: string
  me_source :: string
  me_key :: string
  me_all :: bool
  me_cipher_hash :: string

record manifest =
  mn_version :: int
  mn_container :: string
  mn_service :: string
  mn_mechanism :: string
  mn_generated :: string
  mn_files :: "manifest_file list"
  mn_renders :: "manifest_render list"
  mn_env :: "manifest_env list"

definition manifestVersion :: int where "manifestVersion = 1"

record build_env =
  bd_now :: string
  bd_marshal :: "manifest \<Rightarrow> string"
  bd_flush_fails :: "string \<Rightarrow> bool"

text \<open>The hashes already computed are kept in a map.\<close>

definition hashOf ::
  "'h source_ops \<Rightarrow> (string \<rightharpoonup> string) \<Rightarrow> string \<Rightarrow> open_error + string \<times> (string \<rightharpoonup> string)" where
  "hashOf ops hashes source =
     (case hashes source of
        Some h \<Rightarrow> Inr (h, hashes)
      | None \<Rightarrow> tryR (so_cipher_hash ops source) (\<lambda>h. Inr (h, hashes(source \<mapsto> h))))"

definition manifest_file_of :: "file_target \<Rightarrow> string \<Rightarrow> manifest_file" where
  "manifest_file_of ft h = \<lparr>mf_name = ft_name ft, mf_path = ft_path ft, mf_owner = ft_owner ft, mf_mode = ft_mode ft,
     mf_source = ft_source ft, mf_cipher_hash = h, mf_pointer_var = ft_pointer_var ft\<rparr>"

definition manifest_render_of :: "render_target \<Rightarrow> string \<Rightarrow> manifest_render" where
  "manifest_render_of rt h = \<lparr>mr_kind = rt_kind rt, mr_path = rt_path rt, mr_source = rt_source rt, mr_cipher_hash = h\<rparr>"

definition manifest_env_of :: "env_target \<Rightarrow> string \<Rightarrow> manifest_env" where
  "manifest_env_of et h = \<lparr>me_var = et_var et, me_source = et_source et, me_key = et_key et, me_all = et_all et,
     me_cipher_hash = h\<rparr>"

definition BuildManifest :: "'h source_ops \<Rightarrow> dplan \<Rightarrow> string \<Rightarrow> open_error + manifest" where
  "BuildManifest ops plan now =
     tryR (foldR (\<lambda>(hs, ms) ft. tryR (hashOf ops hs (ft_source ft)) (\<lambda>(h, hs').
              Inr (hs', ms @ [manifest_file_of ft h]))) (Map.empty, []) (dp_files plan)) (\<lambda>(hs1, files).
     tryR (foldR (\<lambda>(hs, ms) rt. tryR (hashOf ops hs (rt_source rt)) (\<lambda>(h, hs').
              Inr (hs', ms @ [manifest_render_of rt h]))) (hs1, []) (dp_renders plan)) (\<lambda>(hs2, renders).
     tryR (foldR (\<lambda>(hs, ms) et. tryR (hashOf ops hs (et_source et)) (\<lambda>(h, hs').
              Inr (hs', ms @ [manifest_env_of et h]))) (hs2, []) (dp_env plan)) (\<lambda>(hs3, envs).
     Inr \<lparr>mn_version = manifestVersion, mn_container = dp_container plan, mn_service = dp_service plan,
       mn_mechanism = dp_mechanism plan, mn_generated = now, mn_files = files, mn_renders = renders, mn_env = envs\<rparr>)))"

text \<open>\<open>parse\<close> is \<open>json.Unmarshal\<close> into a manifest.\<close>

datatype manifest_error = ManifestSyntax | ManifestNoVersion

definition ParseManifest :: "(string \<Rightarrow> manifest option) \<Rightarrow> string \<Rightarrow> manifest_error + manifest" where
  "ParseManifest parse data =
     (case parse data of
        None \<Rightarrow> Inl ManifestSyntax
      | Some m \<Rightarrow> if mn_version m = 0 then Inl ManifestNoVersion else Inr m)"

section \<open>The bundle of one caller\<close>

datatype bundle_error =
    ScopeMismatch string string
  | EnvUnsupported mechanism
  | OpenFailed string open_error
  | ReadFailed string backend_error
  | KeysFailed string backend_error
  | FlushFailed string
  | UnknownRender string
  | HashFailed open_error

definition checkScope :: "string \<Rightarrow> dplan \<Rightarrow> bundle_error option" where
  "checkScope callerService plan =
     (if callerService = [] \<or> dp_service plan = [] then None
      else if callerService \<noteq> dp_service plan then Some (ScopeMismatch callerService (dp_service plan))
      else None)"

definition checkEnvGate :: "dplan \<Rightarrow> bundle_error option" where
  "checkEnvGate plan =
     (if dp_env plan \<noteq> [] \<and> \<not> EnvAllowed (dp_mechanism plan) then Some (EnvUnsupported (dp_mechanism plan)) else None)"

type_synonym add_result = "bundle_error option \<times> wbundle \<times> lockmem"

definition put_file :: "string \<Rightarrow> string \<Rightarrow> string \<Rightarrow> secret \<Rightarrow> wbundle \<Rightarrow> wbundle" where
  "put_file path owner mode s b =
     b\<lparr>b_files := b_files b @ [\<lparr>wf_path = path, wf_owner = owner, wf_mode = mode, wf_data = s\<rparr>]\<rparr>"

definition put_env :: "string \<Rightarrow> secret \<Rightarrow> wbundle \<Rightarrow> wbundle" where
  "put_env name s b = b\<lparr>b_env := b_env b @ [\<lparr>ev_name = name, ev_value = s\<rparr>]\<rparr>"

definition put_pointer :: "file_target \<Rightarrow> wbundle \<Rightarrow> wbundle" where
  "put_pointer ft b =
     (if ft_pointer_var ft \<noteq> []
      then b\<lparr>b_pointers := b_pointers b @ [\<lparr>pt_name = ft_pointer_var ft, pt_path = ft_path ft\<rparr>]\<rparr> else b)"

definition addFile :: "'h source_ops \<Rightarrow> wbundle \<Rightarrow> file_target \<Rightarrow> lockmem \<Rightarrow> add_result" where
  "addFile ops b ft lm =
     (case so_open ops (ft_source ft) of
        Inl e \<Rightarrow> (Some (OpenFailed (ft_source ft) e), b, lm)
      | Inr op \<Rightarrow>
          let (raw, op', lm1) = (if ft_whole ft then so_payload ops op lm else so_value ops op (ft_key ft) lm) in
          (case raw of
             Inl e \<Rightarrow> (Some (ReadFailed (ft_name ft) e), b, snd (so_close ops op' lm1))
           | Inr p \<Rightarrow>
               let (s, b1, lm2) = AddSecret p b lm1 in
               (None, put_pointer ft (put_file (ft_path ft) (ft_owner ft) (ft_mode ft) s b1),
                snd (so_close ops op' lm2))))"

text \<open>The loops over the keys of a source: the text of a dotenv render, and one secret per key.\<close>

fun render_text ::
  "'h source_ops \<Rightarrow> 'h \<Rightarrow> string list \<Rightarrow> string \<Rightarrow> lockmem \<Rightarrow> ((string \<times> backend_error) + string) \<times> 'h \<times> lockmem" where
  "render_text ops op [] acc lm = (Inr acc, op, lm)"
| "render_text ops op (k # ks) acc lm =
     (case so_value ops op k lm of
        (Inl e, op', lm') \<Rightarrow> (Inl (k, e), op', lm')
      | (Inr v, op', lm') \<Rightarrow> render_text ops op' ks (acc @ dotenv_line (k, v)) lm')"

fun add_each ::
  "'h source_ops \<Rightarrow> (string \<Rightarrow> secret \<Rightarrow> wbundle \<Rightarrow> wbundle) \<Rightarrow> 'h \<Rightarrow> string list \<Rightarrow> wbundle \<Rightarrow> lockmem \<Rightarrow>
     bundle_error option \<times> 'h \<times> wbundle \<times> lockmem" where
  "add_each ops put op [] b lm = (None, op, b, lm)"
| "add_each ops put op (k # ks) b lm =
     (case so_value ops op k lm of
        (Inl e, op', lm') \<Rightarrow> (Some (ReadFailed k e), op', b, lm')
      | (Inr v, op', lm') \<Rightarrow>
          let (s, b', lm'') = AddSecret v b lm' in add_each ops put op' ks (put k s b') lm'')"

definition addRender :: "'h source_ops \<Rightarrow> build_env \<Rightarrow> wbundle \<Rightarrow> render_target \<Rightarrow> lockmem \<Rightarrow> add_result" where
  "addRender ops env b rt lm =
     (case so_open ops (rt_source rt) of
        Inl e \<Rightarrow> (Some (OpenFailed (rt_source rt) e), b, lm)
      | Inr op \<Rightarrow>
          let (ks, lm1) = so_keys ops op lm in
          (case ks of
             Inl e \<Rightarrow> (Some (KeysFailed (rt_source rt) e), b, snd (so_close ops op lm1))
           | Inr keys \<Rightarrow>
               if rt_kind rt = RenderDotenv then
                 (case render_text ops op keys [] lm1 of
                    (Inl (k, e), op', lm2) \<Rightarrow> (Some (ReadFailed k e), b, snd (so_close ops op' lm2))
                  | (Inr rendered, op', lm2) \<Rightarrow>
                      if bd_flush_fails env (rt_source rt)
                      then (Some (FlushFailed (rt_source rt)), b, snd (so_close ops op' lm2))
                      else let (h, lm3) = new_buffer (length rendered) lm2; (s, b1, lm4) = AddSecret rendered b lm3 in
                        (None, put_file (rt_path rt) (rt_owner rt) (rt_mode rt) s b1,
                         snd (so_close ops op' (destroy_buffer h lm4))))
               else if rt_kind rt = RenderEnvdir then
                 let (e, op', b', lm2) =
                   add_each ops (\<lambda>k. put_file (rt_path rt @ ''/'' @ k) (rt_owner rt) (rt_mode rt)) op keys b lm1 in
                 (e, b', snd (so_close ops op' lm2))
               else (Some (UnknownRender (rt_kind rt)), b, snd (so_close ops op lm1))))"

definition addEnv :: "'h source_ops \<Rightarrow> wbundle \<Rightarrow> env_target \<Rightarrow> lockmem \<Rightarrow> add_result" where
  "addEnv ops b et lm =
     (case so_open ops (et_source et) of
        Inl e \<Rightarrow> (Some (OpenFailed (et_source et) e), b, lm)
      | Inr op \<Rightarrow>
          if et_all et then
            let (ks, lm1) = so_keys ops op lm in
            (case ks of
               Inl e \<Rightarrow> (Some (KeysFailed (et_source et) e), b, snd (so_close ops op lm1))
             | Inr keys \<Rightarrow>
                 let (e, op', b', lm2) = add_each ops put_env op keys b lm1 in
                 (e, b', snd (so_close ops op' lm2)))
          else
            (case so_value ops op (et_key et) lm of
               (Inl e, op', lm1) \<Rightarrow> (Some (ReadFailed (et_key et) e), b, snd (so_close ops op' lm1))
             | (Inr v, op', lm1) \<Rightarrow>
                 let (s, b1, lm2) = AddSecret v b lm1 in
                 (None, put_env (if et_var et = [] then et_key et else et_var et) s b1, snd (so_close ops op' lm2))))"

fun add_all :: "(wbundle \<Rightarrow> 'a \<Rightarrow> lockmem \<Rightarrow> add_result) \<Rightarrow> wbundle \<Rightarrow> 'a list \<Rightarrow> lockmem \<Rightarrow> add_result" where
  "add_all f b [] lm = (None, b, lm)"
| "add_all f b (x # xs) lm =
     (case f b x lm of (None, b', lm') \<Rightarrow> add_all f b' xs lm' | (Some e, b', lm') \<Rightarrow> (Some e, b', lm'))"

definition build_steps :: "'h source_ops \<Rightarrow> build_env \<Rightarrow> dplan \<Rightarrow> wbundle \<Rightarrow> lockmem \<Rightarrow> add_result" where
  "build_steps ops env plan b lm =
     (case add_all (addFile ops) b (dp_files plan) lm of
        (Some e, b1, lm1) \<Rightarrow> (Some e, b1, lm1)
      | (None, b1, lm1) \<Rightarrow>
          (case add_all (addRender ops env) b1 (dp_renders plan) lm1 of
             (Some e, b2, lm2) \<Rightarrow> (Some e, b2, lm2)
           | (None, b2, lm2) \<Rightarrow>
               (case add_all (addEnv ops) b2 (dp_env plan) lm2 of
                  (Some e, b3, lm3) \<Rightarrow> (Some e, b3, lm3)
                | (None, b3, lm3) \<Rightarrow>
                    (case BuildManifest ops plan (bd_now env) of
                       Inl e \<Rightarrow> (Some (HashFailed e), b3, lm3)
                     | Inr m \<Rightarrow> (None, b3\<lparr>b_manifest := bd_marshal env m\<rparr>, lm3)))))"

definition BuildBundle ::
  "'h source_ops \<Rightarrow> build_env \<Rightarrow> string \<Rightarrow> dplan \<Rightarrow> lockmem \<Rightarrow> (bundle_error + wbundle) \<times> lockmem" where
  "BuildBundle ops env callerService plan lm =
     (case checkScope callerService plan of
        Some e \<Rightarrow> (Inl e, lm)
      | None \<Rightarrow>
          (case checkEnvGate plan of
             Some e \<Rightarrow> (Inl e, lm)
           | None \<Rightarrow>
               (case build_steps ops env plan empty_bundle lm of
                  (Some e, b, lm') \<Rightarrow> (Inl e, snd (Destroy b lm'))
                | (None, b, lm') \<Rightarrow> (Inr b, lm'))))"

section \<open>The contents a plan asks for\<close>

text \<open>
  A bundle as a function of what the sources hold, with no locked memory: the reference the handler
  is compared with. \<open>keys_of\<close>, \<open>value_of\<close> and \<open>payload_of\<close> say what an opened source answers.
\<close>

record 'h answers =
  an_keys :: "'h \<Rightarrow> backend_error + string list"
  an_value :: "'h \<Rightarrow> string \<Rightarrow> backend_error + string"
  an_payload :: "'h \<Rightarrow> backend_error + string"

definition with_source :: "'h source_ops \<Rightarrow> string \<Rightarrow> ('h \<Rightarrow> bundle_error + 'a) \<Rightarrow> bundle_error + 'a" where
  "with_source ops s f = (case so_open ops s of Inl e \<Rightarrow> Inl (OpenFailed s e) | Inr op \<Rightarrow> f op)"

definition read_key :: "'h answers \<Rightarrow> 'h \<Rightarrow> string \<Rightarrow> bundle_error + string" where
  "read_key an op k = (case an_value an op k of Inl e \<Rightarrow> Inl (ReadFailed k e) | Inr v \<Rightarrow> Inr v)"

definition file_contents :: "'h source_ops \<Rightarrow> 'h answers \<Rightarrow> file_target \<Rightarrow> bundle_error + string \<times> string \<times> string \<times> string" where
  "file_contents ops an ft = with_source ops (ft_source ft) (\<lambda>op.
     case (if ft_whole ft then an_payload an op else an_value an op (ft_key ft)) of
       Inl e \<Rightarrow> Inl (ReadFailed (ft_name ft) e)
     | Inr p \<Rightarrow> Inr (ft_path ft, ft_owner ft, ft_mode ft, p))"

definition render_contents ::
  "'h source_ops \<Rightarrow> 'h answers \<Rightarrow> build_env \<Rightarrow> render_target \<Rightarrow> bundle_error + (string \<times> string \<times> string \<times> string) list" where
  "render_contents ops an env rt = with_source ops (rt_source rt) (\<lambda>op.
     case an_keys an op of
       Inl e \<Rightarrow> Inl (KeysFailed (rt_source rt) e)
     | Inr keys \<Rightarrow>
         if rt_kind rt = RenderDotenv then
           tryR (mapR (\<lambda>k. tryR (read_key an op k) (\<lambda>v. Inr (k, v))) keys) (\<lambda>kvs.
             if bd_flush_fails env (rt_source rt) then Inl (FlushFailed (rt_source rt))
             else Inr [(rt_path rt, rt_owner rt, rt_mode rt, dotenv_text kvs)])
         else if rt_kind rt = RenderEnvdir then
           mapR (\<lambda>k. tryR (read_key an op k) (\<lambda>v. Inr (rt_path rt @ ''/'' @ k, rt_owner rt, rt_mode rt, v))) keys
         else Inl (UnknownRender (rt_kind rt)))"

definition env_contents :: "'h source_ops \<Rightarrow> 'h answers \<Rightarrow> env_target \<Rightarrow> bundle_error + (string \<times> string) list" where
  "env_contents ops an et = with_source ops (et_source et) (\<lambda>op.
     if et_all et then
       (case an_keys an op of
          Inl e \<Rightarrow> Inl (KeysFailed (et_source et) e)
        | Inr keys \<Rightarrow> mapR (\<lambda>k. tryR (read_key an op k) (\<lambda>v. Inr (k, v))) keys)
     else tryR (read_key an op (et_key et)) (\<lambda>v. Inr [(if et_var et = [] then et_key et else et_var et, v)]))"

definition pointer_contents :: "file_target \<Rightarrow> (string \<times> string) list" where
  "pointer_contents ft = (if ft_pointer_var ft \<noteq> [] then [(ft_pointer_var ft, ft_path ft)] else [])"

definition bundle_contents :: "'h source_ops \<Rightarrow> 'h answers \<Rightarrow> build_env \<Rightarrow> string \<Rightarrow> dplan \<Rightarrow> bundle_error + contents" where
  "bundle_contents ops an env callerService plan =
     (case checkScope callerService plan of Some e \<Rightarrow> Inl e | None \<Rightarrow>
     (case checkEnvGate plan of Some e \<Rightarrow> Inl e | None \<Rightarrow>
       tryR (mapR (file_contents ops an) (dp_files plan)) (\<lambda>fs.
       tryR (mapR (render_contents ops an env) (dp_renders plan)) (\<lambda>rs.
       tryR (mapR (env_contents ops an) (dp_env plan)) (\<lambda>es.
       case BuildManifest ops plan (bd_now env) of
         Inl e \<Rightarrow> Inl (HashFailed e)
       | Inr m \<Rightarrow> Inr (fs @ concat rs, concat es, concat (map pointer_contents (dp_files plan)), bd_marshal env m))))))"

section \<open>Two owners of locked memory\<close>

text \<open>The bundle owns its buffers while an opened source still keeps some, \<open>ret\<close>.\<close>

definition without :: "handle list \<Rightarrow> lockmem \<Rightarrow> lockmem" where
  "without ret lm = lm\<lparr>lm_live := filter (\<lambda>x. fst x \<notin> set ret) (lm_live lm)\<rparr>"

definition owns_beside :: "(handle \<times> nat) list \<Rightarrow> wbundle \<Rightarrow> handle list \<Rightarrow> lockmem \<Rightarrow> bool" where
  "owns_beside base b ret lm \<longleftrightarrow> mem_ok lm \<and> (\<forall>h \<in> set ret. h < lm_next lm) \<and> owns base b (without ret lm)"

lemma owns_beside_Nil: "owns_beside base b [] lm \<longleftrightarrow> owns base b lm"
  by (auto simp: owns_beside_def without_def owns_def)

lemma owns_next_mono: "owns base b lm \<Longrightarrow> lm_next lm \<le> n \<Longrightarrow> owns base b (lm\<lparr>lm_next := n\<rparr>)"
proof -
  assume o: "owns base b lm" and n: "lm_next lm \<le> n"
  have "backed (lm\<lparr>lm_next := n\<rparr>) hs s = backed lm hs s" for hs s
    by (simp add: backed_def split: option.split)
  moreover have "mem_ok (lm\<lparr>lm_next := n\<rparr>)" using o n by (auto simp: owns_def mem_ok_def)
  ultimately show ?thesis using o by (simp add: owns_def)
qed

lemma owns_beside_grows:
  assumes "owns_beside base b ret lm" "grows lm lm' new"
  shows "owns_beside base b (ret @ map fst new) lm'"
proof -
  have ok: "mem_ok lm" and rl: "\<forall>h \<in> set ret. h < lm_next lm" and ow: "owns base b (without ret lm)"
    using assms(1) by (auto simp: owns_beside_def)
  have g: "lm_live lm' = lm_live lm @ new" "lm_next lm \<le> lm_next lm'" "\<forall>x \<in> set new. lm_next lm \<le> fst x \<and> fst x < lm_next lm'"
    using assms(2) by (auto simp: grows_def)
  have "filter (\<lambda>x. fst x \<notin> set (ret @ map fst new)) (lm_live lm') = filter (\<lambda>x. fst x \<notin> set ret) (lm_live lm)"
  proof -
    have "fst x \<notin> fst ` set new" if "x \<in> set (lm_live lm)" for x
      using ok that g(3) by (fastforce simp: mem_ok_def)
    then show ?thesis by (auto simp: g(1) filter_empty_conv intro!: filter_cong)
  qed
  then have "without (ret @ map fst new) lm' = (without ret lm)\<lparr>lm_next := lm_next lm'\<rparr>"
    by (simp add: without_def)
  moreover have "owns base b ((without ret lm)\<lparr>lm_next := lm_next lm'\<rparr>)"
    using g(2) by (intro owns_next_mono [OF ow]) (simp add: without_def)
  ultimately show ?thesis
    using grows_mem_ok [OF assms(2) ok] rl g(2,3) by (fastforce simp: owns_beside_def)
qed

lemma owns_beside_close:
  assumes "owns_beside base b ret lm" "lm_live lm' = filter (\<lambda>x. fst x \<notin> set ret) (lm_live lm)" "lm_next lm' = lm_next lm"
  shows "owns base b lm'"
proof -
  have "lm' = without ret lm" using assms(2,3) by (simp add: without_def)
  then show ?thesis using assms(1) by (simp add: owns_beside_def)
qed

lemma AddSecret_beside:
  assumes "owns_beside base b ret lm" "AddSecret p b lm = (s, b', lm')"
  shows "owns_beside base b' ret lm'" "sec_bytes s = p" "backed (without ret lm') (b_locked b') s"
    "bundle_view b' = bundle_view b"
proof -
  have ok: "mem_ok lm" and rl: "\<forall>h \<in> set ret. h < lm_next lm" and ow: "owns base b (without ret lm)"
    using assms(1) by (auto simp: owns_beside_def)
  have nr: "lm_next lm \<notin> set ret" using rl by auto
  have e: "AddSecret p b (without ret lm) = (s, b', without ret lm')"
    using assms(2) nr by (auto simp: AddSecret_def without_def new_buffer_def Let_def split: if_splits)
  note a = AddSecret_owns [OF ow e]
  have "mem_ok lm' \<and> lm_next lm \<le> lm_next lm'"
    using assms(2) ok mem_ok_new [OF ok, of "length p"]
    by (auto simp: AddSecret_def new_buffer_def Let_def split: if_splits)
  then show "owns_beside base b' ret lm'" using a(1) rl by (fastforce simp: owns_beside_def)
  show "sec_bytes s = p" "backed (without ret lm') (b_locked b') s" by (rule a(2), rule a(3))
  show "bundle_view b' = bundle_view b" by (simp add: bundle_view_def a)
qed

lemma put_file_owns:
  "owns base b lm \<Longrightarrow> backed lm (b_locked b) s \<Longrightarrow> owns base (put_file p ow md s b) lm"
  by (auto simp: owns_def put_file_def)

lemma put_env_owns:
  "owns base b lm \<Longrightarrow> backed lm (b_locked b) s \<Longrightarrow> owns base (put_env n s b) lm"
  by (auto simp: owns_def put_env_def)

lemma put_pointer_owns: "owns base b lm \<Longrightarrow> owns base (put_pointer ft b) lm"
  by (auto simp: owns_def put_pointer_def)

lemma manifest_owns: "owns base b lm \<Longrightarrow> owns base (b\<lparr>b_manifest := m\<rparr>) lm"
  by (simp add: owns_def)

text \<open>A step that puts a secret in the bundle.\<close>

definition put_ok :: "(secret \<Rightarrow> wbundle \<Rightarrow> wbundle) \<Rightarrow> (string \<Rightarrow> contents \<Rightarrow> contents) \<Rightarrow> bool" where
  "put_ok put g \<longleftrightarrow>
     (\<forall>s b. bundle_view (put s b) = g (sec_bytes s) (bundle_view b))
     \<and> (\<forall>base b lm s. owns base b lm \<longrightarrow> backed lm (b_locked b) s \<longrightarrow> owns base (put s b) lm)"

lemma put_ok_file: "put_ok (put_file p ow md) (\<lambda>v. add_file (p, ow, md, v))"
  by (auto simp: put_ok_def put_file_owns) (simp add: put_file_def bundle_view_def file_view_def add_file_def)

lemma put_ok_env: "put_ok (put_env n) (\<lambda>v. add_env (n, v))"
  by (auto simp: put_ok_def put_env_owns) (simp add: put_env_def bundle_view_def env_view_def add_env_def)

lemma put_secret:
  assumes "owns_beside base b ret lm" "AddSecret p b lm = (s, b', lm')" "put_ok put g"
  shows "owns_beside base (put s b') ret lm'" "bundle_view (put s b') = g p (bundle_view b)"
  using AddSecret_beside [OF assms(1,2)] assms(3) by (auto simp: put_ok_def owns_beside_def)


text \<open>A step of the handler against the contents it should add.\<close>

definition step_adds :: "(wbundle \<Rightarrow> 'a \<Rightarrow> lockmem \<Rightarrow> add_result) \<Rightarrow> ('a \<Rightarrow> bundle_error + 'y) \<Rightarrow> ('a \<Rightarrow> 'y \<Rightarrow> contents \<Rightarrow> contents) \<Rightarrow> bool" where
  "step_adds f P g \<longleftrightarrow> (\<forall>base b x lm e b' lm'. owns base b lm \<longrightarrow> f b x lm = (e, b', lm') \<longrightarrow>
     owns base b' lm' \<and> (case P x of Inl err \<Rightarrow> e = Some err
       | Inr y \<Rightarrow> e = None \<and> bundle_view b' = g x y (bundle_view b)))"

lemma step_addsD:
  "step_adds f P g \<Longrightarrow> owns base b lm \<Longrightarrow> f b x lm = (e, b', lm') \<Longrightarrow>
     owns base b' lm' \<and> (case P x of Inl err \<Rightarrow> e = Some err | Inr y \<Rightarrow> e = None \<and> bundle_view b' = g x y (bundle_view b))"
  unfolding step_adds_def by blast

lemma add_all_adds:
  assumes "step_adds f P g"
  shows "step_adds (add_all f) (mapR P) (\<lambda>xs ys c. fold (\<lambda>(x, y). g x y) (zip xs ys) c)"
  unfolding step_adds_def
proof (intro allI impI)
  fix base b xs lm e b' lm'
  assume "owns base b lm" "add_all f b xs lm = (e, b', lm')"
  then show "owns base b' lm' \<and> (case mapR P xs of Inl err \<Rightarrow> e = Some err
      | Inr ys \<Rightarrow> e = None \<and> bundle_view b' = fold (\<lambda>(x, y). g x y) (zip xs ys) (bundle_view b))"
  proof (induction xs arbitrary: b lm)
    case (Cons x xs)
    obtain e1 b1 lm1 where s: "f b x lm = (e1, b1, lm1)" by (metis prod.exhaust)
    note st = step_addsD [OF assms Cons.prems(1) s]
    show ?case
    proof (cases "P x")
      case (Inl err)
      then show ?thesis using st s Cons.prems(2) by auto
    next
      case (Inr y)
      then have e1: "e1 = None" and v: "bundle_view b1 = g x y (bundle_view b)" using st by auto
      have "add_all f b1 xs lm1 = (e, b', lm')" using s e1 Cons.prems(2) by simp
      from Cons.IH [OF _ this] st show ?thesis
        by (auto simp: Inr v split: sum.splits)
    qed
  qed simp
qed

context secret_source
begin

definition obs :: "'h answers" where
  "obs = \<lparr>an_keys = keys_of, an_value = value_of, an_payload = payload_of\<rparr>"

lemma obs_simps [simp]: "an_keys obs = keys_of" "an_value obs = value_of" "an_payload obs = payload_of"
  by (simp_all add: obs_def)

lemma read_key_cong: "value_of h' = value_of h \<Longrightarrow> read_key obs h' = read_key obs h"
  by (simp add: read_key_def fun_eq_iff)

lemma value_beside:
  assumes "so_value ops h k lm = (r, h', lm')" "owns_beside base b (kept h) lm"
  shows "r = value_of h k" "value_of h' = value_of h" "owns_beside base b (kept h') lm'"
  using read_value [OF assms(1)] assms(2) owns_beside_grows [OF assms(2)]
  by (auto simp: owns_beside_def)

lemma payload_beside:
  assumes "so_payload ops h lm = (r, h', lm')" "owns_beside base b (kept h) lm"
  shows "r = payload_of h" "owns_beside base b (kept h') lm'"
  using read_payload [OF assms(1)] assms(2) owns_beside_grows [OF assms(2)]
  by (auto simp: owns_beside_def)

lemma close_beside: "owns_beside base b (kept h) lm \<Longrightarrow> owns base b (snd (so_close ops h lm))"
  by (cases "so_close ops h lm") (auto dest: close intro: owns_beside_close)

lemma opened_beside: "so_open ops s = Inr h \<Longrightarrow> owns base b lm \<Longrightarrow> owns_beside base b (kept h) lm"
  by (simp add: opened_empty owns_beside_Nil)

lemma keys_beside:
  assumes "so_keys ops h lm = (r, lm')" "owns_beside base b (kept h) lm"
  shows "r = keys_of h" "owns_beside base b (kept h) lm'"
  using read_keys [OF assms(1)] assms(2) owns_beside_grows [OF assms(2), of lm' "[]"]
  by (auto simp: owns_beside_def)

lemma render_text_spec:
  assumes "render_text ops h ks acc lm = (r, h', lm')" "owns_beside base b (kept h) lm"
  shows "owns_beside base b (kept h') lm' \<and>
    (case mapR (\<lambda>k. tryR (read_key obs h k) (\<lambda>v. Inr (k, v))) ks of
       Inl err \<Rightarrow> \<exists>k e. err = ReadFailed k e \<and> r = Inl (k, e)
     | Inr kvs \<Rightarrow> r = Inr (acc @ dotenv_text kvs))"
  using assms
proof (induction ks arbitrary: h acc lm)
  case (Cons k ks)
  obtain r1 h1 lm1 where s: "so_value ops h k lm = (r1, h1, lm1)" by (metis prod.exhaust)
  note v = value_beside [OF s Cons.prems(2)]
  show ?case
  proof (cases "value_of h k")
    case (Inl e)
    then show ?thesis using s v Cons.prems(1) by (simp add: read_key_def)
  next
    case (Inr x)
    then have "render_text ops h1 ks (acc @ dotenv_line (k, x)) lm1 = (r, h', lm')"
      using s v(1) Cons.prems(1) by simp
    from Cons.IH [OF this v(3)] show ?thesis
      unfolding read_key_cong [OF v(2)] using Inr by (auto simp: read_key_def dotenv_text_def split: sum.splits)
  qed
qed (simp add: dotenv_text_def)

lemma add_each_spec:
  assumes "add_each ops put h ks b lm = (e, h', b', lm')" "owns_beside base b (kept h) lm"
    and "\<And>k. put_ok (put k) (\<lambda>v. add (F k v))"
  shows "owns_beside base b' (kept h') lm' \<and>
    (case mapR (\<lambda>k. tryR (read_key obs h k) (\<lambda>v. Inr (F k v))) ks of
       Inl err \<Rightarrow> e = Some err
     | Inr ys \<Rightarrow> e = None \<and> bundle_view b' = fold add ys (bundle_view b))"
  using assms(1,2)
proof (induction ks arbitrary: h b lm)
  case (Cons k ks)
  obtain r1 h1 lm1 where s: "so_value ops h k lm = (r1, h1, lm1)" by (metis prod.exhaust)
  note v = value_beside [OF s Cons.prems(2)]
  show ?case
  proof (cases "value_of h k")
    case (Inl err)
    then show ?thesis using s v Cons.prems(1) by (simp add: read_key_def)
  next
    case (Inr x)
    obtain sc b1 lm2 where a: "AddSecret x b lm1 = (sc, b1, lm2)" by (metis prod.exhaust)
    note p = put_secret [OF v(3) a assms(3) [of k]]
    have "add_each ops put h1 ks (put k sc b1) lm2 = (e, h', b', lm')"
      using s v(1) Inr a Cons.prems(1) by simp
    from Cons.IH [OF this p(1)] show ?thesis
      unfolding read_key_cong [OF v(2)] using Inr p(2) by (auto simp: read_key_def split: sum.splits)
  qed
qed simp

lemma addFile_adds:
  "step_adds (addFile ops) (file_contents ops obs)
     (\<lambda>ft y c. case add_file y c of (fs, es, ps, m) \<Rightarrow> (fs, es, ps @ pointer_contents ft, m))"
  unfolding step_adds_def
proof (intro allI impI)
  fix base b ft lm e b' lm'
  assume o: "owns base b lm" and a: "addFile ops b ft lm = (e, b', lm')"
  show "owns base b' lm' \<and> (case file_contents ops obs ft of Inl err \<Rightarrow> e = Some err
      | Inr y \<Rightarrow> e = None \<and> bundle_view b' =
          (case add_file y (bundle_view b) of (fs, es, ps, m) \<Rightarrow> (fs, es, ps @ pointer_contents ft, m)))"
  proof (cases "so_open ops (ft_source ft)")
    case (Inl err)
    then show ?thesis using o a by (auto simp: addFile_def file_contents_def with_source_def)
  next
    case (Inr op)
    obtain raw op' lm1 where r: "(if ft_whole ft then so_payload ops op lm else so_value ops op (ft_key ft) lm) = (raw, op', lm1)"
      by (metis prod.exhaust)
    have ob: "owns_beside base b (kept op) lm" by (rule opened_beside [OF Inr o])
    have raw: "raw = (if ft_whole ft then payload_of op else value_of op (ft_key ft))" "owns_beside base b (kept op') lm1"
      using r value_beside [OF _ ob] payload_beside [OF _ ob] by (auto split: if_splits)
    show ?thesis
    proof (cases raw)
      case re: (Inl err)
      then show ?thesis using Inr r raw a close_beside [OF raw(2)]
        by (auto simp: addFile_def file_contents_def with_source_def)
    next
      case p: (Inr x)
      obtain sc b1 lm2 where s: "AddSecret x b lm1 = (sc, b1, lm2)" by (metis prod.exhaust)
      note q = put_secret [OF raw(2) s put_ok_file [of "ft_path ft" "ft_owner ft" "ft_mode ft"]]
      have "e = None" "b' = put_pointer ft (put_file (ft_path ft) (ft_owner ft) (ft_mode ft) sc b1)"
        "lm' = snd (so_close ops op' lm2)"
        using a Inr r p s by (auto simp: addFile_def)
      moreover have "bundle_view (put_pointer ft c) = (case bundle_view c of (fs, es, ps, m) \<Rightarrow> (fs, es, ps @ pointer_contents ft, m))" for c
        by (simp add: put_pointer_def bundle_view_def pointer_contents_def pointer_view_def)
      moreover have "file_contents ops obs ft = Inr (ft_path ft, ft_owner ft, ft_mode ft, x)"
      proof -
        have "(if ft_whole ft then an_payload obs op else an_value obs op (ft_key ft)) = Inr x"
          using raw(1) p by simp
        then show ?thesis by (simp add: file_contents_def with_source_def Inr del: obs_simps split del: if_split)
      qed
      ultimately show ?thesis using q put_pointer_owns [OF close_beside [OF q(1)]] by simp
    qed
  qed
qed

lemma addEnv_adds:
  "step_adds (addEnv ops) (env_contents ops obs) (\<lambda>et ys c. fold add_env ys c)"
  unfolding step_adds_def
proof (intro allI impI)
  fix base b et lm e b' lm'
  assume o: "owns base b lm" and a: "addEnv ops b et lm = (e, b', lm')"
  show "owns base b' lm' \<and> (case env_contents ops obs et of Inl err \<Rightarrow> e = Some err
      | Inr ys \<Rightarrow> e = None \<and> bundle_view b' = fold add_env ys (bundle_view b))"
  proof (cases "so_open ops (et_source et)")
    case (Inl err)
    then show ?thesis using o a by (auto simp: addEnv_def env_contents_def with_source_def)
  next
    case op: (Inr op)
    have ob: "owns_beside base b (kept op) lm" by (rule opened_beside [OF op o])
    show ?thesis
    proof (cases "et_all et")
      case True
      obtain ks lm1 where k: "so_keys ops op lm = (ks, lm1)" by (metis prod.exhaust)
      note kb = keys_beside [OF k ob]
      show ?thesis
      proof (cases ks)
        case (Inl err)
        then show ?thesis using a op True k kb(1) close_beside [OF kb(2)]
          by (auto simp: addEnv_def env_contents_def with_source_def)
      next
        case (Inr keys)
        obtain e1 op' b1 lm2 where s: "add_each ops put_env op keys b lm1 = (e1, op', b1, lm2)" by (metis prod.exhaust)
        have "e = e1 \<and> b' = b1 \<and> lm' = snd (so_close ops op' lm2)" using a op True k Inr s by (auto simp: addEnv_def)
        moreover have "env_contents ops obs et = mapR (\<lambda>k. tryR (read_key obs op k) (\<lambda>v. Inr (k, v))) keys"
          using op True kb(1) [symmetric] Inr by (simp add: env_contents_def with_source_def)
        moreover note add_each_spec [OF s kb(2), of add_env "\<lambda>k v. (k, v)", OF put_ok_env]
        ultimately show ?thesis using close_beside by auto
      qed
    next
      case False
      obtain r op' lm1 where s: "so_value ops op (et_key et) lm = (r, op', lm1)" by (metis prod.exhaust)
      note v = value_beside [OF s ob]
      show ?thesis
      proof (cases r)
        case (Inl err)
        then show ?thesis using a op False s v(1) close_beside [OF v(3)]
          by (auto simp: addEnv_def env_contents_def with_source_def read_key_def)
      next
        case (Inr x)
        let ?n = "if et_var et = [] then et_key et else et_var et"
        obtain sc b1 lm2 where sc: "AddSecret x b lm1 = (sc, b1, lm2)" by (metis prod.exhaust)
        note q = put_secret [OF v(3) sc put_ok_env [of ?n]]
        have "e = None \<and> b' = put_env ?n sc b1 \<and> lm' = snd (so_close ops op' lm2)"
          using a op False s Inr sc by (auto simp: addEnv_def)
        moreover have "env_contents ops obs et = Inr [(?n, x)]"
          using op False v(1) [symmetric] Inr by (simp add: env_contents_def with_source_def read_key_def)
        ultimately show ?thesis using q close_beside [OF q(1)] by simp
      qed
    qed
  qed
qed

lemma addRender_adds:
  "step_adds (addRender ops env) (render_contents ops obs env) (\<lambda>rt ys c. fold add_file ys c)"
  unfolding step_adds_def
proof (intro allI impI)
  fix base b rt lm e b' lm'
  assume o: "owns base b lm" and a: "addRender ops env b rt lm = (e, b', lm')"
  let ?goal = "\<lambda>c. owns base b' lm' \<and> (case c of Inl err \<Rightarrow> e = Some err
      | Inr ys \<Rightarrow> e = None \<and> bundle_view b' = fold add_file ys (bundle_view b))"
  show "?goal (render_contents ops obs env rt)"
  proof (cases "so_open ops (rt_source rt)")
    case (Inl err)
    then show ?thesis using o a by (auto simp: addRender_def render_contents_def with_source_def)
  next
    case op: (Inr op)
    have ob: "owns_beside base b (kept op) lm" by (rule opened_beside [OF op o])
    obtain ks lm1 where k: "so_keys ops op lm = (ks, lm1)" by (metis prod.exhaust)
    note kb = keys_beside [OF k ob]
    show ?thesis
    proof (cases ks)
      case (Inl err)
      then show ?thesis using a op k kb(1) close_beside [OF kb(2)]
        by (auto simp: addRender_def render_contents_def with_source_def)
    next
      case keys: (Inr keys)
      then have ko: "keys_of op = Inr keys" using kb(1) by simp
      consider (dot) "rt_kind rt = RenderDotenv" | (dir) "rt_kind rt \<noteq> RenderDotenv" "rt_kind rt = RenderEnvdir"
        | (other) "rt_kind rt \<noteq> RenderDotenv" "rt_kind rt \<noteq> RenderEnvdir" by blast
      then show ?thesis
      proof cases
        case other
        then show ?thesis using a op k keys ko close_beside [OF kb(2)]
          by (auto simp: addRender_def render_contents_def with_source_def)
      next
        case dir
        let ?put = "\<lambda>k. put_file (rt_path rt @ ''/'' @ k) (rt_owner rt) (rt_mode rt)"
        obtain e1 op' b1 lm2 where s: "add_each ops ?put op keys b lm1 = (e1, op', b1, lm2)" by (metis prod.exhaust)
        have "e = e1 \<and> b' = b1 \<and> lm' = snd (so_close ops op' lm2)"
          using a op k keys dir s by (auto simp: addRender_def)
        moreover have "render_contents ops obs env rt =
            mapR (\<lambda>k. tryR (read_key obs op k) (\<lambda>v. Inr (rt_path rt @ ''/'' @ k, rt_owner rt, rt_mode rt, v))) keys"
          using op ko dir by (simp add: render_contents_def with_source_def)
        moreover note add_each_spec [OF s kb(2), of add_file "\<lambda>k v. (rt_path rt @ ''/'' @ k, rt_owner rt, rt_mode rt, v)", OF put_ok_file]
        ultimately show ?thesis using close_beside by auto
      next
        case dot
        obtain r op' lm2 where s: "render_text ops op keys [] lm1 = (r, op', lm2)" by (metis prod.exhaust)
        note t = render_text_spec [OF s kb(2)]
        have rc: "render_contents ops obs env rt =
          tryR (mapR (\<lambda>k. tryR (read_key obs op k) (\<lambda>v. Inr (k, v))) keys) (\<lambda>kvs.
             if bd_flush_fails env (rt_source rt) then Inl (FlushFailed (rt_source rt))
             else Inr [(rt_path rt, rt_owner rt, rt_mode rt, dotenv_text kvs)])"
          using op ko dot by (simp add: render_contents_def with_source_def)
        show ?thesis
        proof (cases "mapR (\<lambda>k. tryR (read_key obs op k) (\<lambda>v. Inr (k, v))) keys")
          case (Inl err)
          then obtain k1 e1 where "err = ReadFailed k1 e1" "r = Inl (k1, e1)" using t by auto
          then show ?thesis using a op k keys dot s t close_beside [of base b op' lm2] Inl
            unfolding rc by (auto simp: addRender_def)
        next
          case (Inr kvs)
          then have r: "r = Inr (dotenv_text kvs)" using t by simp
          show ?thesis
          proof (cases "bd_flush_fails env (rt_source rt)")
            case True
            then show ?thesis using a op k keys dot s t r close_beside [of base b op' lm2] Inr
              unfolding rc by (auto simp: addRender_def)
          next
            case False
            let ?txt = "dotenv_text kvs"
            obtain h lm3 where h: "new_buffer (length ?txt) lm2 = (h, lm3)" by (metis prod.exhaust)
            obtain sc b1 lm4 where sc: "AddSecret ?txt b lm3 = (sc, b1, lm4)" by (metis prod.exhaust)
            have ob2: "owns_beside base b (kept op' @ [h]) lm3"
              using owns_beside_grows [OF conjunct1 [OF t] grows_new [OF h]] by simp
            note q = put_secret [OF ob2 sc put_ok_file [of "rt_path rt" "rt_owner rt" "rt_mode rt"]]
            have "owns_beside base (put_file (rt_path rt) (rt_owner rt) (rt_mode rt) sc b1) (kept op') (destroy_buffer h lm4)"
              using q(1) by (auto simp: owns_beside_def without_def destroy_buffer_def mem_ok_def conj_commute)
            from close_beside [OF this] q(2) show ?thesis
              using a op k keys dot s r False h sc Inr unfolding rc by (auto simp: addRender_def)
          qed
        qed
      qed
    qed
  qed
qed

text \<open>The three loops and the manifest, then the gates and the deferred destruction.\<close>

lemma fold_files:
  "length xs = length ys \<Longrightarrow>
   fold (\<lambda>(x, y). \<lambda>c. case add_file y c of (fs, es, ps, m) \<Rightarrow> (fs, es, ps @ pointer_contents x, m)) (zip xs ys) (fs0, es0, ps0, m0)
     = (fs0 @ ys, es0, ps0 @ concat (map pointer_contents xs), m0)"
  by (induction xs ys arbitrary: fs0 ps0 rule: list_induct2) (simp_all add: add_file_def)

lemma fold_renders:
  "length xs = length yss \<Longrightarrow>
   fold (\<lambda>(x, ys). fold add_file ys) (zip xs yss) (fs0, es0, ps0, m0) = (fs0 @ concat yss, es0, ps0, m0)"
  by (induction xs yss arbitrary: fs0 rule: list_induct2) simp_all

lemma fold_envs:
  "length xs = length yss \<Longrightarrow>
   fold (\<lambda>(x, ys). fold add_env ys) (zip xs yss) (fs0, es0, ps0, m0) = (fs0, es0 @ concat yss, ps0, m0)"
  by (induction xs yss arbitrary: es0 rule: list_induct2) simp_all

lemma build_steps_adds:
  assumes "owns base empty_bundle lm" "build_steps ops env plan empty_bundle lm = (e, b, lm')"
    and "checkScope caller plan = None" "checkEnvGate plan = None"
  shows "owns base b lm' \<and> (case bundle_contents ops obs env caller plan of
      Inl err \<Rightarrow> e = Some err | Inr c \<Rightarrow> e = None \<and> bundle_view b = c)"
proof -
  obtain e1 b1 lm1 where s1: "add_all (addFile ops) empty_bundle (dp_files plan) lm = (e1, b1, lm1)" by (metis prod.exhaust)
  obtain e2 b2 lm2 where s2: "add_all (addRender ops env) b1 (dp_renders plan) lm1 = (e2, b2, lm2)" by (metis prod.exhaust)
  obtain e3 b3 lm3 where s3: "add_all (addEnv ops) b2 (dp_env plan) lm2 = (e3, b3, lm3)" by (metis prod.exhaust)
  note f = step_addsD [OF add_all_adds [OF addFile_adds] assms(1) s1]
  note r = step_addsD [OF add_all_adds [OF addRender_adds] conjunct1 [OF f] s2]
  note v = step_addsD [OF add_all_adds [OF addEnv_adds] conjunct1 [OF r] s3]
  have run: "build_steps ops env plan empty_bundle lm =
     (case e1 of Some x \<Rightarrow> (Some x, b1, lm1) | None \<Rightarrow>
     (case e2 of Some x \<Rightarrow> (Some x, b2, lm2) | None \<Rightarrow>
     (case e3 of Some x \<Rightarrow> (Some x, b3, lm3) | None \<Rightarrow>
     (case BuildManifest ops plan (bd_now env) of
        Inl x \<Rightarrow> (Some (HashFailed x), b3, lm3)
      | Inr m \<Rightarrow> (None, b3\<lparr>b_manifest := bd_marshal env m\<rparr>, lm3)))))"
    by (simp add: build_steps_def s1 s2 s3 split: option.split)
  show ?thesis
  proof (cases "mapR (file_contents ops obs) (dp_files plan)")
    case (Inl err)
    then show ?thesis using assms(2-4) run f by (simp add: bundle_contents_def)
  next
    case f1: (Inr fs)
    have v1: "e1 = None" "bundle_view b1 = (fs, [], concat (map pointer_contents (dp_files plan)), [])"
      using f f1 fold_files [OF mapR_length [OF f1, symmetric], of "[]" "[]" "[]" "[]"]
      by (simp_all add: bundle_view_def empty_bundle_def)
    show ?thesis
    proof (cases "mapR (render_contents ops obs env) (dp_renders plan)")
      case (Inl err)
      then show ?thesis using assms(2-4) run r v1(1) f1 by (simp add: bundle_contents_def)
    next
      case r1: (Inr rs)
      have v2: "e2 = None" "bundle_view b2 = (fs @ concat rs, [], concat (map pointer_contents (dp_files plan)), [])"
        using r r1 fold_renders [OF mapR_length [OF r1, symmetric]] by (simp_all add: v1(2))
      show ?thesis
      proof (cases "mapR (env_contents ops obs) (dp_env plan)")
        case (Inl err)
        then show ?thesis using assms(2-4) run v v1(1) v2(1) f1 r1 by (simp add: bundle_contents_def)
      next
        case e1: (Inr es)
        have v3: "e3 = None" "bundle_view b3 = (fs @ concat rs, concat es, concat (map pointer_contents (dp_files plan)), [])"
          using v e1 fold_envs [OF mapR_length [OF e1, symmetric]] by (simp_all add: v2(2))
        have o3: "owns base b3 lm3" using v by simp
        show ?thesis
        proof (cases "BuildManifest ops plan (bd_now env)")
          case (Inl x)
          then show ?thesis using assms(2-4) run v1(1) v2(1) v3 f1 r1 e1 o3 by (simp add: bundle_contents_def)
        next
          case (Inr m)
          then have "e = None" "b = b3\<lparr>b_manifest := bd_marshal env m\<rparr>" "lm' = lm3"
            using assms(2) run v1(1) v2(1) v3(1) by simp_all
          then show ?thesis using assms(3,4) v3(2) f1 r1 e1 Inr manifest_owns [OF o3]
            by (simp add: bundle_contents_def bundle_view_def)
        qed
      qed
    qed
  qed
qed

lemma BuildBundle_refines:
  assumes "mem_ok lm" "BuildBundle ops env caller plan lm = (r, lm')"
  shows "case bundle_contents ops obs env caller plan of
      Inl err \<Rightarrow> r = Inl err \<and> lm_live lm' = lm_live lm
    | Inr c \<Rightarrow> \<exists>b. r = Inr b \<and> bundle_view b = c \<and> owns (lm_live lm) b lm'"
proof (cases "checkScope caller plan")
  case (Some e)
  then show ?thesis using assms(2) by (simp add: BuildBundle_def bundle_contents_def)
next
  case sc: None
  show ?thesis
  proof (cases "checkEnvGate plan")
    case (Some e)
    then show ?thesis using assms(2) sc by (simp add: BuildBundle_def bundle_contents_def)
  next
    case None
    obtain e b lm1 where s: "build_steps ops env plan empty_bundle lm = (e, b, lm1)" by (metis prod.exhaust)
    note bs = build_steps_adds [OF owns_empty [OF assms(1)] s sc None]
    then show ?thesis
      using assms(2) owns_Destroy [OF conjunct1 [OF bs]]
      by (auto simp: BuildBundle_def sc None s split: sum.splits)
  qed
qed

end

lemma BuildBundle_config:
  assumes "mem_ok lm" "BuildBundle (config_ops oe) env caller plan lm = (r, lm')"
  defines "an \<equiv> \<lparr>an_keys = op_keys_of (oe_sops oe), an_value = op_value_of (oe_sops oe), an_payload = op_payload_of (oe_sops oe)\<rparr>"
  shows "case bundle_contents (config_ops oe) an env caller plan of
      Inl err \<Rightarrow> r = Inl err \<and> lm_live lm' = lm_live lm
    | Inr c \<Rightarrow> \<exists>b. r = Inr b \<and> bundle_view b = c \<and> owns (lm_live lm) b lm'"
  using cfg.BuildBundle_refines [OF assms(1,2)] by (simp add: an_def cfg.obs_def)


section \<open>Manifests record every target with the hash of its source\<close>

definition hashes_ok :: "'h source_ops \<Rightarrow> (string \<rightharpoonup> string) \<Rightarrow> bool" where
  "hashes_ok ops hs \<longleftrightarrow> (\<forall>s h. hs s = Some h \<longrightarrow> so_cipher_hash ops s = Inr h)"

lemma hashOf_spec:
  "hashes_ok ops hs \<Longrightarrow> hashOf ops hs s =
     tryR (so_cipher_hash ops s) (\<lambda>h. Inr (h, if hs s = None then hs(s \<mapsto> h) else hs))"
  by (auto simp: hashOf_def hashes_ok_def split: option.split)

lemma hash_loop:
  assumes "foldR (\<lambda>(hs, ms) x. tryR (hashOf ops hs (src x)) (\<lambda>(h, hs'). Inr (hs', ms @ [mk x h]))) (hs, ms) xs = Inr (hs', ms')"
    and "hashes_ok ops hs"
  shows "hashes_ok ops hs' \<and> (\<exists>rs. ms' = ms @ rs \<and>
    list_all2 (\<lambda>x r. \<exists>h. so_cipher_hash ops (src x) = Inr h \<and> r = mk x h) xs rs)"
  using assms
proof (induction xs arbitrary: hs ms)
  case (Cons x xs)
  then obtain h where h: "so_cipher_hash ops (src x) = Inr h"
    and rest: "foldR (\<lambda>(hs, ms) x. tryR (hashOf ops hs (src x)) (\<lambda>(h, hs'). Inr (hs', ms @ [mk x h])))
      (if hs (src x) = None then hs(src x \<mapsto> h) else hs, ms @ [mk x h]) xs = Inr (hs', ms')"
    by (auto simp: hashOf_spec result_simps)
  have "hashes_ok ops (if hs (src x) = None then hs(src x \<mapsto> h) else hs)"
    using Cons.prems(2) h by (auto simp: hashes_ok_def)
  from Cons.IH [OF rest this] obtain rs where "hashes_ok ops hs'" "ms' = (ms @ [mk x h]) @ rs"
    "list_all2 (\<lambda>x r. \<exists>h. so_cipher_hash ops (src x) = Inr h \<and> r = mk x h) xs rs" by blast
  then show ?case using h by (intro conjI exI [of _ "mk x h # rs"]) simp_all
qed simp

lemma BuildManifest_spec:
  assumes "BuildManifest ops plan now = Inr m"
  shows "mn_version m = 1 \<and> mn_container m = dp_container plan \<and> mn_service m = dp_service plan
    \<and> mn_mechanism m = dp_mechanism plan \<and> mn_generated m = now
    \<and> list_all2 (\<lambda>ft r. \<exists>h. so_cipher_hash ops (ft_source ft) = Inr h \<and> r = manifest_file_of ft h) (dp_files plan) (mn_files m)
    \<and> list_all2 (\<lambda>rt r. \<exists>h. so_cipher_hash ops (rt_source rt) = Inr h \<and> r = manifest_render_of rt h) (dp_renders plan) (mn_renders m)
    \<and> list_all2 (\<lambda>et r. \<exists>h. so_cipher_hash ops (et_source et) = Inr h \<and> r = manifest_env_of et h) (dp_env plan) (mn_env m)"
proof -
  obtain hs1 fs hs2 rs hs3 es where
    f: "foldR (\<lambda>(hs, ms) ft. tryR (hashOf ops hs (ft_source ft)) (\<lambda>(h, hs'). Inr (hs', ms @ [manifest_file_of ft h])))
      (Map.empty, []) (dp_files plan) = Inr (hs1, fs)" and
    r: "foldR (\<lambda>(hs, ms) rt. tryR (hashOf ops hs (rt_source rt)) (\<lambda>(h, hs'). Inr (hs', ms @ [manifest_render_of rt h])))
      (hs1, []) (dp_renders plan) = Inr (hs2, rs)" and
    e: "foldR (\<lambda>(hs, ms) et. tryR (hashOf ops hs (et_source et)) (\<lambda>(h, hs'). Inr (hs', ms @ [manifest_env_of et h])))
      (hs2, []) (dp_env plan) = Inr (hs3, es)" and
    m: "m = \<lparr>mn_version = manifestVersion, mn_container = dp_container plan, mn_service = dp_service plan,
       mn_mechanism = dp_mechanism plan, mn_generated = now, mn_files = fs, mn_renders = rs, mn_env = es\<rparr>"
    using assms by (auto simp: BuildManifest_def result_simps)
  have h0: "hashes_ok ops Map.empty" by (simp add: hashes_ok_def)
  note l1 = hash_loop [OF f h0]
  note l2 = hash_loop [OF r conjunct1 [OF l1]]
  note l3 = hash_loop [OF e conjunct1 [OF l2]]
  from l1 l2 l3 show ?thesis by (simp add: m manifestVersion_def)
qed

section \<open>A dotenv render reads like its source\<close>

lemma keys_lines_ok:
  "keys_lines ls = Some ks \<Longrightarrow> (\<And>l. l \<in> set ls \<Longrightarrow> newline \<notin> set l) \<Longrightarrow> k \<in> set ks \<Longrightarrow>
     CHR ''='' \<notin> set k \<and> newline \<notin> set k \<and> (case k of [] \<Rightarrow> True | c # _ \<Rightarrow> c \<noteq> CHR ''#'')"
proof (induction ls arbitrary: ks)
  case (Cons l ls)
  have nl: "newline \<notin> set l" using Cons.prems(2) by simp
  show ?case
  proof (cases "isBlankOrComment l")
    case True
    then show ?thesis using Cons by auto
  next
    case False
    obtain k1 v1 ks1 where d: "dotenvLineKey l = Some (k1, v1)" "keys_lines ls = Some ks1" "ks = k1 # ks1"
      using Cons.prems(1) False by (auto split: option.splits)
    obtain i where i: "index_byte l CHR ''='' = Some i" "k1 = take i l"
      using d(1) by (auto simp: dotenvLineKey_def split: option.splits)
    have "CHR ''='' \<notin> set k1" "newline \<notin> set k1"
      using i nl by (auto simp: index_byte_Some dest: in_set_takeD)
    moreover have "case k1 of [] \<Rightarrow> True | c # _ \<Rightarrow> c \<noteq> CHR ''#''"
      using False i(2) by (cases l; cases i) (auto simp: isBlankOrComment_def)
    ultimately show ?thesis using Cons d(2,3) by auto
  qed
qed simp

lemma find_lines_value:
  "find_lines ls k = Some (Some v) \<Longrightarrow> (\<And>l. l \<in> set ls \<Longrightarrow> newline \<notin> set l) \<Longrightarrow> newline \<notin> set v"
proof (induction ls)
  case (Cons l ls)
  have "newline \<notin> set (drop n l)" for n using Cons.prems(2) [of l] by (auto dest: in_set_dropD)
  with Cons show ?case
    by (auto simp: dotenvLineKey_def split: if_split_asm option.split_asm)
qed simp

lemma render_entries_ok:
  assumes "dotenvKeys data = Some ks" "list_all2 (\<lambda>k kv. fst kv = k \<and> dotenvFind data k = Some (Some (snd kv))) ks kvs"
  shows "list_all entry_ok kvs" "map fst kvs = ks"
    "map_of kvs k = (if k \<in> set ks then the (dotenvFind data k) else None)"
proof -
  have nl: "l \<in> set (split_byte newline data) \<Longrightarrow> newline \<notin> set l" for l by (rule split_byte_parts)
  have *: "k \<in> set ks" "dotenvFind data k = Some (Some v)" if "(k, v) \<in> set kvs" for k v
    using list_all2_in2 [OF assms(2) that] by auto
  have "entry_ok (k, v)" if "(k, v) \<in> set kvs" for k v
    using keys_lines_ok [OF assms(1) [unfolded dotenvKeys_def] nl *(1) [OF that]]
      find_lines_value [OF *(2) [OF that, unfolded dotenvFind_def] nl]
    by (simp add: entry_ok_def)
  then show "list_all entry_ok kvs" by (auto simp: list_all_iff)
  show m: "map fst kvs = ks"
    using assms(2) by (induction rule: list_all2_induct) auto
  show "map_of kvs k = (if k \<in> set ks then the (dotenvFind data k) else None)"
  proof (cases "k \<in> set ks")
    case True
    then obtain v where "map_of kvs k = Some v" using m by (metis domIff dom_map_of_conv_image_fst list.set_map not_None_eq)
    with * (2) [OF map_of_SomeD [OF this]] True show ?thesis by simp
  next
    case False
    then show ?thesis using m by (metis map_of_eq_None_iff list.set_map)
  qed
qed

section \<open>Properties\<close>

definition sops_answers :: "opener_env \<Rightarrow> opened answers" where
  "sops_answers oe = \<lparr>an_keys = op_keys_of (oe_sops oe), an_value = op_value_of (oe_sops oe),
     an_payload = op_payload_of (oe_sops oe)\<rparr>"

text \<open>A sample opener: one dotenv source, decrypted by a sops that prints a fixed text.\<close>

definition sample_opener :: opener_env where
  "sample_opener = \<lparr>
     oe_cfg = \<lparr>c_age_keys = [''default'' \<mapsto> ''/keys/age''],
       c_sources = [''webapp'' \<mapsto> \<lparr>src_file = ''/src/webapp.env'', src_format = [], src_age_key = [], src_owner = [], src_access = []\<rparr>],
       c_defaults = \<lparr>def_delivery = [], def_mode = []\<rparr>, c_globals = empty_globals\<rparr>,
     oe_sops = \<lparr>io_run = (\<lambda>argv env. \<lparr>so_start_err = None, so_out = ''PW=s3=x'' @ [newline], so_stderr = [],
          so_copy_err = None, so_wait_err = None, so_flush_err = None\<rparr>),
       io_exists = (\<lambda>p. True), io_path = [], io_chunk = 16\<rparr>,
     oe_read_cipher = (\<lambda>p. Some ''cipher''), oe_sha256_hex = (\<lambda>d. ''00'')\<rparr>"

definition sample_dplan :: dplan where
  "sample_dplan = \<lparr>dp_container = ''c1'', dp_service = ''webapp'', dp_mechanism = MechClient,
     dp_files = [\<lparr>ft_name = ''pw'', ft_source = ''webapp'', ft_format = FormatDotenv, ft_whole = False, ft_key = ''PW'',
        ft_path = ''/run/berm/pw'', ft_owner = ''0:0'', ft_mode = ''0400'', ft_pointer_var = ''PW_FILE''\<rparr>],
     dp_env = [\<lparr>et_var = [], et_source = ''webapp'', et_key = [], et_all = True\<rparr>],
     dp_renders = [], dp_env_exposure = True\<rparr>"

definition sample_benv :: build_env where
  "sample_benv = \<lparr>bd_now = ''t'', bd_marshal = (\<lambda>m. mn_container m), bd_flush_fails = (\<lambda>s. False)\<rparr>"

lemma sample_contents:
  "bundle_contents (config_ops sample_opener) (sops_answers sample_opener) sample_benv ''webapp'' sample_dplan =
     Inr ([(''/run/berm/pw'', ''0:0'', ''0400'', ''s3=x'')], [(''PW'', ''s3=x'')], [(''PW_FILE'', ''/run/berm/pw'')], ''c1'')"
  by code_simp

text \<open>
  C9: the handler builds exactly what the plan asks for. Its result, error or bundle, is that of a
  reference that knows nothing of locked memory: each file, render and env variable of the plan with the
  decrypted value of its source, the pointers, the manifest. On an error no locked buffer is left
  behind; on success every secret of the bundle is backed by a live buffer the bundle owns.
\<close>

theorem BuildBundle_exact:
  assumes "mem_ok lm" "BuildBundle (config_ops oe) env caller plan lm = (r, lm')"
  shows "case bundle_contents (config_ops oe) (sops_answers oe) env caller plan of
      Inl err \<Rightarrow> r = Inl err \<and> lm_live lm' = lm_live lm
    | Inr c \<Rightarrow> \<exists>b. r = Inr b \<and> bundle_view b = c \<and> owns (lm_live lm) b lm'"
  using BuildBundle_config [OF assms] by (simp add: sops_answers_def)

theorem BuildBundle_exact_witness:
  "\<exists>b. fst (BuildBundle (config_ops sample_opener) sample_benv ''webapp'' sample_dplan \<lparr>lm_next = 0, lm_live = []\<rparr>) = Inr b
    \<and> bundle_view b = ([(''/run/berm/pw'', ''0:0'', ''0400'', ''s3=x'')], [(''PW'', ''s3=x'')], [(''PW_FILE'', ''/run/berm/pw'')], ''c1'')"
proof -
  let ?lm = "\<lparr>lm_next = 0, lm_live = []\<rparr>"
  obtain r lm' where r: "BuildBundle (config_ops sample_opener) sample_benv ''webapp'' sample_dplan ?lm = (r, lm')"
    by (metis prod.exhaust)
  have "mem_ok ?lm" by (simp add: mem_ok_def)
  from BuildBundle_exact [OF this r] r show ?thesis by (auto simp: sample_contents)
qed

text \<open>
  no caller gets another service's bundle, and no env leaves on a mechanism that cannot set it.
  When the authenticated service is not the plan's (both being set), or the plan has env deliveries and another
  mechanism than client, the handler refuses and does not touch a source or locked memory.
\<close>

theorem BuildBundle_gates:
  assumes "caller \<noteq> dp_service plan \<and> caller \<noteq> [] \<and> dp_service plan \<noteq> []
    \<or> dp_env plan \<noteq> [] \<and> dp_mechanism plan \<noteq> MechClient"
  shows "\<exists>e. BuildBundle ops env caller plan lm = (Inl e, lm)"
  using assms by (auto simp: BuildBundle_def checkScope_def checkEnvGate_def EnvAllowed_def)

theorem BuildBundle_gates_witness:
  "\<exists>e. BuildBundle (config_ops sample_opener) sample_benv ''intruder'' sample_dplan \<lparr>lm_next = 0, lm_live = []\<rparr>
     = (Inl e, \<lparr>lm_next = 0, lm_live = []\<rparr>)"
  by (rule BuildBundle_gates) (simp add: sample_dplan_def)

text \<open>
  the manifest tells of every target. It lists the files, renders and env variables of the plan, each
  in order and with its own names and paths, and with the hash of its source's ciphertext; the cache
  of hashes never mixes two sources up.
\<close>

theorem BuildManifest_complete:
  assumes "BuildManifest ops plan now = Inr m"
  shows "mn_version m = 1 \<and> mn_container m = dp_container plan \<and> mn_service m = dp_service plan
    \<and> list_all2 (\<lambda>ft r. \<exists>h. so_cipher_hash ops (ft_source ft) = Inr h \<and> r = manifest_file_of ft h) (dp_files plan) (mn_files m)
    \<and> list_all2 (\<lambda>rt r. \<exists>h. so_cipher_hash ops (rt_source rt) = Inr h \<and> r = manifest_render_of rt h) (dp_renders plan) (mn_renders m)
    \<and> list_all2 (\<lambda>et r. \<exists>h. so_cipher_hash ops (et_source et) = Inr h \<and> r = manifest_env_of et h) (dp_env plan) (mn_env m)"
  using BuildManifest_spec [OF assms] by blast

theorem BuildManifest_complete_witness:
  "\<exists>m. BuildManifest (config_ops sample_opener) sample_dplan ''t'' = Inr m \<and> length (mn_files m) = 1"
proof -
  have "case BuildManifest (config_ops sample_opener) sample_dplan ''t'' of Inl e \<Rightarrow> False | Inr m \<Rightarrow> True"
    by code_simp
  then obtain m where m: "BuildManifest (config_ops sample_opener) sample_dplan ''t'' = Inr m"
    by (auto split: sum.splits)
  with BuildManifest_complete [OF m] show ?thesis
    by (auto simp: sample_dplan_def dest: list_all2_lengthD)
qed

text \<open>
  a dotenv render is as good as its source. The text rendered from the listed keys of a source
  and their values parses, lists the same keys, and gives for each name the value the source gives.
\<close>

theorem dotenv_render_faithful:
  assumes "dotenvKeys data = Some ks"
    and "list_all2 (\<lambda>k kv. fst kv = k \<and> dotenvFind data k = Some (Some (snd kv))) ks kvs"
  shows "dotenvKeys (dotenv_text kvs) = Some ks
    \<and> (\<forall>k. dotenvFind (dotenv_text kvs) k = (if k \<in> set ks then dotenvFind data k else Some None))"
proof -
  note r = render_entries_ok [OF assms]
  have "dotenvKeys (dotenv_text kvs) = Some (map fst kvs)"
    unfolding dotenvKeys_def split_dotenv_text [OF r(1)] by (rule keys_entries [OF r(1)])
  moreover have "dotenvFind (dotenv_text kvs) k = Some (map_of kvs k)" for k
    unfolding dotenvFind_def split_dotenv_text [OF r(1)] by (rule find_entries [OF r(1)])
  moreover have "k \<in> set ks \<Longrightarrow> dotenvFind data k = Some (the (dotenvFind data k))" for k
    by (auto dest!: keys_find_value [OF assms(1)])
  ultimately show ?thesis by (simp add: r(2,3))
qed

theorem dotenv_render_faithful_witness:
  "dotenvFind (dotenv_text [(''A'', ''1=2''), (''A'', ''1=2'')]) ''A'' = Some (Some ''1=2'')"
proof -
  let ?data = "''#c'' @ [newline] @ ''A=1=2'' @ [newline] @ ''A=3''"
  have k: "dotenvKeys ?data = Some [''A'', ''A'']" by code_simp
  have f: "dotenvFind ?data ''A'' = Some (Some ''1=2'')" by code_simp
  from dotenv_render_faithful [OF k, of "[(''A'', ''1=2''), (''A'', ''1=2'')]"] f show ?thesis by simp
qed

end
