(* ===== verification/Label_Ref.thy ===== *)
theory Label_Ref
  imports Delivery_Types
begin

text \<open>
  The label model (\<open>internal/label/label.go\<close>), the classified errors
  (\<open>internal/label/errors.go\<close>) and the reference grammar (\<open>internal/label/ref.go\<close>).
\<close>

section \<open>Classified errors\<close>

datatype label_class =
  ClassUnknownSuffix
| ClassCrossPrefixConflict
| ClassWrongRefShape
| ClassMissingSource
| ClassUngrantedRef
| ClassEnvNoAck
| ClassEnvWrongMechanism
| ClassAllCrossService
| ClassRotateReserved
| ClassMalformed
| ClassBadConfig

fun class_sticky :: "label_class \<Rightarrow> bool" where
  "class_sticky ClassMissingSource = True"
| "class_sticky ClassUngrantedRef = True"
| "class_sticky ClassEnvNoAck = True"
| "class_sticky _ = False"

fun class_string :: "label_class \<Rightarrow> string" where
  "class_string ClassUnknownSuffix = ''unknown_suffix''"
| "class_string ClassCrossPrefixConflict = ''cross_prefix_conflict''"
| "class_string ClassWrongRefShape = ''wrong_ref_shape''"
| "class_string ClassMissingSource = ''missing_source''"
| "class_string ClassUngrantedRef = ''ungranted_ref''"
| "class_string ClassEnvNoAck = ''env_no_acknowledge''"
| "class_string ClassEnvWrongMechanism = ''env_wrong_mechanism''"
| "class_string ClassAllCrossService = ''all_cross_service''"
| "class_string ClassRotateReserved = ''rotate_reserved''"
| "class_string ClassMalformed = ''malformed''"
| "class_string ClassBadConfig = ''bad_config''"

record label_error =
  le_class :: label_class
  le_message :: msg
  le_fields :: smap

definition newError :: "label_class \<Rightarrow> smap \<Rightarrow> string \<Rightarrow> string list \<Rightarrow> label_error" where
  "newError c flds fmt args = \<lparr>le_class = c, le_message = Msg fmt args, le_fields = flds\<rparr>"

lemma newError_sel [simp]:
  "le_class (newError c flds fmt args) = c"
  "le_fields (newError c flds fmt args) = flds"
  "le_message (newError c flds fmt args) = Msg fmt args"
  by (simp_all add: newError_def)

definition le_sticky :: "label_error \<Rightarrow> bool" where
  "le_sticky e = class_sticky (le_class e)"

text \<open>\<open>(*Error).Error\<close>: the fields in sorted key order, so the text is the same on every run.\<close>

fun join_with :: "string \<Rightarrow> string list \<Rightarrow> string" where
  "join_with sep [] = []"
| "join_with sep [x] = x"
| "join_with sep (x # y # ys) = x @ sep @ join_with sep (y # ys)"

definition error_string :: "(msg \<Rightarrow> string) \<Rightarrow> label_error \<Rightarrow> string" where
  "error_string render e =
     (if le_fields e = []
      then ''berm: '' @ class_string (le_class e) @ '': '' @ render (le_message e)
      else ''berm: '' @ class_string (le_class e) @ '': '' @ render (le_message e) @ '' (''
           @ join_with '' '' (map (\<lambda>k. k @ ''='' @ sget (le_fields e) k) (sorted_keys (le_fields e)))
           @ '')'')"

lemma class_string_inj: "class_string c = class_string d \<Longrightarrow> c = d"
  by (cases c; cases d) simp_all

section \<open>References\<close>

datatype ref_kind = RefKey | RefSourceKey | RefSource

record ref =
  r_kind :: ref_kind
  r_source :: string
  r_key :: string

definition zero_ref :: ref where
  "zero_ref = \<lparr>r_kind = RefKey, r_source = [], r_key = []\<rparr>"

definition is_AZ :: "char \<Rightarrow> bool" where
  "is_AZ c = (let n = (of_char c :: nat) in 65 \<le> n \<and> n \<le> 90)"

definition is_az :: "char \<Rightarrow> bool" where
  "is_az c = (let n = (of_char c :: nat) in 97 \<le> n \<and> n \<le> 122)"

definition is_digit :: "char \<Rightarrow> bool" where
  "is_digit c = (let n = (of_char c :: nat) in 48 \<le> n \<and> n \<le> 57)"

lemma is_digit_code [code]: "is_digit c \<longleftrightarrow> 48 \<le> (of_char c :: int) \<and> (of_char c :: int) \<le> 57"
proof -
  have "(of_char c :: int) = int (of_char c :: nat)" by (rule of_nat_of_char [symmetric])
  then show ?thesis unfolding is_digit_def Let_def by linarith
qed

lemmas char_class_defs = is_AZ_def is_az_def is_digit_def

text \<open>\<open>^[A-Z_][A-Z0-9_]*$\<close>\<close>

fun isKey :: "string \<Rightarrow> bool" where
  "isKey [] = False"
| "isKey (c # s) =
     ((is_AZ c \<or> c = CHR ''_'') \<and> list_all (\<lambda>d. is_AZ d \<or> is_digit d \<or> d = CHR ''_'') s)"

text \<open>\<open>^[a-z0-9]([a-z0-9-]*[a-z0-9])?$\<close>\<close>

fun isSource :: "string \<Rightarrow> bool" where
  "isSource [] = False"
| "isSource (c # s) =
     ((is_az c \<or> is_digit c) \<and>
      (s = [] \<or> (list_all (\<lambda>d. is_az d \<or> is_digit d \<or> d = CHR ''-'') (butlast s)
               \<and> (is_az (last s) \<or> is_digit (last s)))))"

definition ParseRef :: "string \<Rightarrow> label_error + ref" where
  "ParseRef s =
     (if s = [] then Inl (newError ClassMalformed [(''ref'', s)] ''empty secret reference'' [])
      else case index_byte s CHR ''/'' of
        Some i \<Rightarrow>
          if index_byte (drop (i + 1) s) CHR ''/'' \<noteq> None
          then Inl (newError ClassMalformed [(''ref'', s)]
                      ''secret reference has more than one %q separator'' [''/''])
          else let source = take i s; key = drop (i + 1) s in
            if \<not> isSource source \<or> \<not> isKey key
            then Inl (newError ClassMalformed [(''ref'', s)] ''malformed source/KEY reference'' [])
            else Inr \<lparr>r_kind = RefSourceKey, r_source = source, r_key = key\<rparr>
      | None \<Rightarrow>
          if isKey s then Inr \<lparr>r_kind = RefKey, r_source = [], r_key = s\<rparr>
          else if isSource s then Inr \<lparr>r_kind = RefSource, r_source = s, r_key = []\<rparr>
          else Inl (newError ClassMalformed [(''ref'', s)] ''malformed secret reference'' []))"

text \<open>The grammar of the comments, \<open>ref := KEY | source "/" KEY | source\<close>, as a specification.\<close>

fun ref_text :: "ref \<Rightarrow> string" where
  "ref_text r = (case r_kind r of
      RefKey \<Rightarrow> r_key r
    | RefSourceKey \<Rightarrow> r_source r @ ''/'' @ r_key r
    | RefSource \<Rightarrow> r_source r)"

definition wf_ref :: "ref \<Rightarrow> bool" where
  "wf_ref r = (case r_kind r of
      RefKey \<Rightarrow> r_source r = [] \<and> isKey (r_key r)
    | RefSourceKey \<Rightarrow> isSource (r_source r) \<and> isKey (r_key r)
    | RefSource \<Rightarrow> isSource (r_source r) \<and> r_key r = [])"

lemma isKey_no_slash: "isKey s \<Longrightarrow> CHR ''/'' \<notin> set s"
  by (cases s) (auto simp: list_all_iff char_class_defs)

lemma isSource_no_slash: "isSource s \<Longrightarrow> CHR ''/'' \<notin> set s"
proof (cases s)
  case (Cons c t)
  assume "isSource s"
  with Cons show ?thesis
    by (cases t rule: rev_cases) (auto simp: list_all_iff char_class_defs)
qed simp

text \<open>The two character classes never overlap, which is why one separator is unambiguous.\<close>

lemma isKey_not_isSource: "isKey s \<Longrightarrow> \<not> isSource s"
  by (cases s) (auto simp: char_class_defs Let_def)

lemma isKey_not_Nil: "isKey s \<Longrightarrow> s \<noteq> []"
  by auto

lemma isSource_not_Nil: "isSource s \<Longrightarrow> s \<noteq> []"
  by auto

lemma ParseRef_sound: "ParseRef s = Inr r \<Longrightarrow> wf_ref r \<and> ref_text r = s"
proof -
  assume p: "ParseRef s = Inr r"
  show ?thesis
  proof (cases "index_byte s CHR ''/''")
    case None
    with p show ?thesis
      by (auto simp: ParseRef_def wf_ref_def split: if_splits)
  next
    case (Some i)
    then have "s = take i s @ ''/'' @ drop (Suc i) s"
      using id_take_nth_drop [of i s] by (auto simp: index_byte_Some)
    with p Some show ?thesis
      by (auto simp: ParseRef_def wf_ref_def Let_def split: if_splits)
  qed
qed

lemma ParseRef_complete: "wf_ref r \<Longrightarrow> ParseRef (ref_text r) = Inr r"
proof (cases "r_kind r")
  case RefKey
  assume "wf_ref r"
  with RefKey have k: "isKey (r_key r)" "r_source r = []" by (auto simp: wf_ref_def)
  then have "index_byte (r_key r) CHR ''/'' = None"
    by (simp add: index_byte_None isKey_no_slash)
  with k RefKey show ?thesis
    by (cases r) (auto simp: ParseRef_def)
next
  case RefSource
  assume "wf_ref r"
  with RefSource have k: "isSource (r_source r)" "r_key r = []" by (auto simp: wf_ref_def)
  then have "index_byte (r_source r) CHR ''/'' = None" "\<not> isKey (r_source r)"
    by (auto simp: index_byte_None isSource_no_slash dest: isKey_not_isSource)
  with k RefSource show ?thesis
    by (cases r) (auto simp: ParseRef_def)
next
  case RefSourceKey
  assume "wf_ref r"
  with RefSourceKey have k: "isSource (r_source r)" "isKey (r_key r)" by (auto simp: wf_ref_def)
  then have "index_byte (r_source r @ CHR ''/'' # r_key r) CHR ''/'' = Some (length (r_source r))"
    by (intro index_byte_split isSource_no_slash)
  moreover from k have "index_byte (r_key r) CHR ''/'' = None"
    by (simp add: index_byte_None isKey_no_slash)
  ultimately show ?thesis
    using k RefSourceKey by (cases r) (auto simp: ParseRef_def Let_def)
qed

lemma ParseRef_error_class: "ParseRef s = Inl e \<Longrightarrow> le_class e = ClassMalformed"
  by (auto simp: ParseRef_def Let_def split: if_splits option.splits)

lemma ParseRef_kind_key: "ParseRef s = Inr r \<Longrightarrow> r_kind r \<noteq> RefSource \<Longrightarrow> isKey (r_key r)"
  by (drule ParseRef_sound) (auto simp: wf_ref_def split: ref_kind.splits)

section \<open>Deliveries and the container spec\<close>

record env_delivery =
  ed_var :: string
  ed_ref :: ref
  ed_all :: bool

record file_delivery =
  fd_name :: string
  fd_from :: ref
  fd_path :: string
  fd_owner :: string
  fd_mode :: string

record container_spec =
  sp_enabled :: bool
  sp_name :: string
  sp_source :: string
  sp_delivery :: mechanism
  sp_volume :: string
  sp_env_ack :: bool
  sp_env :: "env_delivery list"
  sp_files :: "file_delivery list"
  sp_dotenv :: string
  sp_envdir :: string
  sp_owner :: string
  sp_mode :: string

definition zero_spec :: container_spec where
  "zero_spec = \<lparr>sp_enabled = False, sp_name = [], sp_source = [], sp_delivery = [],
     sp_volume = [], sp_env_ack = False, sp_env = [], sp_files = [], sp_dotenv = [],
     sp_envdir = [], sp_owner = [], sp_mode = []\<rparr>"

end
