(* ===== verification/Label_Parse.thy ===== *)
theory Label_Parse
  imports Label_Ref
begin

text \<open>
  The label parser (\<open>internal/label/parse.go\<close>): the merge of the two prefixes, the walk
  over the sorted suffixes, and the container spec it builds. The labels of a container
  are a Go map; the list order stands for the iteration order of one run.
\<close>

section \<open>Patterns\<close>

text \<open>\<open>^[0-9]+(:[0-9]+)?$\<close> and \<open>^[0-7]{3,4}$\<close>\<close>

definition digits1 :: "string \<Rightarrow> bool" where
  "digits1 s \<longleftrightarrow> s \<noteq> [] \<and> list_all is_digit s"

definition ownerPattern :: "string \<Rightarrow> bool" where
  "ownerPattern s =
     (case index_byte s CHR '':'' of
        None \<Rightarrow> digits1 s
      | Some i \<Rightarrow> digits1 (take i s) \<and> digits1 (drop (Suc i) s))"

definition is_octal :: "char \<Rightarrow> bool" where
  "is_octal c = (let n = (of_char c :: nat) in 48 \<le> n \<and> n \<le> 55)"

definition modePattern :: "string \<Rightarrow> bool" where
  "modePattern s \<longleftrightarrow> (length s = 3 \<or> length s = 4) \<and> list_all is_octal s"

definition fileAttrs :: "string list" where
  "fileAttrs = [''from'', ''path'', ''owner'', ''mode'']"

section \<open>The two doorways\<close>

definition PrimaryPrefix :: string where "PrimaryPrefix = ''berm.''"
definition AliasPrefix :: string where "AliasPrefix = ''tagwright.secret.''"

definition doorway :: "string \<Rightarrow> string option" where
  "doorway k =
     (if has_prefix k PrimaryPrefix then Some (trim_prefix k PrimaryPrefix)
      else if has_prefix k AliasPrefix then Some (trim_prefix k AliasPrefix)
      else None)"

definition merge_step :: "smap \<Rightarrow> string \<times> string \<Rightarrow> label_error + smap" where
  "merge_step merged kv =
     (case doorway (fst kv) of
        None \<Rightarrow> Inr merged
      | Some suffix \<Rightarrow>
          (case map_of merged suffix of
             Some prev \<Rightarrow>
               if prev \<noteq> snd kv
               then Inl (newError ClassCrossPrefixConflict [(''suffix'', suffix)]
                      ''suffix %q has different values under the primary and alias prefixes'' [suffix])
               else Inr (AList.update suffix (snd kv) merged)
           | None \<Rightarrow> Inr (AList.update suffix (snd kv) merged)))"

definition mergeDoorways :: "smap \<Rightarrow> label_error + smap" where
  "mergeDoorways labels = foldR merge_step [] labels"

section \<open>Values\<close>

text \<open>\<open>parseEnvList\<close>: \<open>strings.Split(val, ",")\<close>, each part trimmed, empty parts skipped.\<close>

definition env_part :: "string \<Rightarrow> label_error + env_delivery" where
  "env_part part =
     tryR (ParseRef part) (\<lambda>r.
       if r_kind r = RefSource
       then Inl (newError ClassWrongRefShape [(''ref'', part)]
              ''env ref %q names a whole source with no key, but an env var needs a key'' [part])
       else Inr \<lparr>ed_var = r_key r, ed_ref = r, ed_all = False\<rparr>)"

definition parseEnvList :: "string \<Rightarrow> label_error + env_delivery list" where
  "parseEnvList val =
     (if val = ''all'' then Inr [\<lparr>ed_var = [], ed_ref = zero_ref, ed_all = True\<rparr>]
      else mapR env_part (filter (\<lambda>p. p \<noteq> []) (map trim_space (split_byte CHR '','' val))))"

definition parseEnvVar :: "string \<Rightarrow> string \<Rightarrow> label_error + env_delivery" where
  "parseEnvVar varName val =
     (if varName = []
      then Inl (newError ClassUnknownSuffix [(''suffix'', ''env.'')]
             ''berm.env. has an empty variable name'' [])
      else tryR (ParseRef val) (\<lambda>r.
        if r_kind r = RefSource
        then Inl (newError ClassWrongRefShape [(''ref'', val), (''var'', varName)]
               ''env ref %q names a whole source with no key, but an env var needs a key'' [val])
        else Inr \<lparr>ed_var = varName, ed_ref = r, ed_all = False\<rparr>))"

text \<open>\<open>parseFile\<close>: the entry of the delivery name, created when absent, and the switch over the attribute.\<close>

definition file_entry :: "(string, file_delivery) gomap \<Rightarrow> string \<Rightarrow> file_delivery" where
  "file_entry files name =
     (case map_of files name of
        Some fd \<Rightarrow> fd
      | None \<Rightarrow> \<lparr>fd_name = name, fd_from = zero_ref, fd_path = [], fd_owner = [], fd_mode = []\<rparr>)"

definition set_file_attr :: "file_delivery \<Rightarrow> string \<Rightarrow> string \<Rightarrow> string \<Rightarrow> label_error + file_delivery" where
  "set_file_attr fd name attr val =
     (if attr = ''from'' then tryR (ParseRef val) (\<lambda>r. Inr (fd\<lparr>fd_from := r\<rparr>))
      else if attr = ''path'' then
        (if \<not> has_prefix val ''/''
         then Inl (newError ClassMalformed [(''berm.file.'' @ name @ ''.path'', val)]
                ''berm.file.%s.path must be an absolute path'' [name])
         else Inr (fd\<lparr>fd_path := val\<rparr>))
      else if attr = ''owner'' then
        (if \<not> ownerPattern val
         then Inl (newError ClassMalformed [(''berm.file.'' @ name @ ''.owner'', val)]
                ''berm.file.%s.owner must be numeric uid[:gid]'' [name])
         else Inr (fd\<lparr>fd_owner := val\<rparr>))
      else if attr = ''mode'' then
        (if \<not> modePattern val
         then Inl (newError ClassMalformed [(''berm.file.'' @ name @ ''.mode'', val)]
                ''berm.file.%s.mode must be an octal string'' [name])
         else Inr (fd\<lparr>fd_mode := val\<rparr>))
      else Inr fd)"

definition parseFile ::
  "(string, file_delivery) gomap \<Rightarrow> string \<Rightarrow> string \<Rightarrow> label_error + (string, file_delivery) gomap" where
  "parseFile files rest val =
     (case last_index_byte rest CHR ''.'' of
        None \<Rightarrow> Inl (newError ClassUnknownSuffix [(''suffix'', ''file.'' @ rest)]
                  ''berm.file.%s has no attribute'' [rest])
      | Some i \<Rightarrow>
          let name = take i rest; attr = drop (i + 1) rest in
          if name = [] \<or> CHR ''/'' \<in> set name
          then Inl (newError ClassUnknownSuffix [(''suffix'', ''file.'' @ rest)]
                 ''berm.file delivery name %q is invalid'' [name])
          else if attr \<notin> set fileAttrs
          then Inl (newError ClassUnknownSuffix [(''suffix'', ''file.'' @ rest)]
                 ''unknown berm.file attribute %q (want from, path, owner, or mode)'' [attr])
          else tryR (set_file_attr (file_entry files name) name attr val)
                 (\<lambda>fd. Inr (AList.update name fd files)))"

section \<open>The walk over the suffixes\<close>

record parse_state =
  ps_spec :: container_spec
  ps_files :: "(string, file_delivery) gomap"
  ps_env_list :: "env_delivery list"
  ps_rename_env :: "env_delivery list"
  ps_has_env :: bool

definition malformed :: "string \<Rightarrow> string \<Rightarrow> string \<Rightarrow> label_error + 'a" where
  "malformed label val fmt = Inl (newError ClassMalformed [(label, val)] fmt [])"

definition parse_suffix :: "smap \<Rightarrow> parse_state \<Rightarrow> string \<Rightarrow> label_error + parse_state" where
  "parse_suffix merged st suffix =
     (let val = sget merged suffix; spec = ps_spec st in
      if suffix = ''enable'' then Inr st
      else if suffix = ''name'' then Inr (st\<lparr>ps_spec := spec\<lparr>sp_name := val\<rparr>\<rparr>)
      else if suffix = ''source'' then
        (if \<not> isSource val
         then malformed ''berm.source'' val ''berm.source is not a valid source name''
         else Inr (st\<lparr>ps_spec := spec\<lparr>sp_source := val\<rparr>\<rparr>))
      else if suffix = ''delivery'' then
        (if \<not> mech_valid val
         then malformed ''berm.delivery'' val ''berm.delivery must be one of client, hook, volume''
         else Inr (st\<lparr>ps_spec := spec\<lparr>sp_delivery := val\<rparr>\<rparr>))
      else if suffix = ''volume'' then Inr (st\<lparr>ps_spec := spec\<lparr>sp_volume := val\<rparr>\<rparr>)
      else if suffix = ''owner'' then
        (if \<not> ownerPattern val
         then malformed ''berm.owner'' val ''berm.owner must be numeric uid[:gid]''
         else Inr (st\<lparr>ps_spec := spec\<lparr>sp_owner := val\<rparr>\<rparr>))
      else if suffix = ''mode'' then
        (if \<not> modePattern val
         then malformed ''berm.mode'' val ''berm.mode must be an octal string''
         else Inr (st\<lparr>ps_spec := spec\<lparr>sp_mode := val\<rparr>\<rparr>))
      else if suffix = ''dotenv'' then
        (if \<not> has_prefix val ''/''
         then malformed ''berm.dotenv'' val ''berm.dotenv must be an absolute path''
         else Inr (st\<lparr>ps_spec := spec\<lparr>sp_dotenv := val\<rparr>\<rparr>))
      else if suffix = ''envdir'' then
        (if \<not> has_prefix val ''/''
         then malformed ''berm.envdir'' val ''berm.envdir must be an absolute path''
         else Inr (st\<lparr>ps_spec := spec\<lparr>sp_envdir := val\<rparr>\<rparr>))
      else if suffix = ''rotate'' then
        Inl (newError ClassRotateReserved [(''label'', ''berm.rotate'')]
               ''berm.rotate is reserved and rejected in v1'' [])
      else if suffix = ''env'' then
        tryR (parseEnvList val) (\<lambda>ev. Inr (st\<lparr>ps_has_env := True, ps_env_list := ev\<rparr>))
      else if suffix = ''env.acknowledge'' then
        Inr (st\<lparr>ps_spec := spec\<lparr>sp_env_ack := (val = ''true'')\<rparr>\<rparr>)
      else if has_prefix suffix ''env.'' then
        tryR (parseEnvVar (trim_prefix suffix ''env.'') val)
          (\<lambda>ed. Inr (st\<lparr>ps_has_env := True, ps_rename_env := ps_rename_env st @ [ed]\<rparr>))
      else if has_prefix suffix ''file.'' then
        tryR (parseFile (ps_files st) (trim_prefix suffix ''file.'') val)
          (\<lambda>fs. Inr (st\<lparr>ps_files := fs\<rparr>))
      else Inl (newError ClassUnknownSuffix [(''suffix'', suffix)]
                  ''unknown berm label suffix %q'' [suffix]))"

definition init_parse_state :: parse_state where
  "init_parse_state = \<lparr>ps_spec = zero_spec\<lparr>sp_enabled := True\<rparr>, ps_files = [],
     ps_env_list = [], ps_rename_env = [], ps_has_env = False\<rparr>"

definition assemble :: "parse_state \<Rightarrow> label_error + container_spec" where
  "assemble st =
     (if ps_has_env st \<and> \<not> sp_env_ack (ps_spec st)
      then Inl (newError ClassEnvNoAck []
             ''berm.env* labels require berm.env.acknowledge=true on the same container'' [])
      else Inr ((ps_spec st)\<lparr>
             sp_env := ps_env_list st @ sort_key ed_var (ps_rename_env st),
             sp_files := map (\<lambda>n. the (map_of (ps_files st) n)) (sorted_keys (ps_files st))\<rparr>))"

definition parse_merged :: "smap \<Rightarrow> label_error + container_spec" where
  "parse_merged merged =
     (if sget merged ''enable'' \<noteq> ''true'' then Inr zero_spec
      else tryR (foldR (parse_suffix merged) init_parse_state (sorted_keys merged)) assemble)"

definition Parse :: "smap \<Rightarrow> label_error + container_spec" where
  "Parse labels = tryR (mergeDoorways labels) parse_merged"

section \<open>The merge\<close>

definition doorway_conflict :: "smap \<Rightarrow> bool" where
  "doorway_conflict ls \<longleftrightarrow>
     (\<exists>kv \<in> set ls. \<exists>kv' \<in> set ls. doorway (fst kv) \<noteq> None
        \<and> doorway (fst kv) = doorway (fst kv') \<and> snd kv \<noteq> snd kv')"

lemma doorway_conflictI:
  "(k, v) \<in> set ls \<Longrightarrow> (k', v') \<in> set ls \<Longrightarrow> doorway k = Some s \<Longrightarrow> doorway k' = Some s \<Longrightarrow> v \<noteq> v'
     \<Longrightarrow> doorway_conflict ls"
  unfolding doorway_conflict_def by (metis fst_conv snd_conv option.distinct(1))

lemma mergeDoorways_snoc:
  "mergeDoorways (ls @ [kv]) = tryR (mergeDoorways ls) (\<lambda>m. merge_step m kv)"
  by (simp add: mergeDoorways_def foldR_append tryR_def split: sum.splits)

lemma mergeDoorways_Inr:
  "mergeDoorways ls = Inr m \<Longrightarrow>
     wf_map m \<and> (\<forall>s v. map_of m s = Some v \<longleftrightarrow> (\<exists>k. (k, v) \<in> set ls \<and> doorway k = Some s))"
proof (induction ls arbitrary: m rule: rev_induct)
  case Nil
  then show ?case by (simp add: mergeDoorways_def)
next
  case (snoc kv ls)
  from snoc.prems obtain m0 where m0: "mergeDoorways ls = Inr m0" "merge_step m0 kv = Inr m"
    by (auto simp: mergeDoorways_snoc result_simps)
  note IH = snoc.IH [OF m0(1)]
  obtain k v where kv: "kv = (k, v)" by (cases kv)
  show ?case
  proof (cases "doorway k")
    case None
    with m0 kv have "m = m0" by (simp add: merge_step_def)
    with IH None kv show ?thesis by auto
  next
    case (Some s)
    with m0 kv have m: "m = AList.update s v m0" and same: "\<And>u. map_of m0 s = Some u \<Longrightarrow> u = v"
      by (auto simp: merge_step_def split: option.splits if_splits)
    have "map_of m t = Some u \<longleftrightarrow> (\<exists>k'. (k', u) \<in> set (ls @ [kv]) \<and> doorway k' = Some t)" for t u
      using IH same Some kv m by (cases "t = s") auto
    with IH m show ?thesis by auto
  qed
qed

lemma mergeDoorways_Inl:
  "mergeDoorways ls = Inl e \<Longrightarrow> le_class e = ClassCrossPrefixConflict \<and> doorway_conflict ls"
proof (induction ls arbitrary: e rule: rev_induct)
  case Nil
  then show ?case by (simp add: mergeDoorways_def)
next
  case (snoc kv ls)
  show ?case
  proof (cases "mergeDoorways ls")
    case (Inl e')
    with snoc show ?thesis
      by (auto simp: mergeDoorways_snoc doorway_conflict_def)
  next
    case (Inr m)
    obtain k v where kv: "kv = (k, v)" by (cases kv)
    from snoc.prems Inr kv obtain s u where
      s: "doorway k = Some s" "map_of m s = Some u" "u \<noteq> v" "le_class e = ClassCrossPrefixConflict"
      by (auto simp: mergeDoorways_snoc merge_step_def split: option.splits if_splits)
    from s(2) mergeDoorways_Inr [OF Inr] obtain k' where "(k', u) \<in> set ls" "doorway k' = Some s"
      by blast
    with s kv have "doorway_conflict (ls @ [kv])"
      by (intro doorway_conflictI [of k v _ k' u s]) auto
    with s show ?thesis by simp
  qed
qed

lemma mergeDoorways_conflict: "(\<exists>e. mergeDoorways ls = Inl e) \<longleftrightarrow> doorway_conflict ls"
proof
  assume "doorway_conflict ls"
  then obtain k v k' v' s where
    c: "(k, v) \<in> set ls" "(k', v') \<in> set ls" "doorway k = Some s" "doorway k' = Some s" "v \<noteq> v'"
    unfolding doorway_conflict_def by (metis (no_types) not_None_eq prod.collapse)
  show "\<exists>e. mergeDoorways ls = Inl e"
  proof (cases "mergeDoorways ls")
    case (Inr m)
    from mergeDoorways_Inr [OF this] c have "map_of m s = Some v" "map_of m s = Some v'" by blast+
    with c(5) show ?thesis by simp
  qed simp
qed (auto dest: mergeDoorways_Inl)

lemma doorway_conflict_set: "set ls = set ls' \<Longrightarrow> doorway_conflict ls = doorway_conflict ls'"
  by (simp add: doorway_conflict_def)

lemma parse_merged_cong:
  assumes "wf_map m" "wf_map m'" "map_of m = map_of m'"
  shows "parse_merged m = parse_merged m'"
proof -
  have g: "sget m = sget m'" using assms(3) by (simp add: sget_def fun_eq_iff)
  then have "parse_suffix m = parse_suffix m'" by (simp add: parse_suffix_def fun_eq_iff)
  moreover have "sorted_keys m = sorted_keys m'"
    using assms by (intro sorted_keys_perm) auto
  ultimately show ?thesis using g by (simp add: parse_merged_def)
qed

lemma Parse_order:
  assumes "set ls = set ls'"
  shows "Parse ls = Parse ls' \<or>
    (\<exists>e e'. Parse ls = Inl e \<and> Parse ls' = Inl e' \<and>
       le_class e = ClassCrossPrefixConflict \<and> le_class e' = ClassCrossPrefixConflict)"
proof (cases "mergeDoorways ls")
  case (Inl e)
  then obtain e' where "mergeDoorways ls' = Inl e'"
    using assms mergeDoorways_conflict doorway_conflict_set by blast
  with Inl show ?thesis by (auto simp: Parse_def dest: mergeDoorways_Inl)
next
  case (Inr m)
  then obtain m' where m': "mergeDoorways ls' = Inr m'"
    using assms mergeDoorways_conflict doorway_conflict_set by (metis not_Inl_conv Inl_Inr_False)
  have "map_of m = map_of m'"
    using mergeDoorways_Inr [OF Inr] mergeDoorways_Inr [OF m'] assms
    by (metis (no_types, lifting) ext not_None_eq)
  then show ?thesis
    using mergeDoorways_Inr [OF Inr] mergeDoorways_Inr [OF m'] Inr m'
    by (simp add: Parse_def parse_merged_cong)
qed

section \<open>What one suffix does\<close>

lemmas parse_suffix_simps = parse_suffix_def Let_def malformed_def result_simps

lemma parse_suffix_fields:
  assumes "parse_suffix m st s = Inr st'"
  shows "sp_name (ps_spec st') = (if s = ''name'' then sget m s else sp_name (ps_spec st))"
    and "sp_source (ps_spec st') = (if s = ''source'' then sget m s else sp_source (ps_spec st))"
    and "sp_delivery (ps_spec st') = (if s = ''delivery'' then sget m s else sp_delivery (ps_spec st))"
    and "sp_volume (ps_spec st') = (if s = ''volume'' then sget m s else sp_volume (ps_spec st))"
    and "sp_owner (ps_spec st') = (if s = ''owner'' then sget m s else sp_owner (ps_spec st))"
    and "sp_mode (ps_spec st') = (if s = ''mode'' then sget m s else sp_mode (ps_spec st))"
    and "sp_dotenv (ps_spec st') = (if s = ''dotenv'' then sget m s else sp_dotenv (ps_spec st))"
    and "sp_envdir (ps_spec st') = (if s = ''envdir'' then sget m s else sp_envdir (ps_spec st))"
    and "sp_env_ack (ps_spec st') =
          (if s = ''env.acknowledge'' then sget m s = ''true'' else sp_env_ack (ps_spec st))"
    and "sp_enabled (ps_spec st') = sp_enabled (ps_spec st)"
  using assms by (auto simp: parse_suffix_simps split: if_split_asm)


lemma sget_notin: "k \<notin> dom (map_of m) \<Longrightarrow> sget m k = []"
  by (simp add: sget_def domIff)

text \<open>After the walk the plain fields of the spec are the values of their labels.\<close>

definition spec_reads :: "smap \<Rightarrow> string set \<Rightarrow> container_spec \<Rightarrow> bool" where
  "spec_reads m S sp \<longleftrightarrow>
     sp_enabled sp
     \<and> sp_name sp = (if ''name'' \<in> S then sget m ''name'' else [])
     \<and> sp_source sp = (if ''source'' \<in> S then sget m ''source'' else [])
     \<and> sp_delivery sp = (if ''delivery'' \<in> S then sget m ''delivery'' else [])
     \<and> sp_volume sp = (if ''volume'' \<in> S then sget m ''volume'' else [])
     \<and> sp_owner sp = (if ''owner'' \<in> S then sget m ''owner'' else [])
     \<and> sp_mode sp = (if ''mode'' \<in> S then sget m ''mode'' else [])
     \<and> sp_dotenv sp = (if ''dotenv'' \<in> S then sget m ''dotenv'' else [])
     \<and> sp_envdir sp = (if ''envdir'' \<in> S then sget m ''envdir'' else [])
     \<and> sp_env_ack sp = (''env.acknowledge'' \<in> S \<and> sget m ''env.acknowledge'' = ''true'')"

lemma parse_loop_reads_upto:
  "foldR (parse_suffix m) init_parse_state xs = Inr st \<Longrightarrow> spec_reads m (set xs) (ps_spec st)"
proof (induction xs arbitrary: st rule: rev_induct)
  case Nil
  then show ?case
    by (auto simp: init_parse_state_def zero_spec_def spec_reads_def)
next
  case (snoc s xs)
  then obtain u where u: "foldR (parse_suffix m) init_parse_state xs = Inr u" "parse_suffix m u s = Inr st"
    by (auto simp: foldR_append result_simps)
  from snoc.IH [OF u(1)] show ?case
    unfolding spec_reads_def parse_suffix_fields [OF u(2)] by (intro conjI) simp_all
qed

lemma parse_loop_reads:
  assumes "foldR (parse_suffix m) init_parse_state (sorted_keys m) = Inr st"
  shows "sp_enabled (ps_spec st)"
    and "sp_name (ps_spec st) = sget m ''name''"
    and "sp_source (ps_spec st) = sget m ''source''"
    and "sp_delivery (ps_spec st) = sget m ''delivery''"
    and "sp_volume (ps_spec st) = sget m ''volume''"
    and "sp_owner (ps_spec st) = sget m ''owner''"
    and "sp_mode (ps_spec st) = sget m ''mode''"
    and "sp_dotenv (ps_spec st) = sget m ''dotenv''"
    and "sp_envdir (ps_spec st) = sget m ''envdir''"
    and "sp_env_ack (ps_spec st) \<longleftrightarrow> sget m ''env.acknowledge'' = ''true''"
proof -
  have "spec_reads m (dom (map_of m)) (ps_spec st)"
    using parse_loop_reads_upto [OF assms] by simp
  moreover have "(if k \<in> dom (map_of m) then sget m k else []) = sget m k" for k
    by (simp add: sget_notin)
  moreover have "(k \<in> dom (map_of m) \<and> sget m k = ''true'') = (sget m k = ''true'')" for k
    by (cases "k \<in> dom (map_of m)") (simp_all add: sget_notin)
  ultimately have r: "spec_reads m UNIV (ps_spec st)"
    unfolding spec_reads_def by simp
  then show "sp_enabled (ps_spec st)"
    "sp_name (ps_spec st) = sget m ''name''"
    "sp_source (ps_spec st) = sget m ''source''"
    "sp_delivery (ps_spec st) = sget m ''delivery''"
    "sp_volume (ps_spec st) = sget m ''volume''"
    "sp_owner (ps_spec st) = sget m ''owner''"
    "sp_mode (ps_spec st) = sget m ''mode''"
    "sp_dotenv (ps_spec st) = sget m ''dotenv''"
    "sp_envdir (ps_spec st) = sget m ''envdir''"
    "sp_env_ack (ps_spec st) \<longleftrightarrow> sget m ''env.acknowledge'' = ''true''"
    unfolding spec_reads_def by simp_all
qed

section \<open>The well-formedness of a spec\<close>

definition env_ok :: "env_delivery \<Rightarrow> bool" where
  "env_ok ed \<longleftrightarrow> ed_all ed \<or>
     (ed_var ed \<noteq> [] \<and> wf_ref (ed_ref ed) \<and> r_kind (ed_ref ed) \<noteq> RefSource)"

definition file_ok :: "file_delivery \<Rightarrow> bool" where
  "file_ok fd \<longleftrightarrow> fd_name fd \<noteq> [] \<and> CHR ''/'' \<notin> set (fd_name fd)
     \<and> (fd_from fd = zero_ref \<or> wf_ref (fd_from fd))
     \<and> (fd_path fd = [] \<or> has_prefix (fd_path fd) ''/'')
     \<and> (fd_owner fd = [] \<or> ownerPattern (fd_owner fd))
     \<and> (fd_mode fd = [] \<or> modePattern (fd_mode fd))"

definition fields_ok :: "container_spec \<Rightarrow> bool" where
  "fields_ok sp \<longleftrightarrow>
     (sp_source sp = [] \<or> isSource (sp_source sp))
     \<and> (sp_delivery sp = [] \<or> mech_valid (sp_delivery sp))
     \<and> (sp_owner sp = [] \<or> ownerPattern (sp_owner sp))
     \<and> (sp_mode sp = [] \<or> modePattern (sp_mode sp))
     \<and> (sp_dotenv sp = [] \<or> has_prefix (sp_dotenv sp) ''/'')
     \<and> (sp_envdir sp = [] \<or> has_prefix (sp_envdir sp) ''/'')"

definition spec_ok :: "container_spec \<Rightarrow> bool" where
  "spec_ok sp \<longleftrightarrow> fields_ok sp
     \<and> (sp_env sp \<noteq> [] \<longrightarrow> sp_env_ack sp)
     \<and> (\<forall>ed \<in> set (sp_env sp). env_ok ed)
     \<and> (\<forall>fd \<in> set (sp_files sp). file_ok fd)
     \<and> sorted_wrt (<) (map fd_name (sp_files sp))"

definition ps_ok :: "parse_state \<Rightarrow> bool" where
  "ps_ok st \<longleftrightarrow> fields_ok (ps_spec st)
     \<and> wf_map (ps_files st)
     \<and> (\<forall>n fd. map_of (ps_files st) n = Some fd \<longrightarrow> fd_name fd = n \<and> file_ok fd)
     \<and> (\<forall>ed \<in> set (ps_env_list st). env_ok ed)
     \<and> (\<forall>ed \<in> set (ps_rename_env st). env_ok ed)
     \<and> (\<not> ps_has_env st \<longrightarrow> ps_env_list st = [] \<and> ps_rename_env st = [])"

lemma parseEnvList_ok: "parseEnvList val = Inr eds \<Longrightarrow> ed \<in> set eds \<Longrightarrow> env_ok ed"
proof (cases "val = ''all''")
  case True
  assume "parseEnvList val = Inr eds" "ed \<in> set eds"
  with True show ?thesis by (auto simp: parseEnvList_def env_ok_def)
next
  case False
  assume "parseEnvList val = Inr eds" "ed \<in> set eds"
  with False obtain p where "env_part p = Inr ed"
    by (auto simp: parseEnvList_def dest: mapR_set)
  then show ?thesis
    by (auto simp: env_part_def env_ok_def result_simps isKey_not_Nil
        dest: ParseRef_sound ParseRef_kind_key split: if_splits)
qed

lemma parseEnvVar_ok: "parseEnvVar v val = Inr ed \<Longrightarrow> env_ok ed \<and> ed_var ed = v \<and> ParseRef val = Inr (ed_ref ed)"
  by (auto simp: parseEnvVar_def env_ok_def result_simps dest: ParseRef_sound split: if_splits)

lemma set_file_attr_ok:
  "set_file_attr fd name a v = Inr fd' \<Longrightarrow> file_ok fd \<Longrightarrow> file_ok fd' \<and> fd_name fd' = fd_name fd"
  by (auto simp: set_file_attr_def file_ok_def result_simps dest: ParseRef_sound split: if_split_asm)

lemma parseFile_cases:
  assumes "parseFile files rest v = Inr files'"
  obtains n a fd where "rest = n @ ''.'' @ a" "n \<noteq> []" "CHR ''/'' \<notin> set n" "a \<in> set fileAttrs"
    "set_file_attr (file_entry files n) n a v = Inr fd" "files' = AList.update n fd files"
proof -
  from assms obtain i where i: "last_index_byte rest CHR ''.'' = Some i"
    by (auto simp: parseFile_def split: option.splits)
  then have "rest = take i rest @ ''.'' @ drop (i + 1) rest"
    using last_index_byte_Some [OF i] by simp
  moreover from assms i obtain fd where "take i rest \<noteq> []" "CHR ''/'' \<notin> set (take i rest)"
    "drop (i + 1) rest \<in> set fileAttrs" "files' = AList.update (take i rest) fd files"
    "set_file_attr (file_entry files (take i rest)) (take i rest) (drop (i + 1) rest) v = Inr fd"
    unfolding parseFile_def Let_def by (auto simp: result_simps simp del: take_eq_Nil split: if_split_asm)
  ultimately show thesis by (intro that)
qed

lemma parseFile_map:
  assumes "parseFile files rest val = Inr files'" "wf_map files"
    and "\<forall>n fd. map_of files n = Some fd \<longrightarrow> fd_name fd = n \<and> file_ok fd"
  shows "wf_map files' \<and> (\<forall>n fd. map_of files' n = Some fd \<longrightarrow> fd_name fd = n \<and> file_ok fd)"
proof -
  from assms(1) obtain n a fd where n: "n \<noteq> []" "CHR ''/'' \<notin> set n"
    "set_file_attr (file_entry files n) n a val = Inr fd" "files' = AList.update n fd files"
    by (rule parseFile_cases)
  from n(1,2) assms(3) have "file_ok (file_entry files n)" "fd_name (file_entry files n) = n"
    by (auto simp: file_entry_def file_ok_def split: option.splits)
  with set_file_attr_ok [OF n(3)] n(4) assms(2,3) show ?thesis by auto
qed

text \<open>An accepted suffix changes one of four parts of the state.\<close>

definition plain_suffixes :: "string list" where
  "plain_suffixes = [''enable'', ''name'', ''source'', ''delivery'', ''volume'', ''owner'', ''mode'',
     ''dotenv'', ''envdir'', ''env.acknowledge'']"

lemma parse_suffix_cases [consumes 1, case_names fields env_csv env_rename file_attr]:
  assumes "parse_suffix m st s = Inr st'"
  obtains sp where "st' = st\<lparr>ps_spec := sp\<rparr>" "fields_ok (ps_spec st) \<Longrightarrow> fields_ok sp"
      "s \<in> set plain_suffixes"
  | ev where "s = ''env''" "parseEnvList (sget m s) = Inr ev"
      "st' = st\<lparr>ps_has_env := True, ps_env_list := ev\<rparr>"
  | ed where "has_prefix s ''env.''" "s \<noteq> ''env.acknowledge''"
      "parseEnvVar (trim_prefix s ''env.'') (sget m s) = Inr ed"
      "st' = st\<lparr>ps_has_env := True, ps_rename_env := ps_rename_env st @ [ed]\<rparr>"
  | fs where "has_prefix s ''file.''"
      "parseFile (ps_files st) (trim_prefix s ''file.'') (sget m s) = Inr fs"
      "st' = st\<lparr>ps_files := fs\<rparr>"
proof -
  have "(\<exists>sp. st' = st\<lparr>ps_spec := sp\<rparr> \<and> (fields_ok (ps_spec st) \<longrightarrow> fields_ok sp) \<and>
          s \<in> set plain_suffixes)
    \<or> (\<exists>ev. s = ''env'' \<and> parseEnvList (sget m s) = Inr ev \<and> st' = st\<lparr>ps_has_env := True, ps_env_list := ev\<rparr>)
    \<or> (\<exists>ed. has_prefix s ''env.'' \<and> s \<noteq> ''env.acknowledge'' \<and>
         parseEnvVar (trim_prefix s ''env.'') (sget m s) = Inr ed \<and>
         st' = st\<lparr>ps_has_env := True, ps_rename_env := ps_rename_env st @ [ed]\<rparr>)
    \<or> (\<exists>fs. has_prefix s ''file.'' \<and>
         parseFile (ps_files st) (trim_prefix s ''file.'') (sget m s) = Inr fs \<and> st' = st\<lparr>ps_files := fs\<rparr>)"
    using assms unfolding parse_suffix_simps
    by (cases st, simp split: if_split_asm) (auto simp: fields_ok_def result_simps plain_suffixes_def)
  then consider
      (a) sp where "st' = st\<lparr>ps_spec := sp\<rparr>" "fields_ok (ps_spec st) \<longrightarrow> fields_ok sp" "s \<in> set plain_suffixes"
    | (b) ev where "s = ''env''" "parseEnvList (sget m s) = Inr ev"
        "st' = st\<lparr>ps_has_env := True, ps_env_list := ev\<rparr>"
    | (c) ed where "has_prefix s ''env.''" "s \<noteq> ''env.acknowledge''"
        "parseEnvVar (trim_prefix s ''env.'') (sget m s) = Inr ed"
        "st' = st\<lparr>ps_has_env := True, ps_rename_env := ps_rename_env st @ [ed]\<rparr>"
    | (d) fs where "has_prefix s ''file.''"
        "parseFile (ps_files st) (trim_prefix s ''file.'') (sget m s) = Inr fs" "st' = st\<lparr>ps_files := fs\<rparr>"
    by (elim disjE exE conjE) iprover+
  then show thesis
  proof cases
    case a
    with that(1) show ?thesis by blast
  next
    case b
    then show ?thesis by (rule that(2))
  next
    case c
    then show ?thesis by (rule that(3))
  next
    case d
    then show ?thesis by (rule that(4))
  qed
qed

lemma parse_suffix_ok:
  assumes "ps_ok st" "parse_suffix m st s = Inr st'"
  shows "ps_ok st'"
  using assms(2)
proof (cases rule: parse_suffix_cases)
  case (fields sp)
  with assms(1) show ?thesis by (simp add: ps_ok_def)
next
  case (env_csv ev)
  with assms(1) show ?thesis by (simp add: ps_ok_def parseEnvList_ok)
next
  case (env_rename ed)
  with assms(1) show ?thesis by (auto simp: ps_ok_def dest: parseEnvVar_ok)
next
  case (file_attr fs)
  with assms(1) parseFile_map [OF file_attr(2)] show ?thesis by (simp add: ps_ok_def)
qed

lemma ps_ok_init: "ps_ok init_parse_state"
  by (simp add: ps_ok_def init_parse_state_def fields_ok_def zero_spec_def)

lemma parse_loop_ok: "foldR (parse_suffix m) init_parse_state xs = Inr st \<Longrightarrow> ps_ok st"
  by (erule foldR_invariant) (simp_all add: ps_ok_init parse_suffix_ok)

lemma assemble_files:
  assumes "ps_ok st"
  shows "map fd_name (map (\<lambda>n. the (map_of (ps_files st) n)) (sorted_keys (ps_files st))) = sorted_keys (ps_files st)"
    and "fd \<in> set (map (\<lambda>n. the (map_of (ps_files st) n)) (sorted_keys (ps_files st))) \<longleftrightarrow>
           map_of (ps_files st) (fd_name fd) = Some fd"
proof -
  have *: "fd_name (the (map_of (ps_files st) n)) = n" if "n \<in> set (sorted_keys (ps_files st))" for n
    using assms that by (auto simp: ps_ok_def)
  then show "map fd_name (map (\<lambda>n. the (map_of (ps_files st) n)) (sorted_keys (ps_files st))) = sorted_keys (ps_files st)"
    unfolding map_map comp_def by (rule map_idI)
  show "fd \<in> set (map (\<lambda>n. the (map_of (ps_files st) n)) (sorted_keys (ps_files st))) \<longleftrightarrow>
      map_of (ps_files st) (fd_name fd) = Some fd"
  proof
    assume "fd \<in> set (map (\<lambda>n. the (map_of (ps_files st) n)) (sorted_keys (ps_files st)))"
    then obtain n where n: "map_of (ps_files st) n = Some fd" by auto
    with assms have "fd_name fd = n" by (simp add: ps_ok_def)
    with n show "map_of (ps_files st) (fd_name fd) = Some fd" by simp
  qed (force simp: image_iff)
qed

lemma sorted_keys_strict: "wf_map m \<Longrightarrow> sorted_wrt (<) (sorted_keys m)"
  by (simp add: strict_sorted_iff sorted_keys_def wf_map_def)

lemma assemble_ok:
  assumes "ps_ok st" "assemble st = Inr sp"
  shows "spec_ok sp"
proof -
  from assms(2) have sp: "sp = (ps_spec st)\<lparr>sp_env := ps_env_list st @ sort_key ed_var (ps_rename_env st),
      sp_files := map (\<lambda>n. the (map_of (ps_files st) n)) (sorted_keys (ps_files st))\<rparr>"
    and ack: "ps_has_env st \<longrightarrow> sp_env_ack (ps_spec st)"
    by (auto simp: assemble_def split: if_splits)
  have "sorted_wrt (<) (map fd_name (sp_files sp))"
    unfolding sp using assemble_files(1) [OF assms(1)] sorted_keys_strict [of "ps_files st"] assms(1)
    by (simp add: ps_ok_def)
  moreover have "\<forall>fd \<in> set (sp_files sp). file_ok fd"
    using assemble_files(2) [OF assms(1)] assms(1) by (auto simp: sp ps_ok_def simp del: set_map)
  moreover have "fields_ok sp"
    using assms(1) by (simp add: sp ps_ok_def fields_ok_def)
  moreover have "sp_env sp \<noteq> [] \<longrightarrow> sp_env_ack sp" "\<forall>ed \<in> set (sp_env sp). env_ok ed"
    using assms(1) ack by (auto simp: sp ps_ok_def)
  ultimately show ?thesis by (simp add: spec_ok_def)
qed

section \<open>Every label takes effect\<close>

definition file_attr_is :: "file_delivery \<Rightarrow> string \<Rightarrow> string \<Rightarrow> bool" where
  "file_attr_is fd a v \<longleftrightarrow>
     a = ''from'' \<and> ParseRef v = Inr (fd_from fd) \<or> a = ''path'' \<and> fd_path fd = v
     \<or> a = ''owner'' \<and> fd_owner fd = v \<or> a = ''mode'' \<and> fd_mode fd = v"

text \<open>
  \<open>takes_effect sp s v\<close>: the label with suffix \<open>s\<close> and value \<open>v\<close> is one the grammar knows, and the spec has what it says: the value of a field, the
  env deliveries of its references, or the attribute of a file delivery.
\<close>

definition field_shows :: "container_spec \<Rightarrow> string \<Rightarrow> string \<Rightarrow> bool" where
  "field_shows sp s v \<longleftrightarrow>
     s = ''enable'' \<and> v = ''true'' \<or> s = ''name'' \<and> sp_name sp = v \<or> s = ''source'' \<and> sp_source sp = v
     \<or> s = ''delivery'' \<and> sp_delivery sp = v \<or> s = ''volume'' \<and> sp_volume sp = v \<or> s = ''owner'' \<and> sp_owner sp = v
     \<or> s = ''mode'' \<and> sp_mode sp = v \<or> s = ''dotenv'' \<and> sp_dotenv sp = v \<or> s = ''envdir'' \<and> sp_envdir sp = v
     \<or> s = ''env.acknowledge'' \<and> sp_env_ack sp = (v = ''true'')"

definition env_shows :: "container_spec \<Rightarrow> string \<Rightarrow> bool" where
  "env_shows sp v \<longleftrightarrow>
     (if v = ''all'' then (\<exists>ed \<in> set (sp_env sp). ed_all ed)
      else (\<forall>part \<in> set (map trim_space (split_byte CHR '','' v)). part \<noteq> [] \<longrightarrow>
              (\<exists>ed \<in> set (sp_env sp). ParseRef part = Inr (ed_ref ed) \<and> ed_var ed = r_key (ed_ref ed))))"

definition takes_effect :: "container_spec \<Rightarrow> string \<Rightarrow> string \<Rightarrow> bool" where
  "takes_effect sp s v \<longleftrightarrow>
     field_shows sp s v
     \<or> s = ''env'' \<and> env_shows sp v
     \<or> (\<exists>x. s = ''env.'' @ x \<and> (\<exists>ed \<in> set (sp_env sp). ed_var ed = x \<and> ParseRef v = Inr (ed_ref ed)))
     \<or> (\<exists>n a. s = ''file.'' @ n @ ''.'' @ a \<and> (\<exists>fd \<in> set (sp_files sp). fd_name fd = n \<and> file_attr_is fd a v))"

lemma mapR_in: "mapR f xs = Inr ys \<Longrightarrow> x \<in> set xs \<Longrightarrow> \<exists>y \<in> set ys. f x = Inr y"
  unfolding mapR_Inr_conv list_all2_conv_all_nth by (metis in_set_conv_nth)

lemma parseEnvList_shows:
  assumes "parseEnvList v = Inr eds" "set eds \<subseteq> set (sp_env sp)"
  shows "env_shows sp v"
proof (cases "v = ''all''")
  case True
  then have "\<lparr>ed_var = [], ed_ref = zero_ref, ed_all = True\<rparr> \<in> set (sp_env sp)" using assms by (auto simp: parseEnvList_def)
  then show ?thesis using True by (force simp: env_shows_def)
next
  case False
  have "\<exists>ed \<in> set (sp_env sp). ParseRef part = Inr (ed_ref ed) \<and> ed_var ed = r_key (ed_ref ed)"
    if "part \<in> set (map trim_space (split_byte CHR '','' v))" "part \<noteq> []" for part
  proof -
    have m: "mapR env_part (filter (\<lambda>p. p \<noteq> []) (map trim_space (split_byte CHR '','' v))) = Inr eds"
      using assms(1) False by (simp add: parseEnvList_def)
    have "part \<in> set (filter (\<lambda>p. p \<noteq> []) (map trim_space (split_byte CHR '','' v)))" using that by simp
    with mapR_in [OF m] obtain ed where "ed \<in> set eds" "env_part part = Inr ed" by blast
    then show ?thesis using assms(2) by (intro bexI [of _ ed]) (auto simp: env_part_def result_simps split: if_splits)
  qed
  then show ?thesis using False by (simp add: env_shows_def)
qed

definition reached :: "string \<Rightarrow> string \<Rightarrow> parse_state \<Rightarrow> bool" where
  "reached s v st \<longleftrightarrow>
     s \<in> set plain_suffixes
     \<or> s = ''env'' \<and> parseEnvList v = Inr (ps_env_list st)
     \<or> (\<exists>x. s = ''env.'' @ x \<and> (\<exists>ed \<in> set (ps_rename_env st). ed_var ed = x \<and> ParseRef v = Inr (ed_ref ed)))
     \<or> (\<exists>n a fd. s = ''file.'' @ n @ ''.'' @ a \<and> a \<in> set fileAttrs \<and> map_of (ps_files st) n = Some fd
           \<and> file_attr_is fd a v)"

lemma fileAttrs_no_dot: "a \<in> set fileAttrs \<Longrightarrow> CHR ''.'' \<notin> set a"
  by (auto simp: fileAttrs_def)

lemma dotted_inj:
  assumes "n @ CHR ''.'' # a = n' @ CHR ''.'' # a'" "a \<in> set fileAttrs" "a' \<in> set fileAttrs"
  shows "n = n' \<and> a = a'"
proof -
  have "Some (length n) = Some (length n')"
    using last_index_byte_split [of "CHR ''.''" a n] last_index_byte_split [of "CHR ''.''" a' n'] assms
    by (simp add: fileAttrs_no_dot)
  with assms(1) show ?thesis by simp
qed

lemma set_file_attr_effect:
  "set_file_attr fd name a v = Inr fd' \<Longrightarrow> a \<in> set fileAttrs \<Longrightarrow>
     file_attr_is fd' a v \<and> (\<forall>a' v'. a' \<noteq> a \<longrightarrow> file_attr_is fd a' v' \<longrightarrow> file_attr_is fd' a' v')"
  by (auto simp: set_file_attr_def file_attr_is_def fileAttrs_def result_simps split: if_split_asm)

lemma reached_fileI:
  "a \<in> set fileAttrs \<Longrightarrow> map_of (ps_files st) n = Some fd \<Longrightarrow> file_attr_is fd a v
     \<Longrightarrow> reached (CHR ''f'' # CHR ''i'' # CHR ''l'' # CHR ''e'' # CHR ''.'' # n @ CHR ''.'' # a) v st"
  unfolding reached_def by auto

lemma reached_step:
  assumes "parse_suffix m st s = Inr st'"
  shows "reached s (sget m s) st'"
  using assms
proof (cases rule: parse_suffix_cases)
  case (env_rename ed)
  then have "s = ''env.'' @ ed_var ed" "ParseRef (sget m s) = Inr (ed_ref ed)"
    using has_prefix_trim [of s "''env.''"] parseEnvVar_ok by auto
  with env_rename(4) show ?thesis by (auto simp: reached_def)
next
  case (file_attr fs)
  from file_attr(2) obtain n a fd where
    e: "trim_prefix s ''file.'' = n @ ''.'' @ a" "a \<in> set fileAttrs"
       "set_file_attr (file_entry (ps_files st) n) n a (sget m s) = Inr fd" "fs = AList.update n fd (ps_files st)"
    by (rule parseFile_cases)
  then have "s = ''file.'' @ n @ ''.'' @ a"
    using has_prefix_trim [OF file_attr(1)] by simp
  with e(2,4) file_attr(3) set_file_attr_effect [OF e(3,2)] show ?thesis by (auto simp: reached_def)
qed (simp_all add: reached_def)

lemma reached_kept:
  assumes r: "reached s v st" and p: "parse_suffix m st y = Inr st'" and v: "v = sget m s"
  shows "reached s v st'"
  using p
proof (cases rule: parse_suffix_cases)
  case (fields sp)
  with r show ?thesis by (simp add: reached_def)
next
  case (env_csv ev)
  with r v show ?thesis by (auto simp: reached_def)
next
  case (env_rename ed)
  with r show ?thesis by (auto simp: reached_def)
next
  case (file_attr fs)
  from file_attr(2) obtain n a fd where
    e: "trim_prefix y ''file.'' = n @ ''.'' @ a" "a \<in> set fileAttrs"
       "set_file_attr (file_entry (ps_files st) n) n a (sget m y) = Inr fd" "fs = AList.update n fd (ps_files st)"
    by (rule parseFile_cases)
  then have y: "y = ''file.'' @ n @ ''.'' @ a"
    using has_prefix_trim [OF file_attr(1)] by simp
  have "file_attr_is fd a' v" if "map_of (ps_files st) n = Some fd'" "file_attr_is fd' a' v"
    "s = ''file.'' @ n @ ''.'' @ a'" for fd' a'
    using set_file_attr_effect [OF e(3,2)] that y v by (cases "a' = a") (auto simp: file_entry_def)
  note kept = this
  from r consider (other) "reached s v (st\<lparr>ps_files := []\<rparr>)"
    | (attr) n' a' fd' where "s = ''file.'' @ n' @ ''.'' @ a'" "a' \<in> set fileAttrs"
        "map_of (ps_files st) n' = Some fd'" "file_attr_is fd' a' v"
    unfolding reached_def by fastforce
  then show ?thesis
  proof cases
    case other
    then show ?thesis by (auto simp: reached_def file_attr(3))
  next
    case attr
    with kept show ?thesis
      unfolding attr(1) by (cases "n' = n") (auto intro!: reached_fileI simp: file_attr(3) e(4))
  qed
qed

lemma parse_loop_reached:
  assumes "foldR (parse_suffix m) init_parse_state xs = Inr st" "s \<in> set xs"
  shows "reached s (sget m s) st"
proof -
  from assms(2) obtain as bs where xs: "xs = as @ s # bs"
    by (auto simp: in_set_conv_decomp)
  with assms(1) obtain u w where "parse_suffix m u s = Inr w" and rest: "foldR (parse_suffix m) w bs = Inr st"
    by (auto simp: foldR_append result_simps)
  then have "reached s (sget m s) w" by (simp add: reached_step)
  with rest show ?thesis
    by (rule foldR_invariant) (auto intro: reached_kept)
qed

lemma Parse_enabledD:
  assumes "Parse ls = Inr sp" "sp_enabled sp"
  obtains m st where "mergeDoorways ls = Inr m" "sget m ''enable'' = ''true''"
    "foldR (parse_suffix m) init_parse_state (sorted_keys m) = Inr st" "assemble st = Inr sp"
  using assms by (auto simp: Parse_def parse_merged_def zero_spec_def result_simps split: if_splits)

lemma assemble_effect:
  assumes "ps_ok st" "assemble st = Inr sp" "reached s v st" "s \<in> set plain_suffixes \<Longrightarrow> field_shows sp s v"
  shows "takes_effect sp s v"
proof -
  from assms(2) have sp: "sp_env sp = ps_env_list st @ sort_key ed_var (ps_rename_env st)"
    "sp_files sp = map (\<lambda>n. the (map_of (ps_files st) n)) (sorted_keys (ps_files st))"
    by (auto simp: assemble_def split: if_splits)
  have f: "fd \<in> set (sp_files sp) \<and> fd_name fd = n" if "map_of (ps_files st) n = Some fd" for n fd
    using assemble_files(2) [OF assms(1)] that assms(1) unfolding sp by (auto simp: ps_ok_def simp del: set_map)
  have e: "env_shows sp v" if "parseEnvList v = Inr (ps_env_list st)"
    using parseEnvList_shows [OF that] sp(1) by simp
  from assms(3) show ?thesis
    unfolding reached_def takes_effect_def using f e assms(4) by (auto simp: sp(1))
qed

text \<open>The plain fields are read off the labels.\<close>

lemma assembled_fields:
  assumes "foldR (parse_suffix m) init_parse_state (sorted_keys m) = Inr st" "assemble st = Inr sp" "sget m ''enable'' = ''true''"
    and "s \<in> set plain_suffixes"
  shows "field_shows sp s (sget m s)"
proof -
  have sp: "sp = (ps_spec st)\<lparr>sp_env := sp_env sp, sp_files := sp_files sp\<rparr>" using assms(2) by (auto simp: assemble_def split: if_splits)
  have f: "sp_name sp = sget m ''name''" "sp_source sp = sget m ''source''" "sp_delivery sp = sget m ''delivery''"
    "sp_volume sp = sget m ''volume''" "sp_owner sp = sget m ''owner''" "sp_mode sp = sget m ''mode''" "sp_dotenv sp = sget m ''dotenv''"
    "sp_envdir sp = sget m ''envdir''" "sp_env_ack sp = (sget m ''env.acknowledge'' = ''true'')"
    by (subst sp; simp add: parse_loop_reads [OF assms(1)])+
  have "field_shows sp (s :: string) (sget m s)" if "s = x" "field_shows sp x (sget m x)" for x using that by simp
  moreover have "\<forall>x \<in> set plain_suffixes. field_shows sp x (sget m x)"
    unfolding plain_suffixes_def field_shows_def f using assms(3) by simp
  ultimately show ?thesis using assms(4) by blast
qed

lemma map_of_mergeI:
  "mergeDoorways ls = Inr m \<Longrightarrow> (k, v) \<in> set ls \<Longrightarrow> doorway k = Some s \<Longrightarrow> map_of m s = Some v"
  using mergeDoorways_Inr by blast

lemma Parse_takes_effect:
  assumes "Parse ls = Inr sp" "sp_enabled sp" "(k, v) \<in> set ls" "doorway k = Some s"
  shows "takes_effect sp s v"
proof -
  from assms(1,2) obtain m st where m: "mergeDoorways ls = Inr m"
    and l: "foldR (parse_suffix m) init_parse_state (sorted_keys m) = Inr st" and a: "assemble st = Inr sp"
    by (rule Parse_enabledD)
  from map_of_mergeI [OF m assms(3,4)] have "sget m s = v" "s \<in> set (sorted_keys m)"
    by (auto simp: sget_def)
  with parse_loop_reached [OF l] have "reached s v st" by auto
  moreover have "sget m ''enable'' = ''true''" using m assms(1,2) by (auto simp: Parse_def parse_merged_def zero_spec_def result_simps split: if_splits)
  ultimately show ?thesis
    using assemble_effect [OF parse_loop_ok [OF l] a] assembled_fields [OF l a] \<open>sget m s = v\<close> by blast
qed

lemma Parse_spec_ok: "Parse ls = Inr sp \<Longrightarrow> spec_ok sp"
proof (cases "sp_enabled sp")
  case False
  assume "Parse ls = Inr sp"
  with False have "sp = zero_spec"
    by (auto simp: Parse_def parse_merged_def assemble_def result_simps split: if_splits
        dest: parse_loop_reads(1))
  then show ?thesis by (simp add: zero_spec_def spec_ok_def fields_ok_def)
next
  case True
  assume "Parse ls = Inr sp"
  from Parse_enabledD [OF this True] show ?thesis by (metis parse_loop_ok assemble_ok)
qed

lemma parse_loop_has_env:
  assumes "foldR (parse_suffix m) init_parse_state xs = Inr st" "s \<in> set xs"
    "s = ''env'' \<or> has_prefix s ''env.'' \<and> s \<noteq> ''env.acknowledge''"
  shows "ps_has_env st"
proof (rule foldR_reached [OF assms(1,2)])
  fix u v assume "parse_suffix m u s = Inr v"
  then show "ps_has_env v"
  proof (cases rule: parse_suffix_cases)
    case (file_attr fs)
    with assms(3) show ?thesis by (cases s) (auto simp: has_prefix_iff)
  qed (use assms(3) in \<open>auto simp: plain_suffixes_def\<close>)
next
  fix y u v assume h: "ps_has_env u" and "parse_suffix m u y = Inr v"
  from this(2) show "ps_has_env v"
    by (cases rule: parse_suffix_cases) (use h in auto)
qed

section \<open>Properties\<close>

lemma parseEnvList_class:
  "parseEnvList v = Inl e \<Longrightarrow> le_class e \<in> {ClassMalformed, ClassWrongRefShape}"
  by (auto simp: parseEnvList_def env_part_def result_simps
      dest!: mapR_Inl ParseRef_error_class split: if_splits)

lemma parseEnvVar_class:
  "parseEnvVar x v = Inl e \<Longrightarrow> le_class e \<in> {ClassMalformed, ClassWrongRefShape, ClassUnknownSuffix}"
  by (auto simp: parseEnvVar_def result_simps dest!: ParseRef_error_class split: if_splits)

lemma parseFile_class:
  "parseFile fs rest v = Inl e \<Longrightarrow> le_class e \<in> {ClassMalformed, ClassUnknownSuffix}"
  by (auto simp: parseFile_def set_file_attr_def result_simps Let_def
      dest!: ParseRef_error_class split: if_splits option.splits)

lemma parse_suffix_class:
  "parse_suffix m st s = Inl e \<Longrightarrow>
     le_class e \<in> {ClassMalformed, ClassWrongRefShape, ClassUnknownSuffix, ClassRotateReserved}"
  unfolding parse_suffix_simps
  by (simp split: if_split_asm) (auto simp: result_simps dest: parseEnvList_class parseEnvVar_class parseFile_class)

lemma parse_merged_class:
  "parse_merged m = Inl e \<Longrightarrow> le_class e \<in>
     {ClassMalformed, ClassWrongRefShape, ClassUnknownSuffix, ClassRotateReserved, ClassEnvNoAck}"
  by (auto simp: parse_merged_def assemble_def result_simps
      dest!: foldR_Inl_step parse_suffix_class split: if_splits)

text \<open>
  C39: the reference parser accepts exactly the grammar \<open>KEY | source "/" KEY | source\<close>, and
  the reference it returns is the only one whose text is the input: the round trip both ways,
  on every byte string.
\<close>

theorem ParseRef_grammar: "ParseRef s = Inr r \<longleftrightarrow> wf_ref r \<and> ref_text r = s"
  using ParseRef_sound ParseRef_complete by blast

text \<open>
  the outcome does not depend on the iteration order of the label map: two runs over the
  same labels give the same spec or the same error, unless both end in a prefix conflict (where
  the suffix that is named may differ when several conflict).
\<close>

theorem Parse_label_order:
  assumes "mset ls = mset ls'"
  shows "Parse ls = Parse ls' \<or>
    (\<exists>e e'. Parse ls = Inl e \<and> Parse ls' = Inl e' \<and>
       le_class e = ClassCrossPrefixConflict \<and> le_class e' = ClassCrossPrefixConflict)"
  using assms by (intro Parse_order) (rule mset_eq_setD)

definition sample_labels :: smap where
  "sample_labels = [(''berm.enable'', ''true''), (''berm.file.pgpass.from'', ''POSTGRES_PASSWORD''),
     (''tagwright.secret.env.TOKEN'', ''other/API_KEY''), (''berm.env.acknowledge'', ''true''),
     (''berm.file.pgpass.mode'', ''0440''), (''com.example.other'', ''x'')]"

definition sample_spec :: container_spec where
  "sample_spec = zero_spec\<lparr>sp_enabled := True, sp_env_ack := True,
     sp_env := [\<lparr>ed_var = ''TOKEN'', ed_ref = \<lparr>r_kind = RefSourceKey, r_source = ''other'', r_key = ''API_KEY''\<rparr>, ed_all = False\<rparr>],
     sp_files := [\<lparr>fd_name = ''pgpass'', fd_from = \<lparr>r_kind = RefKey, r_source = [], r_key = ''POSTGRES_PASSWORD''\<rparr>,
        fd_path = [], fd_owner = [], fd_mode = ''0440''\<rparr>]\<rparr>"

lemma Parse_sample: "Parse sample_labels = Inr sample_spec"
  by code_simp

theorem Parse_label_order_witness:
  "Parse (rev sample_labels) = Inr sample_spec"
  using Parse_label_order [of "sample_labels" "rev sample_labels"] by (simp add: Parse_sample)

text \<open>
  a cross-prefix conflict is reported exactly when some suffix has two different values
  under the two prefixes, whether or not the container is enabled.
\<close>

theorem Parse_conflict:
  "(\<exists>e. Parse ls = Inl e \<and> le_class e = ClassCrossPrefixConflict) \<longleftrightarrow> doorway_conflict ls"
proof
  assume "\<exists>e. Parse ls = Inl e \<and> le_class e = ClassCrossPrefixConflict"
  then obtain e where "Parse ls = Inl e" "le_class e = ClassCrossPrefixConflict" by blast
  then have "mergeDoorways ls = Inl e"
    by (auto simp: Parse_def result_simps dest: parse_merged_class)
  then show "doorway_conflict ls" by (auto dest: mergeDoorways_Inl)
next
  assume "doorway_conflict ls"
  then obtain e where "mergeDoorways ls = Inl e" using mergeDoorways_conflict by blast
  then show "\<exists>e. Parse ls = Inl e \<and> le_class e = ClassCrossPrefixConflict"
    by (auto simp: Parse_def dest: mergeDoorways_Inl)
qed

text \<open>
  C19: no label of an accepted, enabled container is silently dropped. Every label under either
  prefix is one the grammar knows, and the spec has what it says: a plain label's value in the field of its
  name, each reference of \<open>berm.env\<close> and each \<open>berm.env.VAR\<close> as an env delivery of that very reference under its
  name, each \<open>berm.file.NAME.ATTR\<close> as that attribute of the delivery of that name.
\<close>

theorem Parse_no_label_lost:
  assumes "Parse ls = Inr sp" "sp_enabled sp" "(k, v) \<in> set ls" "doorway k = Some s"
  shows "takes_effect sp s v"
  using assms by (rule Parse_takes_effect)

theorem Parse_no_label_lost_witness:
  "takes_effect sample_spec ''file.pgpass.mode'' ''0440''"
  by (rule Parse_no_label_lost [OF Parse_sample, of "''berm.file.pgpass.mode''"])
    (simp_all add: sample_spec_def sample_labels_def doorway_def PrimaryPrefix_def trim_prefix_def)

text \<open>
  C38: whatever the labels are, a spec that comes out of the parser is well formed: sources,
  mechanism, owners and modes match their patterns, paths are absolute, every env delivery names
  a key and is acknowledged, every file delivery has a name without a slash, and the deliveries
  are sorted by name with no duplicate.
\<close>

theorem Parse_well_formed:
  assumes "Parse ls = Inr sp"
  shows "spec_ok sp"
  using assms by (rule Parse_spec_ok)

theorem Parse_well_formed_witness: "spec_ok sample_spec"
  by (rule Parse_well_formed [OF Parse_sample])

text \<open>
  the double gate on env. An enabled container with any \<open>berm.env\<close> or \<open>berm.env.VAR\<close> label
  is rejected unless some \<open>env.acknowledge\<close> label is \<open>true\<close>.
\<close>

theorem Parse_env_gate:
  assumes "(ke, ''true'') \<in> set ls" "doorway ke = Some ''enable''"
    and "(k, v) \<in> set ls" "doorway k = Some s"
    and "s = ''env'' \<or> has_prefix s ''env.'' \<and> s \<noteq> ''env.acknowledge''"
    and "\<And>ka va. (ka, va) \<in> set ls \<Longrightarrow> doorway ka = Some ''env.acknowledge'' \<Longrightarrow> va \<noteq> ''true''"
  shows "\<exists>e. Parse ls = Inl e"
proof (cases "mergeDoorways ls")
  case (Inr m)
  from map_of_mergeI [OF Inr assms(1,2)] have en: "sget m ''enable'' = ''true''" by (simp add: sget_def)
  from map_of_mergeI [OF Inr assms(3,4)] have s: "s \<in> set (sorted_keys m)" by auto
  have ack: "sget m ''env.acknowledge'' \<noteq> ''true''"
    using assms(6) mergeDoorways_Inr [OF Inr] by (auto simp: sget_def split: option.splits)
  show ?thesis
  proof (cases "foldR (parse_suffix m) init_parse_state (sorted_keys m)")
    case l: (Inr st)
    have "ps_has_env st" by (rule parse_loop_has_env [OF l s assms(5)])
    with parse_loop_reads(10) [OF l] ack l en Inr show ?thesis
      by (simp add: Parse_def parse_merged_def assemble_def)
  qed (simp add: Parse_def parse_merged_def Inr en)
qed (simp add: Parse_def)

theorem Parse_env_gate_witness:
  "\<exists>e. Parse [(''berm.enable'', ''true''), (''berm.env'', ''API_KEY'')] = Inl e"
  by (rule Parse_env_gate [of "''berm.enable''" _ "''berm.env''" "''API_KEY''" "''env''"])
    (auto simp: doorway_def PrimaryPrefix_def AliasPrefix_def trim_prefix_def)


end
