(* ===== verification/Wire_File.thy ===== *)
theory Wire_File
  imports Label_Parse Go_Path
begin

text \<open>
  \<open>internal/wire/file.go\<close>: the one primitive that puts a secret on a tmpfs. The file system is a
  store of files by cleaned path. Any system call may fail: the state holds a list with one entry
  for each coming call, \<^term>\<open>Some n\<close> for a failure (a write then stops after \<open>n\<close> bytes), and calls
  past its end succeed. Random temporary names come from a list in the state too. Symbolic
  links, and directories other than the tmpfs test on them, are not part of the model.
\<close>

section \<open>The file system\<close>

record fnode =
  fn_data :: string
  fn_uid :: int
  fn_gid :: int
  fn_mode :: int

record fs =
  fs_files :: "string \<rightharpoonup> fnode"
  fs_tmpfs :: "string \<Rightarrow> bool"
  fs_faults :: "nat option list"
  fs_rand :: "string list"
  fs_uid :: int
  fs_gid :: int
  fs_stuck :: "string set"

definition next_fault :: "fs \<Rightarrow> nat option \<times> fs" where
  "next_fault w =
     (case fs_faults w of
        [] \<Rightarrow> (None, w)
      | f # fs \<Rightarrow> (f, w\<lparr>fs_faults := fs\<rparr>))"

definition update_node :: "string \<Rightarrow> (fnode \<Rightarrow> fnode) \<Rightarrow> fs \<Rightarrow> fs" where
  "update_node p f w = w\<lparr>fs_files := (fs_files w)(p := map_option f (fs_files w p))\<rparr>"

text \<open>A call that only succeeds or fails: \<open>true\<close> when it succeeded.\<close>

definition sys :: "fs \<Rightarrow> bool \<times> fs" where
  "sys w = (let (f, w') = next_fault w in (f = None, w'))"

definition file_write :: "string \<Rightarrow> string \<Rightarrow> fs \<Rightarrow> (nat \<times> bool) \<times> fs" where
  "file_write p d w =
     (let (f, w') = next_fault w; n = (case f of None \<Rightarrow> length d | Some k \<Rightarrow> min k (length d)) in
      ((n, f = None), update_node p (\<lambda>nd. nd\<lparr>fn_data := fn_data nd @ take n d\<rparr>) w'))"

text \<open>The kernel's user ids have 32 bits, and all ones leaves the id as it is.\<close>

definition chown_id :: "int \<Rightarrow> int \<Rightarrow> int" where
  "chown_id old i = (if i mod 2 ^ 32 = 2 ^ 32 - 1 then old else i mod 2 ^ 32)"

definition chown_node :: "int \<Rightarrow> int \<Rightarrow> fnode \<Rightarrow> fnode" where
  "chown_node uid gid nd = nd\<lparr>fn_uid := chown_id (fn_uid nd) uid, fn_gid := chown_id (fn_gid nd) gid\<rparr>"

definition file_remove :: "string \<Rightarrow> fs \<Rightarrow> fs" where
  "file_remove p w =
     (let (f, w') = next_fault w in
      if f = None then w'\<lparr>fs_files := (fs_files w')(p := None)\<rparr>
      else w'\<lparr>fs_stuck := insert p (fs_stuck w')\<rparr>)"

definition file_rename :: "string \<Rightarrow> string \<Rightarrow> fs \<Rightarrow> bool \<times> fs" where
  "file_rename a b w =
     (let (f, w') = next_fault w in
      if f = None
      then (True, if a = b then w' else w'\<lparr>fs_files := (fs_files w')(b := fs_files w' a, a := None)\<rparr>)
      else (False, w'))"

text \<open>\<open>os.CreateTemp\<close> takes the first random name that is not in use.\<close>

definition temp_name :: "string \<Rightarrow> string \<Rightarrow> string" where
  "temp_name dir r = path_join dir (''.berm-'' @ r @ ''.tmp'')"

definition create_temp :: "string \<Rightarrow> fs \<Rightarrow> string option \<times> fs" where
  "create_temp dir w =
     (let (f, w') = next_fault w in
      if f \<noteq> None then (None, w')
      else case dropWhile (\<lambda>r. fs_files w' (temp_name dir r) \<noteq> None) (fs_rand w') of
             [] \<Rightarrow> (None, w'\<lparr>fs_rand := []\<rparr>)
           | r # rs \<Rightarrow> (Some (temp_name dir r),
               w'\<lparr>fs_rand := rs, fs_files := (fs_files w')(temp_name dir r \<mapsto>
                  \<lparr>fn_data = [], fn_uid = fs_uid w', fn_gid = fs_gid w', fn_mode = 0x180\<rparr>)\<rparr>))"

section \<open>Owners and modes\<close>

datatype file_error =
    FEmptyOwner | FBadUid string | FBadGid string | FEmptyMode | FBadMode string
  | FMkdir | FStatfs | FNotTmpfs string | FCreateTemp | FProduce | FChmod | FChown | FSync | FClose | FRename

definition gidUnchanged :: int where "gidUnchanged = -1"

definition digit_val :: "char \<Rightarrow> int" where
  "digit_val c = int (of_char c) - 48"

text \<open>\<open>strconv.Atoi\<close>: an optional sign, decimal digits, the result within 64 bits.\<close>

fun digits_val :: "int \<Rightarrow> string \<Rightarrow> int \<Rightarrow> int" where
  "digits_val b [] acc = acc"
| "digits_val b (c # cs) acc = digits_val b cs (acc * b + digit_val c)"

definition atoi :: "string \<Rightarrow> int option" where
  "atoi s =
     (let neg = has_prefix s ''-'';
          ds = (if has_prefix s ''-'' \<or> has_prefix s ''+'' then drop 1 s else s);
          n = digits_val 10 ds 0;
          v = (if neg then - n else n) in
      if digits1 ds \<and> - (2 ^ 63) \<le> v \<and> v < 2 ^ 63 then Some v else None)"

text \<open>\<open>strings.Cut(owner, ":")\<close>, then \<open>Atoi\<close> of the parts.\<close>

definition parseOwner :: "string \<Rightarrow> file_error + int \<times> int" where
  "parseOwner owner =
     (if owner = [] then Inl FEmptyOwner
      else let (u, g) = (case index_byte owner CHR '':'' of
                           None \<Rightarrow> (owner, None)
                         | Some i \<Rightarrow> (take i owner, Some (drop (Suc i) owner))) in
        case atoi u of
          None \<Rightarrow> Inl (FBadUid u)
        | Some uid \<Rightarrow>
            (case g of
               None \<Rightarrow> Inr (uid, gidUnchanged)
             | Some g' \<Rightarrow> (case atoi g' of None \<Rightarrow> Inl (FBadGid g') | Some gid \<Rightarrow> Inr (uid, gid))))"

text \<open>\<open>strconv.ParseUint(mode, 8, 32)\<close>, then the permission bits.\<close>

definition parseMode :: "string \<Rightarrow> file_error + int" where
  "parseMode mode =
     (if mode = [] then Inl FEmptyMode
      else if list_all is_octal mode \<and> digits_val 8 mode 0 < 2 ^ 32
      then Inr (digits_val 8 mode 0 mod 0x200)
      else Inl (FBadMode mode))"

definition checkTmpfs :: "string \<Rightarrow> fs \<Rightarrow> file_error option \<times> fs" where
  "checkTmpfs dir w =
     (let (ok, w') = sys w in
      if \<not> ok then (Some FStatfs, w')
      else if fs_tmpfs w' dir then (None, w') else (Some (FNotTmpfs dir), w'))"

section \<open>WriteTmpfsFile\<close>

text \<open>
  \<open>produce\<close> is what the callback does with the file: the bytes it writes and whether it then
  reports success. Once the temporary file exists every early return closes and removes it.
\<close>

record produce =
  pr_bytes :: string
  pr_ok :: bool

definition cleanup :: "string \<Rightarrow> fs \<Rightarrow> fs" where
  "cleanup tmp w = file_remove tmp (snd (sys w))"

definition fill_temp ::
  "string \<Rightarrow> string \<Rightarrow> int \<Rightarrow> int \<Rightarrow> int \<Rightarrow> produce \<Rightarrow> fs \<Rightarrow> (nat \<times> file_error option) \<times> fs" where
  "fill_temp tmp path uid gid mode pr w0 =
     (let ((n, ok), w1) = file_write tmp (pr_bytes pr) w0 in
      if \<not> ok \<or> \<not> pr_ok pr then ((n, Some FProduce), cleanup tmp w1)
      else let (ok, w2) = sys w1 in
        if \<not> ok then ((n, Some FChmod), cleanup tmp w2)
        else let w2 = update_node tmp (\<lambda>nd. nd\<lparr>fn_mode := mode\<rparr>) w2; (ok, w3) = sys w2 in
          if \<not> ok then ((n, Some FChown), cleanup tmp w3)
          else let w3 = update_node tmp (chown_node uid gid) w3; (ok, w4) = sys w3 in
            if \<not> ok then ((n, Some FSync), cleanup tmp w4)
            else let (ok, w5) = sys w4 in
              if \<not> ok then ((n, Some FClose), cleanup tmp w5)
              else let (ok, w6) = file_rename tmp (path_clean path) w5 in
                if \<not> ok then ((n, Some FRename), cleanup tmp w6)
                else ((n, None), w6))"

definition WriteTmpfsFile ::
  "string \<Rightarrow> string \<Rightarrow> string \<Rightarrow> bool \<Rightarrow> produce \<Rightarrow> fs \<Rightarrow> (nat \<times> file_error option) \<times> fs" where
  "WriteTmpfsFile path owner mode requireTmpfs pr w =
     (case parseOwner owner of
        Inl e \<Rightarrow> ((0, Some e), w)
      | Inr (uid, gid) \<Rightarrow>
          (case parseMode mode of
             Inl e \<Rightarrow> ((0, Some e), w)
           | Inr fmode \<Rightarrow>
               let dir = path_dir path; (ok, w) = sys w in
               if \<not> ok then ((0, Some FMkdir), w)
               else let (e, w) = (if requireTmpfs then checkTmpfs dir w else (None, w)) in
                 if e \<noteq> None then ((0, e), w)
                 else (case create_temp dir w of
                         (None, w) \<Rightarrow> ((0, Some FCreateTemp), w)
                       | (Some tmp, w) \<Rightarrow> fill_temp tmp path uid gid fmode pr w)))"

definition WriteBytesFile ::
  "string \<Rightarrow> string \<Rightarrow> string \<Rightarrow> bool \<Rightarrow> string \<Rightarrow> fs \<Rightarrow> file_error option \<times> fs" where
  "WriteBytesFile path owner mode requireTmpfs data w =
     (let ((n, e), w') = WriteTmpfsFile path owner mode requireTmpfs \<lparr>pr_bytes = data, pr_ok = True\<rparr> w in
      (e, w'))"

section \<open>What a write leaves behind\<close>

lemma sysD: "sys w = (b, w') \<Longrightarrow> fs_files w' = fs_files w \<and> fs_tmpfs w' = fs_tmpfs w
    \<and> fs_uid w' = fs_uid w \<and> fs_gid w' = fs_gid w \<and> fs_stuck w' = fs_stuck w"
  by (auto simp: sys_def next_fault_def split: list.splits)

lemma cleanup_cases:
  "(fs_files (cleanup tmp w) = (fs_files w)(tmp := None) \<and> fs_stuck (cleanup tmp w) = fs_stuck w)
   \<or> (fs_files (cleanup tmp w) = fs_files w \<and> fs_stuck (cleanup tmp w) = insert tmp (fs_stuck w))"
  by (cases "sys w")
    (auto simp: cleanup_def file_remove_def next_fault_def dest: sysD split: list.splits)

lemma cleanup_keeps [simp]: "fs_tmpfs (cleanup tmp w) = fs_tmpfs w"
  by (cases "sys w") (auto simp: cleanup_def file_remove_def next_fault_def dest: sysD split: list.splits)

text \<open>
  The states in which only the temporary file differs: it is there with some node, or, after the
  cleanup, gone or stuck.
\<close>

definition only_temp :: "string \<Rightarrow> fs \<Rightarrow> fs \<Rightarrow> bool" where
  "only_temp tmp w w' \<longleftrightarrow> (\<forall>q. q \<noteq> tmp \<longrightarrow> fs_files w' q = fs_files w q)
     \<and> fs_tmpfs w' = fs_tmpfs w \<and> fs_stuck w' = fs_stuck w"

definition undone :: "string \<Rightarrow> fs \<Rightarrow> fs \<Rightarrow> bool" where
  "undone tmp w w' \<longleftrightarrow> (\<forall>q. q \<noteq> tmp \<longrightarrow> fs_files w' q = fs_files w q)
     \<and> fs_tmpfs w' = fs_tmpfs w
     \<and> ((fs_files w' tmp = None \<and> fs_stuck w' = fs_stuck w) \<or> fs_stuck w' = insert tmp (fs_stuck w))"

lemma undone_cleanup: "only_temp tmp w0 w \<Longrightarrow> undone tmp w0 (cleanup tmp w)"
  using cleanup_cases [of tmp w] by (auto simp: only_temp_def undone_def)

lemma file_writeD:
  "file_write p d w = ((n, ok), w') \<Longrightarrow> fs_files w p = Some nd \<Longrightarrow>
     only_temp p w w' \<and> n \<le> length d \<and> fs_files w' p = Some (nd\<lparr>fn_data := fn_data nd @ take n d\<rparr>)
     \<and> (ok \<longrightarrow> n = length d)"
  by (auto simp: file_write_def next_fault_def update_node_def only_temp_def Let_def split: list.splits option.splits)

lemma only_temp_trans: "only_temp t a b \<Longrightarrow> only_temp t b c \<Longrightarrow> only_temp t a c"
  by (simp add: only_temp_def)

lemma only_temp_update: "only_temp t a b \<Longrightarrow> only_temp t a (update_node t f b)"
  by (simp add: only_temp_def update_node_def)

lemma only_temp_sys: "sys b = (ok, c) \<Longrightarrow> only_temp t a b \<Longrightarrow> only_temp t a c"
  by (auto simp: only_temp_def dest: sysD)

lemma fill_temp_cases:
  assumes "fs_files w0 tmp = Some nd" "fill_temp tmp path uid gid mode pr w0 = ((n, r), w')"
  obtains (failed) e where "r = Some e" "undone tmp w0 w'"
  | (published) "r = None" "n = length (pr_bytes pr)"
      "fs_files w' = (fs_files w0)(tmp := None, path_clean path \<mapsto> chown_node uid gid
         (nd\<lparr>fn_data := fn_data nd @ pr_bytes pr, fn_mode := mode\<rparr>))"
      "pr_ok pr" "fs_tmpfs w' = fs_tmpfs w0" "fs_stuck w' = fs_stuck w0"
proof -
  obtain k ok1 w1 where w1: "file_write tmp (pr_bytes pr) w0 = ((k, ok1), w1)"
    by (metis prod.exhaust)
  obtain ok2 w2 where w2: "sys w1 = (ok2, w2)" by (metis prod.exhaust)
  let ?w2 = "update_node tmp (\<lambda>nd. nd\<lparr>fn_mode := mode\<rparr>) w2"
  obtain ok3 w3 where w3: "sys ?w2 = (ok3, w3)" by (metis prod.exhaust)
  let ?w3 = "update_node tmp (chown_node uid gid) w3"
  obtain ok4 w4 where w4: "sys ?w3 = (ok4, w4)" by (metis prod.exhaust)
  obtain ok5 w5 where w5: "sys w4 = (ok5, w5)" by (metis prod.exhaust)
  obtain ok6 w6 where w6: "file_rename tmp (path_clean path) w5 = (ok6, w6)" by (metis prod.exhaust)
  from file_writeD [OF w1 assms(1)] have o1: "only_temp tmp w0 w1"
    and n1: "ok1 \<Longrightarrow> k = length (pr_bytes pr)"
    and f1: "fs_files w1 tmp = Some (nd\<lparr>fn_data := fn_data nd @ take k (pr_bytes pr)\<rparr>)" by auto
  have o2: "only_temp tmp w0 w2" by (rule only_temp_sys [OF w2 o1])
  have o3: "only_temp tmp w0 w3" by (rule only_temp_sys [OF w3 only_temp_update [OF o2]])
  have o4: "only_temp tmp w0 w4" by (rule only_temp_sys [OF w4 only_temp_update [OF o3]])
  have o5: "only_temp tmp w0 w5" by (rule only_temp_sys [OF w5 o4])
  have o6: "\<not> ok6 \<Longrightarrow> only_temp tmp w0 w6"
    using w6 o5 by (auto simp: file_rename_def next_fault_def only_temp_def split: list.splits if_splits)
  have f5: "fs_files w5 tmp = Some (chown_node uid gid (nd\<lparr>fn_data := fn_data nd @ take k (pr_bytes pr), fn_mode := mode\<rparr>))"
    using f1 sysD [OF w2] sysD [OF w3] sysD [OF w4] sysD [OF w5]
    by (simp add: update_node_def chown_node_def)
  have f6: "ok6 \<Longrightarrow> fs_files w6 = (fs_files w5)(tmp := None, path_clean path := fs_files w5 tmp)"
    "ok6 \<Longrightarrow> fs_tmpfs w6 = fs_tmpfs w5" "ok6 \<Longrightarrow> fs_stuck w6 = fs_stuck w5"
    using w6 by (auto simp: file_rename_def next_fault_def fun_eq_iff split: list.splits if_splits)
  have run: "fill_temp tmp path uid gid mode pr w0 =
     (if \<not> ok1 \<or> \<not> pr_ok pr then ((k, Some FProduce), cleanup tmp w1)
      else if \<not> ok2 then ((k, Some FChmod), cleanup tmp w2)
      else if \<not> ok3 then ((k, Some FChown), cleanup tmp w3)
      else if \<not> ok4 then ((k, Some FSync), cleanup tmp w4)
      else if \<not> ok5 then ((k, Some FClose), cleanup tmp w5)
      else if \<not> ok6 then ((k, Some FRename), cleanup tmp w6)
      else ((k, None), w6))"
    by (simp add: fill_temp_def w1 w2 w3 w4 w5 w6 Let_def)
  show thesis
  proof (cases "r = None")
    case True
    with assms(2) run have all: "ok1" "pr_ok pr" "ok6" "n = k" "w' = w6" by (auto split: if_splits)
    have "fs_files w6 = (fs_files w0)(tmp := None, path_clean path \<mapsto> chown_node uid gid
         (nd\<lparr>fn_data := fn_data nd @ pr_bytes pr, fn_mode := mode\<rparr>))"
      using f6(1) [OF all(3)] o5 f5 n1 [OF all(1)] by (auto simp: only_temp_def fun_eq_iff)
    with True all n1 f6(2,3) o5 show ?thesis by (intro published) (auto simp: only_temp_def)
  next
    case False
    then obtain e where e: "r = Some e" by auto
    have "undone tmp w0 w'"
      using assms(2) run e undone_cleanup [OF o1] undone_cleanup [OF o2] undone_cleanup [OF o3] undone_cleanup [OF o4]
        undone_cleanup [OF o5] undone_cleanup [OF o6] by (auto split: if_splits)
    with e show ?thesis by (rule failed)
  qed
qed


lemma create_tempD:
  assumes "create_temp dir w = (r, w')"
  shows "fs_tmpfs w' = fs_tmpfs w" "fs_stuck w' = fs_stuck w" "fs_uid w' = fs_uid w" "fs_gid w' = fs_gid w"
    "r = None \<Longrightarrow> fs_files w' = fs_files w"
    "r = Some t \<Longrightarrow> fs_files w t = None \<and> (\<exists>x. t = temp_name dir x) \<and> fs_files w' = (fs_files w)(t \<mapsto>
       \<lparr>fn_data = [], fn_uid = fs_uid w, fn_gid = fs_gid w, fn_mode = 0x180\<rparr>)"
proof -
  obtain f w1 where f: "next_fault w = (f, w1)" by (metis prod.exhaust)
  have w1: "fs_files w1 = fs_files w" "fs_tmpfs w1 = fs_tmpfs w" "fs_stuck w1 = fs_stuck w"
    "fs_uid w1 = fs_uid w" "fs_gid w1 = fs_gid w" "fs_rand w1 = fs_rand w"
    using f by (auto simp: next_fault_def split: list.splits)
  define free where "free = dropWhile (\<lambda>r. fs_files w (temp_name dir r) \<noteq> None) (fs_rand w)"
  have run: "create_temp dir w = (if f \<noteq> None then (None, w1)
      else case free of [] \<Rightarrow> (None, w1\<lparr>fs_rand := []\<rparr>)
      | x # xs \<Rightarrow> (Some (temp_name dir x), w1\<lparr>fs_rand := xs, fs_files := (fs_files w)(temp_name dir x \<mapsto>
          \<lparr>fn_data = [], fn_uid = fs_uid w, fn_gid = fs_gid w, fn_mode = 0x180\<rparr>)\<rparr>))"
    by (simp only: create_temp_def f Let_def prod.case w1 free_def)
  consider (none) "r = None" "w' = w1 \<or> w' = w1\<lparr>fs_rand := []\<rparr>"
    | (some) x xs where "free = x # xs" "r = Some (temp_name dir x)"
        "w' = w1\<lparr>fs_rand := xs, fs_files := (fs_files w)(temp_name dir x \<mapsto>
          \<lparr>fn_data = [], fn_uid = fs_uid w, fn_gid = fs_gid w, fn_mode = 0x180\<rparr>)\<rparr>"
    using assms unfolding run by (simp split: if_split_asm list.split_asm)
  then have "fs_tmpfs w' = fs_tmpfs w \<and> fs_stuck w' = fs_stuck w \<and> fs_uid w' = fs_uid w \<and> fs_gid w' = fs_gid w
    \<and> (r = None \<longrightarrow> fs_files w' = fs_files w)
    \<and> (\<forall>t. r = Some t \<longrightarrow> fs_files w t = None \<and> (\<exists>x. t = temp_name dir x) \<and> fs_files w' = (fs_files w)(t \<mapsto>
       \<lparr>fn_data = [], fn_uid = fs_uid w, fn_gid = fs_gid w, fn_mode = 0x180\<rparr>))"
  proof cases
    case none
    then show ?thesis using w1 by (elim disjE) simp_all
  next
    case some
    have "fs_files w (temp_name dir x) = None" using some(1) by (auto simp: free_def dropWhile_eq_Cons_conv)
    with some(2,3) w1 show ?thesis by auto
  qed
  then show "fs_tmpfs w' = fs_tmpfs w" "fs_stuck w' = fs_stuck w" "fs_uid w' = fs_uid w" "fs_gid w' = fs_gid w"
    "r = None \<Longrightarrow> fs_files w' = fs_files w"
    "r = Some t \<Longrightarrow> fs_files w t = None \<and> (\<exists>x. t = temp_name dir x) \<and> fs_files w' = (fs_files w)(t \<mapsto>
       \<lparr>fn_data = [], fn_uid = fs_uid w, fn_gid = fs_gid w, fn_mode = 0x180\<rparr>)" by blast+
qed

lemma WriteTmpfsFile_cases:
  assumes "WriteTmpfsFile path owner mode req pr w = ((n, r), w')"
  obtains (early) e where "r = Some e" "fs_files w' = fs_files w" "fs_tmpfs w' = fs_tmpfs w" "fs_stuck w' = fs_stuck w"
  | (ran) uid gid m tmp nd w1 where "parseOwner owner = Inr (uid, gid)" "parseMode mode = Inr m"
      "req \<Longrightarrow> fs_tmpfs w (path_dir path)"
      "fs_files w tmp = None" "\<exists>x. tmp = temp_name (path_dir path) x"
      "nd = \<lparr>fn_data = [], fn_uid = fs_uid w, fn_gid = fs_gid w, fn_mode = 0x180\<rparr>"
      "fs_files w1 = (fs_files w)(tmp \<mapsto> nd)" "fs_tmpfs w1 = fs_tmpfs w" "fs_stuck w1 = fs_stuck w"
      "fill_temp tmp path uid gid m pr w1 = ((n, r), w')"
proof (cases "parseOwner owner")
  case (Inl e)
  then show ?thesis using assms by (intro early) (auto simp: WriteTmpfsFile_def)
next
  case (Inr o1)
  obtain uid gid where ow: "parseOwner owner = Inr (uid, gid)" using Inr by (cases o1) auto
  show ?thesis
  proof (cases "parseMode mode")
    case (Inl e)
    then show ?thesis using assms ow by (intro early) (auto simp: WriteTmpfsFile_def)
  next
    case md: (Inr m)
    obtain ok w1 where w1: "sys w = (ok, w1)" by (metis prod.exhaust)
    obtain e w2 where w2: "(if req then checkTmpfs (path_dir path) w1 else (None, w1)) = (e, w2)" by (metis prod.exhaust)
    have s2: "fs_files w2 = fs_files w \<and> fs_tmpfs w2 = fs_tmpfs w \<and> fs_stuck w2 = fs_stuck w
        \<and> fs_uid w2 = fs_uid w \<and> fs_gid w2 = fs_gid w" "req \<Longrightarrow> e = None \<Longrightarrow> fs_tmpfs w (path_dir path)"
      using w2 sysD [OF w1] by (auto simp: checkTmpfs_def Let_def dest!: sysD split: if_splits prod.splits)
    obtain t w3 where w3: "create_temp (path_dir path) w2 = (t, w3)" by (metis prod.exhaust)
    note c = create_tempD [OF w3]
    have run: "WriteTmpfsFile path owner mode req pr w =
      (if \<not> ok then ((0, Some FMkdir), w1) else if e \<noteq> None then ((0, e), w2)
       else case t of None \<Rightarrow> ((0, Some FCreateTemp), w3) | Some tmp \<Rightarrow> fill_temp tmp path uid gid m pr w3)"
      by (simp add: WriteTmpfsFile_def ow md w1 w2 w3 Let_def split: option.split)
    show ?thesis
    proof (cases "ok \<and> e = None \<and> t \<noteq> None")
      case True
      then obtain tmp where "t = Some tmp" by auto
      with True c(6) [OF this] c(1,2) s2 run assms ow md show ?thesis by (intro ran) auto
    next
      case False
      then have "r \<noteq> None \<and> fs_files w' = fs_files w \<and> fs_tmpfs w' = fs_tmpfs w \<and> fs_stuck w' = fs_stuck w"
        using run assms sysD [OF w1] s2 c by (auto split: if_splits option.splits)
      then show ?thesis using early by blast
    qed
  qed
qed


section \<open>The publishing contract\<close>

text \<open>
  What the callers of the primitive rely on: a publication either puts exactly the given bytes at
  the path and touches nothing else, or leaves every file alone, except that temporary files
  whose removal failed stay behind.
\<close>

definition is_temp :: "string \<Rightarrow> bool" where
  "is_temp q \<longleftrightarrow> (\<exists>d r. q = temp_name d r)"

text \<open>Temporary files are known by their names' end.\<close>

lemma is_temp_tmp: "is_temp q \<Longrightarrow> \<exists>p. q = p @ ''.tmp''"
proof -
  assume "is_temp q"
  then obtain d r where q: "q = path_join d (''.berm-'' @ r @ ''.tmp'')" by (auto simp: is_temp_def temp_name_def)
  have "path_join d (''.berm-'' @ r @ ''.tmp'') =
     path_clean ((if d = [] then ''.berm-'' @ r else d @ ''/.berm-'' @ r) @ ''.tmp'')"
    by (simp add: path_join_def)
  then show ?thesis using path_clean_tmp q by metis
qed

lemma not_temp: "take 4 (rev q) \<noteq> ''pmt.'' \<Longrightarrow> \<not> is_temp q"
  by (auto dest!: is_temp_tmp)

definition content :: "fs \<Rightarrow> string \<Rightarrow> string option" where
  "content w p = map_option fn_data (fs_files w (path_clean p))"

lemma undone_content:
  assumes "undone tmp w1 w'" "fs_files w1 = (fs_files w)(tmp \<mapsto> nd)" "fs_files w tmp = None" "fs_stuck w1 = fs_stuck w"
  shows "fs_files w' q = fs_files w q \<or> (q = tmp \<and> q \<in> fs_stuck w' \<and> fs_files w q = None)"
  using assms by (cases "q = tmp") (auto simp: undone_def)

lemma WriteTmpfsFile_result:
  assumes "WriteTmpfsFile path owner mode req pr w = ((n, r), w')"
  shows "case r of
      None \<Rightarrow> pr_ok pr \<and> n = length (pr_bytes pr) \<and> (\<exists>uid gid m. parseOwner owner = Inr (uid, gid)
         \<and> parseMode mode = Inr m \<and> fs_files w' = (fs_files w)(path_clean path \<mapsto>
            \<lparr>fn_data = pr_bytes pr, fn_uid = chown_id (fs_uid w) uid, fn_gid = chown_id (fs_gid w) gid, fn_mode = m\<rparr>))
    | Some e \<Rightarrow> (\<forall>q. fs_files w' q = fs_files w q \<or>
         (q \<in> fs_stuck w' \<and> fs_files w q = None \<and> (\<exists>x. q = temp_name (path_dir path) x)))"
  using assms
proof (cases rule: WriteTmpfsFile_cases)
  case (ran uid gid m tmp nd w1)
  have t: "(fs_files w1)(tmp := None) = fs_files w" using ran(4,7) by (simp add: fun_upd_idem)
  have "fs_files w1 tmp = Some nd" using ran(7) by simp
  then show ?thesis
    using ran(10)
  proof (cases rule: fill_temp_cases)
    case (failed e)
    then show ?thesis using undone_content [OF failed(2) ran(7,4,9)] ran(5) by auto
  next
    case published
    then show ?thesis using ran(1,2,6) t by (auto simp: chown_node_def)
  qed
qed simp

locale publisher =
  fixes publish :: "string \<Rightarrow> string \<Rightarrow> string \<Rightarrow> string \<Rightarrow> fs \<Rightarrow> file_error option \<times> fs"
  assumes done_ok: "publish p ow md d w = (None, w') \<Longrightarrow>
      content w' p = Some d \<and> (\<forall>q. q \<noteq> path_clean p \<longrightarrow> fs_files w' q = fs_files w q)"
    and done_err: "publish p ow md d w = (Some e, w') \<Longrightarrow> \<not> is_temp q \<Longrightarrow> fs_files w' q = fs_files w q"
begin

text \<open>A sequence of publications that stops at the first failure.\<close>

fun publish_all :: "(string \<times> string \<times> string \<times> string) list \<Rightarrow> fs \<Rightarrow> file_error option \<times> fs" where
  "publish_all [] w = (None, w)"
| "publish_all ((p, ow, md, d) # xs) w =
     (case publish p ow md d w of (None, w') \<Rightarrow> publish_all xs w' | (Some e, w') \<Rightarrow> (Some e, w'))"

lemma frame: "publish p ow md d w = (r, w') \<Longrightarrow> \<not> is_temp q \<Longrightarrow> q \<noteq> path_clean p \<Longrightarrow> fs_files w' q = fs_files w q"
  by (cases r) (auto dest: done_ok done_err)

lemma publish_all_frame:
  "publish_all xs w = (r, w') \<Longrightarrow> \<not> is_temp q \<Longrightarrow> q \<notin> (\<lambda>x. path_clean (fst x)) ` set xs \<Longrightarrow>
     fs_files w' q = fs_files w q"
proof (induction xs arbitrary: w)
  case (Cons x xs)
  obtain p ow md d where x: "x = (p, ow, md, d)" by (metis prod.exhaust)
  obtain r1 w1 where s: "publish p ow md d w = (r1, w1)" by (metis prod.exhaust)
  have "fs_files w1 q = fs_files w q" using frame [OF s] Cons.prems x by auto
  then show ?case using Cons x s by (cases r1) auto
qed simp

lemma publish_all_content:
  assumes "publish_all xs w = (None, w')" "(p, ow, md, d) \<in> set xs" "\<not> is_temp (path_clean p)"
    and "distinct (map (\<lambda>x. path_clean (fst x)) xs)"
  shows "content w' p = Some d"
  using assms
proof (induction xs arbitrary: w)
  case (Cons x xs)
  obtain p1 ow1 md1 d1 where x: "x = (p1, ow1, md1, d1)" by (metis prod.exhaust)
  obtain w1 where s: "publish p1 ow1 md1 d1 w = (None, w1)" and rest: "publish_all xs w1 = (None, w')"
    using Cons.prems(1) x by (auto split: prod.splits option.splits)
  show ?case
  proof (cases "(p, ow, md, d) = x")
    case True
    then have "content w1 p = Some d" using done_ok [OF s] x by simp
    moreover have "path_clean p \<notin> (\<lambda>x. path_clean (fst x)) ` set xs" using Cons.prems(4) True x by auto
    ultimately show ?thesis
      using publish_all_frame [OF rest Cons.prems(3)] by (simp add: content_def)
  next
    case False
    then show ?thesis using Cons rest x by auto
  qed
qed simp

text \<open>A failure happens at one publication: those before it succeeded, and those after it were not tried.\<close>

text \<open>When all of them succeed, a file holds the last data published at its path, and the others are as before.\<close>

lemma publish_all_last:
  "publish_all xs w = (None, w') \<Longrightarrow>
     content w' q = (case map_of (rev (map (\<lambda>(p, ow, md, d). (path_clean p, d)) xs)) (path_clean q) of Some d \<Rightarrow> Some d | None \<Rightarrow> content w q)"
proof (induction xs arbitrary: w)
  case (Cons x xs)
  obtain p ow md d where x: "x = (p, ow, md, d)" by (metis prod.exhaust)
  obtain w1 where s: "publish p ow md d w = (None, w1)" and rest: "publish_all xs w1 = (None, w')"
    using Cons.prems x by (auto split: prod.splits option.splits)
  have "content w1 q = (if path_clean q = path_clean p then Some d else content w q)"
    using done_ok [OF s] by (auto simp: content_def)
  then show ?case using Cons.IH [OF rest] x by (auto simp: map_add_def split: option.splits)
qed simp

lemma publish_all_append:
  "publish_all (xs @ ys) w =
     (case publish_all xs w of (None, w') \<Rightarrow> publish_all ys w' | (Some e, w') \<Rightarrow> (Some e, w'))"
proof (induction xs arbitrary: w)
  case (Cons x xs)
  obtain p ow md d where x: "x = (p, ow, md, d)" by (metis prod.exhaust)
  obtain r1 w1 where "publish p ow md d w = (r1, w1)" by (metis prod.exhaust)
  then show ?case using Cons x by (cases r1) auto
qed simp

end

interpretation bytes: publisher "\<lambda>p ow md d w. WriteBytesFile p ow md req d w" for req
proof
  fix p ow md d w w'
  assume "WriteBytesFile p ow md req d w = (None, w')"
  then obtain n where "WriteTmpfsFile p ow md req \<lparr>pr_bytes = d, pr_ok = True\<rparr> w = ((n, None), w')"
    by (auto simp: WriteBytesFile_def split: prod.splits)
  from WriteTmpfsFile_result [OF this]
  show "content w' p = Some d \<and> (\<forall>q. q \<noteq> path_clean p \<longrightarrow> fs_files w' q = fs_files w q)"
    by (auto simp: content_def)
next
  fix p ow md d w e w' q
  assume "WriteBytesFile p ow md req d w = (Some e, w')" "\<not> is_temp q"
  then obtain n where "WriteTmpfsFile p ow md req \<lparr>pr_bytes = d, pr_ok = True\<rparr> w = ((n, Some e), w')"
    by (auto simp: WriteBytesFile_def split: prod.splits)
  from WriteTmpfsFile_result [OF this] \<open>\<not> is_temp q\<close>
  show "fs_files w' q = fs_files w q" by (auto simp: is_temp_def)
qed

section \<open>Owners and modes from the grammar\<close>

lemma digit_val_range: "is_octal c \<Longrightarrow> 0 \<le> digit_val c \<and> digit_val c < 8"
  "is_digit c \<Longrightarrow> 0 \<le> digit_val c"
proof -
  show "is_octal c \<Longrightarrow> 0 \<le> digit_val c \<and> digit_val c < 8" "is_digit c \<Longrightarrow> 0 \<le> digit_val c"
    unfolding digit_val_def is_octal_def is_digit_def Let_def by linarith+
qed

lemma digits_val_bound: "list_all is_octal s \<Longrightarrow> digits_val 8 s acc < (acc + 1) * 8 ^ length s"
proof (induction s arbitrary: acc)
  case (Cons c cs)
  then have "digits_val 8 cs (acc * 8 + digit_val c) < (acc * 8 + digit_val c + 1) * 8 ^ length cs" by simp
  also have "\<dots> \<le> ((acc + 1) * 8) * 8 ^ length cs"
    using Cons.prems digit_val_range(1) [of c] by (intro mult_right_mono) simp_all
  finally show ?case by (simp add: algebra_simps)
qed simp

lemma digits_val_nonneg: "list_all is_digit s \<Longrightarrow> 0 \<le> acc \<Longrightarrow> 0 \<le> digits_val 10 s acc"
proof (induction s arbitrary: acc)
  case (Cons c cs)
  then have "0 \<le> acc * 10 + digit_val c" using digit_val_range(2) [of c] by simp
  with Cons show ?case by simp
qed simp

lemma modePattern_parses: "modePattern s \<Longrightarrow> parseMode s = Inr (digits_val 8 s 0 mod 0x200)"
proof -
  assume m: "modePattern s"
  then have o: "list_all is_octal s" and l: "length s \<le> 4" "s \<noteq> []" by (auto simp: modePattern_def)
  have "digits_val 8 s 0 < 8 ^ length s" using digits_val_bound [OF o, of 0] by simp
  also have "(8::int) ^ length s \<le> 8 ^ 4" using l(1) by (intro power_increasing) simp_all
  finally show ?thesis using o l(2) by (simp add: parseMode_def)
qed

lemma digits1_no_sign: "digits1 s \<Longrightarrow> \<not> has_prefix s ''-'' \<and> \<not> has_prefix s ''+''"
proof -
  assume d: "digits1 s"
  then obtain c cs where s: "s = c # cs" "is_digit c" by (cases s) (simp_all add: digits1_def)
  have "\<not> is_digit CHR ''-''" "\<not> is_digit CHR ''+''" by (simp_all add: is_digit_def)
  then have "c \<noteq> CHR ''-''" "c \<noteq> CHR ''+''" using s(2) by metis+
  then show ?thesis by (simp add: s(1))
qed

lemma digits1_atoi:
  "digits1 s \<Longrightarrow> digits_val 10 s 0 < 2 ^ 63 \<Longrightarrow> atoi s = Some (digits_val 10 s 0) \<and> 0 \<le> digits_val 10 s 0"
proof -
  assume d: "digits1 s" and b: "digits_val 10 s 0 < 2 ^ 63"
  have "0 \<le> digits_val 10 s 0" using d by (simp add: digits1_def digits_val_nonneg)
  then show ?thesis using d b digits1_no_sign [OF d] by (simp add: atoi_def)
qed

definition owner_small :: "string \<Rightarrow> bool" where
  "owner_small s \<longleftrightarrow> (\<forall>x \<in> set (split_byte CHR '':'' s). digits_val 10 x 0 < 2 ^ 63)"

lemma ownerPattern_parses:
  assumes "ownerPattern s" "owner_small s"
  shows "\<exists>uid gid. parseOwner s = Inr (uid, gid) \<and> 0 \<le> uid \<and> -1 \<le> gid"
proof (cases "index_byte s CHR '':''")
  case None
  then have d: "digits1 s" using assms(1) by (simp add: ownerPattern_def)
  then have "s \<noteq> []" by (simp add: digits1_def)
  moreover have "digits_val 10 s 0 < 2 ^ 63"
    using assms(2) None by (simp add: owner_small_def split_byte_no_sep index_byte_None)
  ultimately show ?thesis using None digits1_atoi [OF d] by (simp add: parseOwner_def gidUnchanged_def)
next
  case (Some i)
  let ?u = "take i s" and ?g = "drop (Suc i) s"
  have d: "digits1 ?u" "digits1 ?g" using assms(1) Some by (simp_all add: ownerPattern_def)
  have i: "i < length s" "s ! i = CHR '':''" "CHR '':'' \<notin> set ?u" using Some by (simp_all add: index_byte_Some)
  then have s: "s = ?u @ CHR '':'' # ?g" using id_take_nth_drop [of i s] by simp
  have nc: "CHR '':'' \<notin> set ?g" using d(2) by (auto simp: digits1_def list_all_iff is_digit_def)
  have "split_byte CHR '':'' (?u @ CHR '':'' # ?g) = [?u, ?g]"
    using i(3) nc by (simp add: split_byte_append split_byte_no_sep)
  then have "split_byte CHR '':'' s = [?u, ?g]" using s by simp
  then have "digits_val 10 ?u 0 < 2 ^ 63" "digits_val 10 ?g 0 < 2 ^ 63" using assms(2) by (simp_all add: owner_small_def)
  then show ?thesis
    using Some digits1_atoi [OF d(1)] digits1_atoi [OF d(2)] i(1) by (auto simp: parseOwner_def)
qed

section \<open>Properties\<close>

definition sample_fs :: fs where
  "sample_fs = \<lparr>fs_files = Map.empty, fs_tmpfs = (\<lambda>d. d = ''/run/berm''), fs_faults = [],
     fs_rand = [''123''], fs_uid = 0, fs_gid = 0, fs_stuck = {}\<rparr>"

definition sample_write :: "nat option list \<Rightarrow> (nat \<times> file_error option) \<times> fs" where
  "sample_write faults = WriteTmpfsFile ''/run/berm/a'' ''1000'' ''0400'' True \<lparr>pr_bytes = ''pw'', pr_ok = True\<rparr>
     (sample_fs\<lparr>fs_faults := faults\<rparr>)"

text \<open>
  C12: a secret file is published whole or not at all. Whatever system calls fail and wherever
  the producer stops, a write that reports success leaves at the path exactly the bytes produced, with
  the owner and the permission bits asked for, and changes no other file; a write that reports
  an error changes no file, except that a temporary file whose removal itself failed may stay.
\<close>

theorem WriteTmpfsFile_atomic:
  assumes "WriteTmpfsFile path owner mode req pr w = ((n, r), w')"
  shows "case r of
      None \<Rightarrow> pr_ok pr \<and> n = length (pr_bytes pr) \<and> (\<exists>uid gid m. parseOwner owner = Inr (uid, gid)
         \<and> parseMode mode = Inr m \<and> fs_files w' = (fs_files w)(path_clean path \<mapsto>
            \<lparr>fn_data = pr_bytes pr, fn_uid = chown_id (fs_uid w) uid, fn_gid = chown_id (fs_gid w) gid, fn_mode = m\<rparr>))
    | Some e \<Rightarrow> (\<forall>q. fs_files w' q = fs_files w q \<or>
         (q \<in> fs_stuck w' \<and> fs_files w q = None \<and> (\<exists>x. q = temp_name (path_dir path) x)))"
  using assms by (rule WriteTmpfsFile_result)

theorem WriteTmpfsFile_atomic_witness:
  "fst (sample_write [None, None, None, Some 1]) = (1, Some FProduce)
    \<and> fs_files (snd (sample_write [None, None, None, Some 1])) ''/run/berm/a'' = None
    \<and> map_option fn_data (fs_files (snd (sample_write [])) ''/run/berm/a'') = Some ''pw''"
proof -
  obtain n r w' where s: "sample_write [] = ((n, r), w')" by (metis prod.exhaust)
  have r: "fst (sample_write []) = (2, None)" by code_simp
  have p: "path_clean ''/run/berm/a'' = ''/run/berm/a''" by code_simp
  have "fs_files w' ''/run/berm/a'' \<noteq> None \<and> map_option fn_data (fs_files w' ''/run/berm/a'') = Some ''pw''"
    using WriteTmpfsFile_atomic [OF s [unfolded sample_write_def]] r s p by auto
  moreover have "fst (sample_write [None, None, None, Some 1]) = (1, Some FProduce)" by code_simp
  moreover have "fs_files (snd (sample_write [None, None, None, Some 1])) ''/run/berm/a'' = None" by code_simp
  ultimately show ?thesis using s by simp
qed

text \<open>
  no plaintext off a tmpfs. When a tmpfs is required and the directory of the path is not on
  one, or that cannot be verified, the write is refused and no file at all is created or changed.
\<close>

theorem WriteTmpfsFile_tmpfs_only:
  assumes "WriteTmpfsFile path owner mode True pr w = ((n, r), w')" "\<not> fs_tmpfs w (path_dir path)"
  shows "r \<noteq> None \<and> fs_files w' = fs_files w \<and> fs_stuck w' = fs_stuck w"
  using assms(1) by (cases rule: WriteTmpfsFile_cases) (use assms(2) in auto)

theorem WriteTmpfsFile_tmpfs_only_witness:
  "fs_files (snd (WriteTmpfsFile ''/var/a'' ''1000'' ''0400'' True \<lparr>pr_bytes = ''pw'', pr_ok = True\<rparr> sample_fs)) = Map.empty"
proof -
  obtain n r w' where s: "WriteTmpfsFile ''/var/a'' ''1000'' ''0400'' True \<lparr>pr_bytes = ''pw'', pr_ok = True\<rparr> sample_fs = ((n, r), w')"
    by (metis prod.exhaust)
  have "path_dir ''/var/a'' = ''/var''" by code_simp
  then have "\<not> fs_tmpfs sample_fs (path_dir ''/var/a'')" by (simp add: sample_fs_def)
  from WriteTmpfsFile_tmpfs_only [OF s this] s show ?thesis by (simp add: sample_fs_def)
qed

text \<open>
  what the label grammar accepts the writer can apply. An owner and mode that match the
  grammar's patterns parse, if the numbers fit the machine's integers, to a non-negative user id and to
  nine permission bits: a set-user-id bit in a four-digit mode is dropped.
\<close>

theorem label_owner_mode_parse:
  assumes "ownerPattern ow" "owner_small ow" "modePattern md"
  shows "(\<exists>uid gid. parseOwner ow = Inr (uid, gid) \<and> 0 \<le> uid \<and> -1 \<le> gid)
    \<and> parseMode md = Inr (digits_val 8 md 0 mod 0x200)"
  using ownerPattern_parses [OF assms(1,2)] modePattern_parses [OF assms(3)] by simp

theorem label_owner_mode_parse_witness: "parseMode ''4755'' = Inr 0x1ED"
proof -
  have "ownerPattern ''1000:1000'' \<and> owner_small ''1000:1000'' \<and> modePattern ''4755''" by code_simp
  moreover have "digits_val 8 ''4755'' 0 mod 0x200 = 0x1ED" by code_simp
  ultimately show ?thesis using label_owner_mode_parse [of "''1000:1000''" "''4755''"] by simp
qed

end
