(* ===== verification/Delivery_Volume.thy ===== *)
theory Delivery_Volume
  imports Delivery_Bundle Wire_File
begin

text \<open>
  \<open>internal/delivery/writer.go\<close> and \<open>volume.go\<close>: the daemon writing secrets itself, into a tmpfs volume it
  shares with the container, the manifest last. The state is the file system and locked memory.
  What a callback of the tmpfs writer would produce is computed before the writer is called; the
  writer uses it only once the temporary file exists.
\<close>

record world =
  wd_fs :: fs
  wd_mem :: lockmem

datatype write_error =
    WOpen string open_error
  | WKeys string backend_error
  | WFile string file_error
  | WUnknownRender string
  | WEnvUnsupported mechanism
  | WNoMount
  | WOutsideVolume string
  | WHash open_error
  | WManifest file_error

section \<open>Files and renders\<close>

definition to_produce :: "string \<times> backend_error option \<Rightarrow> produce" where
  "to_produce w = \<lparr>pr_bytes = fst w, pr_ok = (snd w = None)\<rparr>"

definition write_secret ::
  "string \<Rightarrow> string \<Rightarrow> string \<Rightarrow> bool \<Rightarrow> produce \<Rightarrow> fs \<Rightarrow> file_error option \<times> fs" where
  "write_secret path owner mode requireTmpfs pr w =
     (let ((n, e), w') = WriteTmpfsFile path owner mode requireTmpfs pr w in (e, w'))"

definition WriteFile :: "'h source_ops \<Rightarrow> file_target \<Rightarrow> bool \<Rightarrow> world \<Rightarrow> write_error option \<times> world" where
  "WriteFile ops ft requireTmpfs w =
     (case so_open ops (ft_source ft) of
        Inl e \<Rightarrow> (Some (WOpen (ft_source ft) e), w)
      | Inr op \<Rightarrow>
          let (out, lm1) = (if ft_whole ft then (so_write_payload ops op, wd_mem w)
                            else so_write_value ops op (ft_key ft) (wd_mem w));
              (e, fs') = write_secret (ft_path ft) (ft_owner ft) (ft_mode ft) requireTmpfs (to_produce out) (wd_fs w) in
          (map_option (WFile (ft_name ft)) e, \<lparr>wd_fs = fs', wd_mem = snd (so_close ops op lm1)\<rparr>))"

text \<open>The callback of a dotenv render: it stops at the first value that fails.\<close>

fun produce_dotenv ::
  "'h source_ops \<Rightarrow> 'h \<Rightarrow> string list \<Rightarrow> lockmem \<Rightarrow> (string \<times> backend_error option) \<times> lockmem" where
  "produce_dotenv ops op [] lm = (([], None), lm)"
| "produce_dotenv ops op (k # ks) lm =
     (let ((v, e), lm1) = so_write_value ops op k lm in
      if e \<noteq> None then ((k @ ''='' @ v, e), lm1)
      else let ((rest, e'), lm2) = produce_dotenv ops op ks lm1 in ((k @ ''='' @ v @ [newline] @ rest, e'), lm2))"

fun write_envdir ::
  "'h source_ops \<Rightarrow> 'h \<Rightarrow> render_target \<Rightarrow> bool \<Rightarrow> string list \<Rightarrow> fs \<Rightarrow> lockmem \<Rightarrow> write_error option \<times> fs \<times> lockmem" where
  "write_envdir ops op rt requireTmpfs [] w lm = (None, w, lm)"
| "write_envdir ops op rt requireTmpfs (k # ks) w lm =
     (let (out, lm1) = so_write_value ops op k lm;
          (e, w1) = write_secret (path_join (rt_path rt) k) (rt_owner rt) (rt_mode rt) requireTmpfs (to_produce out) w in
      case e of
        Some x \<Rightarrow> (Some (WFile k x), w1, lm1)
      | None \<Rightarrow> write_envdir ops op rt requireTmpfs ks w1 lm1)"

definition WriteRender :: "'h source_ops \<Rightarrow> render_target \<Rightarrow> bool \<Rightarrow> world \<Rightarrow> write_error option \<times> world" where
  "WriteRender ops rt requireTmpfs w =
     (case so_open ops (rt_source rt) of
        Inl e \<Rightarrow> (Some (WOpen (rt_source rt) e), w)
      | Inr op \<Rightarrow>
          let (ks, lm1) = so_keys ops op (wd_mem w) in
          (case ks of
             Inl e \<Rightarrow> (Some (WKeys (rt_source rt) e), w\<lparr>wd_mem := snd (so_close ops op lm1)\<rparr>)
           | Inr keys \<Rightarrow>
               if rt_kind rt = RenderDotenv then
                 let (out, lm2) = produce_dotenv ops op keys lm1;
                     (e, fs') = write_secret (rt_path rt) (rt_owner rt) (rt_mode rt) requireTmpfs (to_produce out) (wd_fs w) in
                 (map_option (WFile ''dotenv'') e, \<lparr>wd_fs = fs', wd_mem = snd (so_close ops op lm2)\<rparr>)
               else if rt_kind rt = RenderEnvdir then
                 let (e, fs', lm2) = write_envdir ops op rt requireTmpfs keys (wd_fs w) lm1 in
                 (e, \<lparr>wd_fs = fs', wd_mem = snd (so_close ops op lm2)\<rparr>)
               else (Some (WUnknownRender (rt_kind rt)), w\<lparr>wd_mem := snd (so_close ops op lm1)\<rparr>)))"

definition WriteManifest :: "string \<Rightarrow> string \<Rightarrow> bool \<Rightarrow> fs \<Rightarrow> file_error option \<times> fs" where
  "WriteManifest path data requireTmpfs w = WriteBytesFile path ''0:0'' ''0444'' requireTmpfs data w"

section \<open>The volume\<close>

definition volumeContainerRoot :: string where
  "volumeContainerRoot = path_dir DefaultManifestPath"

definition rebaseIntoVolume :: "string \<Rightarrow> string \<Rightarrow> string option" where
  "rebaseIntoVolume containerPath volumeMountPath =
     (case path_rel volumeContainerRoot (path_clean containerPath) of
        None \<Rightarrow> None
      | Some rel \<Rightarrow>
          if rel = ''..'' \<or> has_prefix rel ''../'' then None else Some (path_join volumeMountPath rel))"

fun volume_files ::
  "'h source_ops \<Rightarrow> string \<Rightarrow> bool \<Rightarrow> file_target list \<Rightarrow> world \<Rightarrow> write_error option \<times> world" where
  "volume_files ops mount req [] w = (None, w)"
| "volume_files ops mount req (ft # fts) w =
     (case rebaseIntoVolume (ft_path ft) mount of
        None \<Rightarrow> (Some (WOutsideVolume (ft_path ft)), w)
      | Some dst \<Rightarrow>
          (case WriteFile ops (ft\<lparr>ft_path := dst\<rparr>) req w of
             (Some e, w') \<Rightarrow> (Some e, w') | (None, w') \<Rightarrow> volume_files ops mount req fts w'))"

fun volume_renders ::
  "'h source_ops \<Rightarrow> string \<Rightarrow> bool \<Rightarrow> render_target list \<Rightarrow> world \<Rightarrow> write_error option \<times> world" where
  "volume_renders ops mount req [] w = (None, w)"
| "volume_renders ops mount req (rt # rts) w =
     (case rebaseIntoVolume (rt_path rt) mount of
        None \<Rightarrow> (Some (WOutsideVolume (rt_path rt)), w)
      | Some dst \<Rightarrow>
          (case WriteRender ops (rt\<lparr>rt_path := dst\<rparr>) req w of
             (Some e, w') \<Rightarrow> (Some e, w') | (None, w') \<Rightarrow> volume_renders ops mount req rts w'))"

definition volume_manifest ::
  "'h source_ops \<Rightarrow> build_env \<Rightarrow> dplan \<Rightarrow> string \<Rightarrow> bool \<Rightarrow> world \<Rightarrow> write_error option \<times> world" where
  "volume_manifest ops env plan mount req w =
     (case BuildManifest ops plan (bd_now env) of
        Inl e \<Rightarrow> (Some (WHash e), w)
      | Inr m \<Rightarrow>
          (case rebaseIntoVolume DefaultManifestPath mount of
             None \<Rightarrow> (Some (WOutsideVolume DefaultManifestPath), w)
           | Some dst \<Rightarrow>
               let (e, fs') = WriteManifest dst (bd_marshal env m) req (wd_fs w) in
               (map_option WManifest e, w\<lparr>wd_fs := fs'\<rparr>)))"

definition applyVolume ::
  "'h source_ops \<Rightarrow> build_env \<Rightarrow> dplan \<Rightarrow> string \<Rightarrow> bool \<Rightarrow> world \<Rightarrow> write_error option \<times> world" where
  "applyVolume ops env plan mount req w =
     (if dp_env plan \<noteq> [] then (Some (WEnvUnsupported (dp_mechanism plan)), w)
      else if mount = [] then (Some WNoMount, w)
      else case volume_files ops mount req (dp_files plan) w of
             (Some e, w1) \<Rightarrow> (Some e, w1)
           | (None, w1) \<Rightarrow>
               (case volume_renders ops mount req (dp_renders plan) w1 of
                  (Some e, w2) \<Rightarrow> (Some e, w2)
                | (None, w2) \<Rightarrow> volume_manifest ops env plan mount req w2))"

definition ApplyVolume ::
  "'h source_ops \<Rightarrow> build_env \<Rightarrow> dplan \<Rightarrow> string \<Rightarrow> world \<Rightarrow> write_error option \<times> world" where
  "ApplyVolume ops env plan mount w = applyVolume ops env plan mount True w"

definition volume_supports_env :: bool where "volume_supports_env = False"

text \<open>The check a waiter polls: the manifest is absent, is there and parses, or is damaged.\<close>

datatype ready_error = ReadyUnreadable | ReadyParse manifest_error

definition ManifestReady :: "(string \<Rightarrow> manifest option) \<Rightarrow> string \<Rightarrow> fs \<Rightarrow> (ready_error + bool) \<times> fs" where
  "ManifestReady parse path w =
     (let (ok, w') = sys w in
      if \<not> ok then (Inl ReadyUnreadable, w')
      else (case content w' path of
              None \<Rightarrow> Inr False
            | Some data \<Rightarrow> (case ParseManifest parse data of Inl e \<Rightarrow> Inl (ReadyParse e) | Inr m \<Rightarrow> Inr True), w'))"

text \<open>\<open>Volume.Deliver\<close>: the errors of \<open>ApplyVolume\<close>, one of which callers can tell from the others.\<close>

definition volume_deliver ::
  "'h source_ops \<Rightarrow> build_env \<Rightarrow> string \<Rightarrow> dplan \<Rightarrow> world \<Rightarrow> write_error delivery_error option \<times> world" where
  "volume_deliver ops env mount plan w =
     (case ApplyVolume ops env plan mount w of
        (None, w') \<Rightarrow> (None, w')
      | (Some (WEnvUnsupported m), w') \<Rightarrow> (Some ErrEnvUnsupported, w')
      | (Some e, w') \<Rightarrow> (Some (DeliveryFailure e), w'))"

interpretation volume_mech: delivery_mechanism MechVolume volume_supports_env "volume_deliver ops env mount"
  for ops env mount
  by unfold_locales (auto simp: volume_supports_env_def EnvAllowed_def volume_deliver_def ApplyVolume_def applyVolume_def)

section \<open>One secret file\<close>

lemma write_secret_spec:
  assumes "write_secret p ow md req pr w = (e, w')"
  shows "e = None \<Longrightarrow> pr_ok pr \<and> content w' p = Some (pr_bytes pr)"
    "\<not> is_temp q \<Longrightarrow> q \<noteq> path_clean p \<or> e \<noteq> None \<Longrightarrow> fs_files w' q = fs_files w q"
proof -
  obtain n where "WriteTmpfsFile p ow md req pr w = ((n, e), w')"
    using assms by (auto simp: write_secret_def split: prod.splits)
  note r = WriteTmpfsFile_result [OF this]
  show "e = None \<Longrightarrow> pr_ok pr \<and> content w' p = Some (pr_bytes pr)"
    using r by (auto simp: content_def)
  show "fs_files w' q = fs_files w q" if "\<not> is_temp q" "q \<noteq> path_clean p \<or> e \<noteq> None"
    using r that by (cases e) (auto simp: is_temp_def)
qed

interpretation secret: publisher "\<lambda>p ow md d w. write_secret p ow md req \<lparr>pr_bytes = d, pr_ok = True\<rparr> w" for req
proof
  fix p ow md d w w'
  assume "write_secret p ow md req \<lparr>pr_bytes = d, pr_ok = True\<rparr> w = (None, w')"
  then obtain n where "WriteTmpfsFile p ow md req \<lparr>pr_bytes = d, pr_ok = True\<rparr> w = ((n, None), w')"
    by (auto simp: write_secret_def split: prod.splits)
  from WriteTmpfsFile_result [OF this]
  show "content w' p = Some d \<and> (\<forall>q. q \<noteq> path_clean p \<longrightarrow> fs_files w' q = fs_files w q)"
    by (auto simp: content_def)
next
  fix p ow md d w e w' q
  assume "write_secret p ow md req \<lparr>pr_bytes = d, pr_ok = True\<rparr> w = (Some e, w')" "\<not> is_temp q"
  from write_secret_spec(2) [OF this] show "fs_files w' q = fs_files w q" by simp
qed

text \<open>What a step may change: the paths \<open>P\<close>, and only when it \<open>may\<close>.\<close>

definition same_outside :: "string set \<Rightarrow> fs \<Rightarrow> fs \<Rightarrow> bool" where
  "same_outside P w w' \<longleftrightarrow> (\<forall>q. \<not> is_temp q \<longrightarrow> q \<notin> P \<longrightarrow> fs_files w' q = fs_files w q)"

lemma same_outside_refl [simp]: "same_outside P w w"
  by (simp add: same_outside_def)

lemma same_outside_trans: "same_outside P a b \<Longrightarrow> same_outside Q b c \<Longrightarrow> same_outside (P \<union> Q) a c"
  by (simp add: same_outside_def)

lemma same_outside_mono: "same_outside P a b \<Longrightarrow> P \<subseteq> Q \<Longrightarrow> same_outside Q a b"
  by (auto simp: same_outside_def)

lemma write_secret_footprint: "write_secret p ow md req pr w = (e, w') \<Longrightarrow> same_outside {path_clean p} w w'"
  using write_secret_spec(2) by (auto simp: same_outside_def)

lemma content_outside:
  "same_outside P w w' \<Longrightarrow> \<not> is_temp (path_clean p) \<Longrightarrow> path_clean p \<notin> P \<Longrightarrow> content w' p = content w p"
  by (simp add: same_outside_def content_def)

text \<open>Locked memory after a step is as before it.\<close>

definition mem_same :: "lockmem \<Rightarrow> lockmem \<Rightarrow> bool" where
  "mem_same lm lm' \<longleftrightarrow> mem_ok lm' \<and> lm_live lm' = lm_live lm"

lemma mem_same_trans: "mem_same a b \<Longrightarrow> mem_same b c \<Longrightarrow> mem_same a c"
  by (simp add: mem_same_def)

lemma grows_mem_same: "grows lm lm' [] \<Longrightarrow> mem_ok lm \<Longrightarrow> mem_same lm lm'"
  unfolding mem_same_def by (rule conjI, erule (1) grows_mem_ok) (simp add: grows_def)

text \<open>The paths a render writes, and what a file target must hold: a value of its source, or the payload.\<close>

definition render_paths :: "'h source_ops \<Rightarrow> ('h \<Rightarrow> backend_error + string list) \<Rightarrow> render_target \<Rightarrow> string set" where
  "render_paths ops listed rt =
     (if rt_kind rt = RenderDotenv then {path_clean (rt_path rt)}
      else {path_clean (path_join (rt_path rt) k) | k op ks.
              so_open ops (rt_source rt) = Inr op \<and> listed op = Inr ks \<and> k \<in> set ks})"

definition file_value ::
  "'h source_ops \<Rightarrow> ('h \<Rightarrow> string \<Rightarrow> backend_error + string) \<Rightarrow> file_target \<Rightarrow> string \<Rightarrow> bool" where
  "file_value ops val ft d \<longleftrightarrow> (\<exists>op. so_open ops (ft_source ft) = Inr op
     \<and> (if ft_whole ft then so_write_payload ops op = (d, None) else val op (ft_key ft) = Inr d))"

lemma file_value_path [simp]: "file_value ops val (ft\<lparr>ft_path := p\<rparr>) = file_value ops val ft"
  by (simp add: file_value_def fun_eq_iff)

context secret_source
begin

lemma close_same: "kept h = [] \<Longrightarrow> mem_ok lm \<Longrightarrow> mem_same lm (snd (so_close ops h lm))"
proof -
  assume k: "kept h = []" "mem_ok lm"
  obtain h' lm' where c: "so_close ops h lm = (h', lm')" by (metis prod.exhaust)
  from close [OF c] k show ?thesis by (simp add: c mem_same_def mem_ok_def)
qed

lemma WriteFile_spec:
  assumes "WriteFile ops ft req w = (e, w')" "mem_ok (wd_mem w)"
  shows "mem_same (wd_mem w) (wd_mem w')" "same_outside {path_clean (ft_path ft)} (wd_fs w) (wd_fs w')"
    "e = None \<Longrightarrow> \<exists>d. content (wd_fs w') (ft_path ft) = Some d \<and> file_value ops value_of ft d"
proof -
  have "mem_same (wd_mem w) (wd_mem w') \<and> same_outside {path_clean (ft_path ft)} (wd_fs w) (wd_fs w')
    \<and> (e = None \<longrightarrow> (\<exists>d. content (wd_fs w') (ft_path ft) = Some d \<and> file_value ops value_of ft d))"
  proof (cases "so_open ops (ft_source ft)")
    case (Inl err)
    then show ?thesis using assms by (auto simp: WriteFile_def mem_same_def)
  next
    case (Inr op)
    obtain out lm1 where o: "(if ft_whole ft then (so_write_payload ops op, wd_mem w)
        else so_write_value ops op (ft_key ft) (wd_mem w)) = (out, lm1)" by (metis prod.exhaust)
    obtain e1 fs1 where s: "write_secret (ft_path ft) (ft_owner ft) (ft_mode ft) req (to_produce out) (wd_fs w) = (e1, fs1)"
      by (metis prod.exhaust)
    have m1: "mem_same (wd_mem w) lm1"
      using o assms(2) write_value [of op "ft_key ft" "wd_mem w" out lm1]
      by (auto simp: mem_same_def dest: grows_mem_same split: if_splits)
    then have m2: "mem_same (wd_mem w) (snd (so_close ops op lm1))"
      using close_same [OF opened_empty [OF Inr]] mem_same_trans by (auto simp: mem_same_def)
    have w': "e = map_option (WFile (ft_name ft)) e1" "wd_fs w' = fs1" "wd_mem w' = snd (so_close ops op lm1)"
      using assms(1) Inr o s by (auto simp: WriteFile_def)
    have "\<exists>d. content fs1 (ft_path ft) = Some d
       \<and> (if ft_whole ft then so_write_payload ops op = (d, None) else value_of op (ft_key ft) = Inr d)" if "e1 = None"
    proof -
      have p: "snd out = None" "content fs1 (ft_path ft) = Some (fst out)"
        using write_secret_spec(1) [OF s that] by (simp_all add: to_produce_def)
      show ?thesis
      proof (cases "ft_whole ft")
        case True
        then show ?thesis using o p by (intro exI [of _ "fst out"]) (simp add: prod_eq_iff)
      next
        case False
        then have "so_write_value ops op (ft_key ft) (wd_mem w) = (out, lm1)" using o by simp
        from write_value [OF this assms(2)] p False show ?thesis
          by (intro exI [of _ "fst out"]) (auto split: sum.splits)
      qed
    qed
    then show ?thesis using m2 write_secret_footprint [OF s] Inr by (auto simp: w' file_value_def)
  qed
  then show "mem_same (wd_mem w) (wd_mem w')" "same_outside {path_clean (ft_path ft)} (wd_fs w) (wd_fs w')"
    "e = None \<Longrightarrow> \<exists>d. content (wd_fs w') (ft_path ft) = Some d \<and> file_value ops value_of ft d" by blast+
qed

lemma produce_dotenv_spec:
  assumes "produce_dotenv ops op ks lm = (out, lm')" "mem_ok lm"
  shows "mem_same lm lm' \<and>
    (snd out = None \<longrightarrow> (\<exists>kvs. fst out = dotenv_text kvs \<and> list_all2 (\<lambda>k kv. fst kv = k \<and> value_of op k = Inr (snd kv)) ks kvs))"
  using assms
proof (induction ks arbitrary: lm lm' out)
  case Nil
  then show ?case by (auto simp: mem_same_def dotenv_text_def)
next
  case (Cons k ks)
  obtain v e lm1 where s: "so_write_value ops op k lm = ((v, e), lm1)" by (metis prod.exhaust)
  have m1: "mem_same lm lm1" using write_value [OF s Cons.prems(2)] Cons.prems(2) by (auto intro: grows_mem_same)
  show ?case
  proof (cases e)
    case (Some err)
    then show ?thesis using Cons.prems(1) s m1 by auto
  next
    case None
    then have v: "value_of op k = Inr v" using write_value [OF s Cons.prems(2)] by (auto split: sum.splits)
    obtain rest e' lm2 where r: "produce_dotenv ops op ks lm1 = ((rest, e'), lm2)" by (metis prod.exhaust)
    have o: "out = (k @ ''='' @ v @ [newline] @ rest, e')" "lm' = lm2" using Cons.prems(1) s None r by auto
    have "mem_ok lm1" using m1 by (simp add: mem_same_def)
    from Cons.IH [OF r this] have ih: "mem_same lm1 lm2"
      "e' = None \<longrightarrow> (\<exists>kvs. rest = dotenv_text kvs \<and> list_all2 (\<lambda>k kv. fst kv = k \<and> value_of op k = Inr (snd kv)) ks kvs)" by auto
    have "\<exists>kvs. fst out = dotenv_text kvs \<and> list_all2 (\<lambda>k kv. fst kv = k \<and> value_of op k = Inr (snd kv)) (k # ks) kvs"
      if "snd out = None"
    proof -
      obtain kvs where "rest = dotenv_text kvs" "list_all2 (\<lambda>k kv. fst kv = k \<and> value_of op k = Inr (snd kv)) ks kvs"
        using ih(2) o \<open>snd out = None\<close> by auto
      then show ?thesis using o v by (intro exI [of _ "(k, v) # kvs"]) (simp add: dotenv_text_def dotenv_line_def)
    qed
    then show ?thesis using mem_same_trans [OF m1 ih(1)] o(2) by simp
  qed
qed

lemma write_envdir_spec:
  assumes "write_envdir ops op rt req ks w lm = (e, w', lm')" "mem_ok lm"
  shows "mem_same lm lm' \<and> same_outside ((\<lambda>k. path_clean (path_join (rt_path rt) k)) ` set ks) w w'"
  using assms
proof (induction ks arbitrary: w lm)
  case Nil
  then show ?case by (simp add: mem_same_def)
next
  case (Cons k ks)
  obtain out lm1 where s: "so_write_value ops op k lm = (out, lm1)" by (metis prod.exhaust)
  obtain e1 w1 where p: "write_secret (path_join (rt_path rt) k) (rt_owner rt) (rt_mode rt) req (to_produce out) w = (e1, w1)"
    by (metis prod.exhaust)
  have m1: "mem_same lm lm1" using write_value [OF s Cons.prems(2)] Cons.prems(2) by (auto intro: grows_mem_same)
  note f1 = write_secret_footprint [OF p]
  show ?case
  proof (cases e1)
    case (Some x)
    then show ?thesis using Cons.prems(1) s p m1 same_outside_mono [OF f1] by auto
  next
    case None
    then have r: "write_envdir ops op rt req ks w1 lm1 = (e, w', lm')" using Cons.prems(1) s p by simp
    have "mem_ok lm1" using m1 by (simp add: mem_same_def)
    from Cons.IH [OF r this] show ?thesis using mem_same_trans [OF m1] same_outside_trans [OF f1] by auto
  qed
qed

lemma WriteRender_spec:
  assumes "WriteRender ops rt req w = (e, w')" "mem_ok (wd_mem w)"
  shows "mem_same (wd_mem w) (wd_mem w') \<and> same_outside (render_paths ops keys_of rt) (wd_fs w) (wd_fs w')"
proof (cases "so_open ops (rt_source rt)")
  case (Inl err)
  then show ?thesis using assms by (auto simp: WriteRender_def mem_same_def)
next
  case (Inr op)
  note k0 = opened_empty [OF Inr]
  obtain ks lm1 where k: "so_keys ops op (wd_mem w) = (ks, lm1)" by (metis prod.exhaust)
  have m1: "mem_same (wd_mem w) lm1" and ke: "ks = keys_of op"
    using read_keys [OF k assms(2)] assms(2) by (auto intro: grows_mem_same)
  then have ok1: "mem_ok lm1" by (simp add: mem_same_def)
  have closed: "mem_same (wd_mem w) (snd (so_close ops op lm2))" if "mem_same lm1 lm2" for lm2
    using mem_same_trans [OF m1 mem_same_trans [OF that close_same [OF k0]]] that by (simp add: mem_same_def)
  show ?thesis
  proof (cases ks)
    case (Inl err)
    then show ?thesis using assms(1) Inr k closed [of lm1] ok1 by (auto simp: WriteRender_def mem_same_def)
  next
    case keys: (Inr keys)
    consider (dot) "rt_kind rt = RenderDotenv" | (dir) "rt_kind rt \<noteq> RenderDotenv" "rt_kind rt = RenderEnvdir"
      | (other) "rt_kind rt \<noteq> RenderDotenv" "rt_kind rt \<noteq> RenderEnvdir" by blast
    then show ?thesis
    proof cases
      case dot
      obtain out lm2 where p: "produce_dotenv ops op keys lm1 = (out, lm2)" by (metis prod.exhaust)
      obtain e1 fs1 where s: "write_secret (rt_path rt) (rt_owner rt) (rt_mode rt) req (to_produce out) (wd_fs w) = (e1, fs1)"
        by (metis prod.exhaust)
      have "wd_fs w' = fs1 \<and> wd_mem w' = snd (so_close ops op lm2)"
        using assms(1) Inr k keys dot p s by (auto simp: WriteRender_def)
      then show ?thesis
        using write_secret_footprint [OF s] closed produce_dotenv_spec [OF p ok1] dot by (simp add: render_paths_def)
    next
      case dir
      obtain e1 fs1 lm2 where s: "write_envdir ops op rt req keys (wd_fs w) lm1 = (e1, fs1, lm2)" by (metis prod.exhaust)
      have "wd_fs w' = fs1 \<and> wd_mem w' = snd (so_close ops op lm2)"
        using assms(1) Inr k keys dir s by (auto simp: WriteRender_def)
      moreover have "(\<lambda>k. path_clean (path_join (rt_path rt) k)) ` set keys \<subseteq> render_paths ops keys_of rt"
        using Inr ke [symmetric] keys dir by (auto simp: render_paths_def)
      ultimately show ?thesis using write_envdir_spec [OF s ok1] closed by (auto intro: same_outside_mono)
    next
      case other
      then show ?thesis using assms(1) Inr k keys closed [of lm1] ok1 by (auto simp: WriteRender_def mem_same_def)
    qed
  qed
qed

end

section \<open>The loops\<close>

text \<open>The paths a plan's files and renders land on in a volume.\<close>

definition file_dsts :: "string \<Rightarrow> file_target list \<Rightarrow> string set" where
  "file_dsts mount fts = {path_clean dst | dst ft. ft \<in> set fts \<and> rebaseIntoVolume (ft_path ft) mount = Some dst}"

definition render_dsts :: "'h source_ops \<Rightarrow> ('h \<Rightarrow> backend_error + string list) \<Rightarrow> string \<Rightarrow> render_target list \<Rightarrow> string set" where
  "render_dsts ops listed mount rts = (\<Union>{render_paths ops listed (rt\<lparr>rt_path := dst\<rparr>) | dst rt.
      rt \<in> set rts \<and> rebaseIntoVolume (rt_path rt) mount = Some dst})"

context secret_source
begin

lemma volume_files_spec:
  assumes "volume_files ops mount req fts w = (e, w')" "mem_ok (wd_mem w)"
  shows "mem_same (wd_mem w) (wd_mem w') \<and> same_outside (file_dsts mount fts) (wd_fs w) (wd_fs w')
    \<and> (e = None \<longrightarrow> (\<forall>ft \<in> set fts. \<exists>dst. rebaseIntoVolume (ft_path ft) mount = Some dst))"
  using assms
proof (induction fts arbitrary: w)
  case Nil
  then show ?case by (simp add: mem_same_def)
next
  case (Cons ft fts)
  have sub: "file_dsts mount fts \<subseteq> file_dsts mount (ft # fts)" by (auto simp: file_dsts_def)
  show ?case
  proof (cases "rebaseIntoVolume (ft_path ft) mount")
    case None
    then show ?thesis using Cons.prems by (auto simp: mem_same_def)
  next
    case (Some dst)
    obtain e1 w1 where s: "WriteFile ops (ft\<lparr>ft_path := dst\<rparr>) req w = (e1, w1)" by (metis prod.exhaust)
    note f = WriteFile_spec(1,2) [OF s Cons.prems(2)]
    have f2: "same_outside (file_dsts mount (ft # fts)) (wd_fs w) (wd_fs w1)"
      by (rule same_outside_mono [OF f(2)]) (use Some in \<open>auto simp: file_dsts_def\<close>)
    show ?thesis
    proof (cases e1)
      case (Some x)
      then show ?thesis using Cons.prems(1) s f(1) f2 \<open>rebaseIntoVolume _ _ = _\<close> by auto
    next
      case None
      then have r: "volume_files ops mount req fts w1 = (e, w')" using Cons.prems(1) s Some by simp
      have "mem_ok (wd_mem w1)" using f(1) by (simp add: mem_same_def)
      from Cons.IH [OF r this] mem_same_trans [OF f(1)] same_outside_trans [OF f2 same_outside_mono [OF _ sub]] Some
      show ?thesis by auto
    qed
  qed
qed

text \<open>A file stays as written when no later target lands on its path.\<close>

lemma volume_files_content:
  assumes "volume_files ops mount req fts w = (None, w')" "mem_ok (wd_mem w)"
    and "distinct (map (\<lambda>ft. map_option path_clean (rebaseIntoVolume (ft_path ft) mount)) fts)"
    and "ft \<in> set fts" "rebaseIntoVolume (ft_path ft) mount = Some dst" "\<not> is_temp (path_clean dst)"
  shows "\<exists>d. content (wd_fs w') dst = Some d \<and> file_value ops value_of ft d"
  using assms(1-4)
proof (induction fts arbitrary: w)
  case (Cons f fts)
  obtain dst1 w1 where b: "rebaseIntoVolume (ft_path f) mount = Some dst1"
    and s: "WriteFile ops (f\<lparr>ft_path := dst1\<rparr>) req w = (None, w1)" and r: "volume_files ops mount req fts w1 = (None, w')"
    using Cons.prems(1) by (auto split: option.splits prod.splits)
  note spec = WriteFile_spec [OF s Cons.prems(2)]
  have ok: "mem_ok (wd_mem w1)" using spec(1) by (simp add: mem_same_def)
  show ?case
  proof (cases "ft \<in> set fts")
    case True
    then show ?thesis using Cons.IH [OF r ok] Cons.prems(3) by simp
  next
    case False
    then have ft: "ft = f" "dst1 = dst" using Cons.prems(4) b assms(5) by auto
    obtain d where d: "content (wd_fs w1) dst = Some d" "file_value ops value_of ft d"
      using spec(3) ft by auto
    have "path_clean dst \<notin> file_dsts mount fts"
    proof
      assume "path_clean dst \<in> file_dsts mount fts"
      then obtain g x where g: "g \<in> set fts" "rebaseIntoVolume (ft_path g) mount = Some x" "path_clean x = path_clean dst"
        by (auto simp: file_dsts_def)
      then have "map_option path_clean (rebaseIntoVolume (ft_path f) mount) = map_option path_clean (rebaseIntoVolume (ft_path g) mount)"
        using b ft by simp
      then show False using Cons.prems(3) g(1) by auto
    qed
    then have "content (wd_fs w') dst = content (wd_fs w1) dst"
      using content_outside [OF conjunct1 [OF conjunct2 [OF volume_files_spec [OF r ok]]] assms(6)] by simp
    then show ?thesis using d by auto
  qed
qed simp

lemma volume_renders_spec:
  assumes "volume_renders ops mount req rts w = (e, w')" "mem_ok (wd_mem w)"
  shows "mem_same (wd_mem w) (wd_mem w') \<and> same_outside (render_dsts ops keys_of mount rts) (wd_fs w) (wd_fs w')"
  using assms
proof (induction rts arbitrary: w)
  case Nil
  then show ?case by (simp add: mem_same_def)
next
  case (Cons rt rts)
  have sub: "render_dsts ops keys_of mount rts \<subseteq> render_dsts ops keys_of mount (rt # rts)"
    unfolding render_dsts_def by (rule Union_mono) auto
  show ?case
  proof (cases "rebaseIntoVolume (rt_path rt) mount")
    case None
    then show ?thesis using Cons.prems by (auto simp: mem_same_def)
  next
    case (Some dst)
    obtain e1 w1 where s: "WriteRender ops (rt\<lparr>rt_path := dst\<rparr>) req w = (e1, w1)" by (metis prod.exhaust)
    note f = WriteRender_spec [OF s Cons.prems(2)]
    have "render_paths ops keys_of (rt\<lparr>rt_path := dst\<rparr>) \<subseteq> render_dsts ops keys_of mount (rt # rts)"
      unfolding render_dsts_def by (rule Union_upper) (use Some in auto)
    then have f2: "same_outside (render_dsts ops keys_of mount (rt # rts)) (wd_fs w) (wd_fs w1)"
      using f same_outside_mono by blast
    show ?thesis
    proof (cases e1)
      case (Some x)
      then show ?thesis using Cons.prems(1) s f f2 \<open>rebaseIntoVolume _ _ = _\<close> by auto
    next
      case None
      then have r: "volume_renders ops mount req rts w1 = (e, w')" using Cons.prems(1) s Some by simp
      have "mem_ok (wd_mem w1)" using f by (simp add: mem_same_def)
      from Cons.IH [OF r this] mem_same_trans [OF conjunct1 [OF f]] same_outside_trans [OF f2 same_outside_mono [OF _ sub]]
      show ?thesis by auto
    qed
  qed
qed

lemma volume_manifest_spec:
  assumes "volume_manifest ops env plan mount req w = (e, w')"
  shows "wd_mem w' = wd_mem w"
    "e \<noteq> None \<Longrightarrow> same_outside {} (wd_fs w) (wd_fs w')"
    "e = None \<Longrightarrow> \<exists>m dst. BuildManifest ops plan (bd_now env) = Inr m
       \<and> rebaseIntoVolume DefaultManifestPath mount = Some dst \<and> content (wd_fs w') dst = Some (bd_marshal env m)
       \<and> same_outside {path_clean dst} (wd_fs w) (wd_fs w')"
proof -
  have "wd_mem w' = wd_mem w \<and> (case e of Some x \<Rightarrow> same_outside {} (wd_fs w) (wd_fs w')
    | None \<Rightarrow> \<exists>m dst. BuildManifest ops plan (bd_now env) = Inr m
       \<and> rebaseIntoVolume DefaultManifestPath mount = Some dst \<and> content (wd_fs w') dst = Some (bd_marshal env m)
       \<and> same_outside {path_clean dst} (wd_fs w) (wd_fs w'))"
  proof (cases "BuildManifest ops plan (bd_now env)")
    case (Inl x)
    then show ?thesis using assms by (auto simp: volume_manifest_def)
  next
    case (Inr m)
    show ?thesis
    proof (cases "rebaseIntoVolume DefaultManifestPath mount")
      case None
      then show ?thesis using assms Inr by (auto simp: volume_manifest_def)
    next
      case (Some dst)
      obtain e1 fs1 where s: "WriteManifest dst (bd_marshal env m) req (wd_fs w) = (e1, fs1)" by (metis prod.exhaust)
      note p = s [unfolded WriteManifest_def]
      show ?thesis
      proof (cases e1)
        case None
        from bytes.done_ok [OF p [unfolded this]] show ?thesis
          using assms Inr Some s None by (auto simp: volume_manifest_def same_outside_def)
      next
        case (Some x)
        from bytes.done_err [OF p [unfolded this]] show ?thesis
          using assms Inr \<open>rebaseIntoVolume _ _ = _\<close> s Some by (auto simp: volume_manifest_def same_outside_def)
      qed
    qed
  qed
  then show "wd_mem w' = wd_mem w"
    "e \<noteq> None \<Longrightarrow> same_outside {} (wd_fs w) (wd_fs w')"
    "e = None \<Longrightarrow> \<exists>m dst. BuildManifest ops plan (bd_now env) = Inr m
       \<and> rebaseIntoVolume DefaultManifestPath mount = Some dst \<and> content (wd_fs w') dst = Some (bd_marshal env m)
       \<and> same_outside {path_clean dst} (wd_fs w) (wd_fs w')" by (auto split: option.splits)
qed

end

section \<open>The whole delivery\<close>

definition volume_targets :: "'h source_ops \<Rightarrow> ('h \<Rightarrow> backend_error + string list) \<Rightarrow> string \<Rightarrow> dplan \<Rightarrow> string set" where
  "volume_targets ops listed mount plan =
     file_dsts mount (dp_files plan) \<union> render_dsts ops listed mount (dp_renders plan)"

context secret_source
begin

lemma applyVolume_spec:
  assumes run: "applyVolume ops env plan mount req w = (e, w')" and ok: "mem_ok (wd_mem w)"
  obtains (failed) x where "e = Some x" "mem_same (wd_mem w) (wd_mem w')"
      "same_outside (volume_targets ops keys_of mount plan) (wd_fs w) (wd_fs w')"
  | (delivered) w1 w2 m man where "e = None" "dp_env plan = []" "volume_files ops mount req (dp_files plan) w = (None, w1)"
      "volume_renders ops mount req (dp_renders plan) w1 = (None, w2)"
      "BuildManifest ops plan (bd_now env) = Inr m" "rebaseIntoVolume DefaultManifestPath mount = Some man"
      "content (wd_fs w') man = Some (bd_marshal env m)" "mem_same (wd_mem w) (wd_mem w')" "mem_ok (wd_mem w1)"
      "same_outside (volume_targets ops keys_of mount plan) (wd_fs w) (wd_fs w2)"
      "same_outside {path_clean man} (wd_fs w2) (wd_fs w')"
proof -
  note V = volume_targets_def [of ops keys_of mount plan]
  obtain e1 w1 where f: "volume_files ops mount req (dp_files plan) w = (e1, w1)" by (metis prod.exhaust)
  note fs = volume_files_spec [OF f ok]
  then have ok1: "mem_ok (wd_mem w1)" by (simp add: mem_same_def)
  obtain e2 w2 where r: "volume_renders ops mount req (dp_renders plan) w1 = (e2, w2)" by (metis prod.exhaust)
  note rs = volume_renders_spec [OF r ok1]
  obtain e3 w3 where mf: "volume_manifest ops env plan mount req w2 = (e3, w3)" by (metis prod.exhaust)
  note ms = volume_manifest_spec [OF mf]
  have m2: "mem_same (wd_mem w) (wd_mem w2)" using fs rs mem_same_trans by blast
  have o1: "same_outside (volume_targets ops keys_of mount plan) (wd_fs w) (wd_fs w1)"
    using fs by (auto simp: V intro: same_outside_mono)
  have o2: "same_outside (volume_targets ops keys_of mount plan) (wd_fs w) (wd_fs w2)"
    using same_outside_trans [of "file_dsts mount (dp_files plan)"] fs rs by (auto simp: V)
  have run': "(e, w') = (if dp_env plan \<noteq> [] then (Some (WEnvUnsupported (dp_mechanism plan)), w)
      else if mount = [] then (Some WNoMount, w)
      else if e1 \<noteq> None then (e1, w1) else if e2 \<noteq> None then (e2, w2) else (e3, w3))"
    using run f r mf by (auto simp: applyVolume_def split: option.splits)
  show thesis
  proof (cases e)
    case None
    then have p: "dp_env plan = []" "e1 = None" "e2 = None" "e3 = None" "w' = w3"
      using run' by (auto split: if_splits)
    from ms(3) [OF p(4)] obtain m man where "BuildManifest ops plan (bd_now env) = Inr m"
      "rebaseIntoVolume DefaultManifestPath mount = Some man" "content (wd_fs w3) man = Some (bd_marshal env m)"
      "same_outside {path_clean man} (wd_fs w2) (wd_fs w3)" by blast
    with delivered [OF None p(1)] f r p ok1 o2 m2 ms(1) show ?thesis by simp
  next
    case (Some x)
    have mm: "mem_same (wd_mem w) (wd_mem w)" using ok by (simp add: mem_same_def)
    have o3: "e3 \<noteq> None \<Longrightarrow> same_outside (volume_targets ops keys_of mount plan) (wd_fs w) (wd_fs w3)"
      using same_outside_trans [OF o2 ms(2)] by simp
    have "mem_same (wd_mem w) (wd_mem w') \<and> same_outside (volume_targets ops keys_of mount plan) (wd_fs w) (wd_fs w')"
      using run' Some mm fs o1 m2 o2 o3 ms(1) by (auto split: if_splits)
    then show ?thesis using failed [OF Some] by simp
  qed
qed

lemma delivered_files:
  assumes "applyVolume ops env plan mount req w = (None, w')" "mem_ok (wd_mem w)"
    and "distinct (map (\<lambda>ft. map_option path_clean (rebaseIntoVolume (ft_path ft) mount)) (dp_files plan))"
    and "file_dsts mount (dp_files plan) \<inter> render_dsts ops keys_of mount (dp_renders plan) = {}"
    and "rebaseIntoVolume DefaultManifestPath mount = Some man" "path_clean man \<notin> file_dsts mount (dp_files plan)"
    and "ft \<in> set (dp_files plan)" "rebaseIntoVolume (ft_path ft) mount = Some dst" "\<not> is_temp (path_clean dst)"
  shows "\<exists>d. content (wd_fs w') dst = Some d \<and> file_value ops value_of ft d"
  using assms(1,2)
proof (cases rule: applyVolume_spec)
  case (delivered w1 w2 m man')
  have man: "man' = man" using delivered(6) assms(5) by simp
  have dst: "path_clean dst \<in> file_dsts mount (dp_files plan)" using assms(7,8) by (auto simp: file_dsts_def)
  note rs = conjunct2 [OF volume_renders_spec [OF delivered(4,9)]]
  have "content (wd_fs w') dst = content (wd_fs w2) dst"
    by (rule content_outside [OF delivered(11) assms(9)]) (use dst assms(6) man in auto)
  moreover have "content (wd_fs w2) dst = content (wd_fs w1) dst"
    by (rule content_outside [OF rs assms(9)]) (use dst assms(4) in auto)
  ultimately show ?thesis using volume_files_content [OF delivered(3) assms(2,3,7,8,9)] by simp
qed simp

end

text \<open>Every target lies at or below the mount point when the key names of envdir renders are plain.\<close>

lemma volumeContainerRoot_value: "volumeContainerRoot = ''/run/berm''"
  by code_simp

lemma rebase_under:
  assumes "is_abs mount" "rebaseIntoVolume p mount = Some dst"
  obtains rest where "list_all plain_elem rest" "path_elems dst = path_elems mount @ rest" "is_abs dst"
proof -
  have root: "is_abs volumeContainerRoot" by (simp add: volumeContainerRoot_value is_abs_def)
  obtain rel where rel: "path_rel volumeContainerRoot (path_clean p) = Some rel"
    "rel \<noteq> ''..''" "\<not> has_prefix rel ''../''" "dst = path_join mount rel"
    using assms(2) by (auto simp: rebaseIntoVolume_def split: option.splits if_splits)
  consider (dot) "rel = ''.''" | (below) ts where "list_all plain_elem ts" "ts \<noteq> []" "rel = join_slash ts"
    using path_rel_below [OF rel(1,2,3) root] by blast
  then show thesis
  proof cases
    case dot
    then show thesis
      using that [of "[]"] path_join_dot [OF assms(1)] path_elems_path_of_abs [OF path_elems_abs_plain [OF assms(1)]] rel(4)
      by simp
  next
    case below
    then show thesis using that path_join_under [OF assms(1) below(1,2)] rel(4) by simp
  qed
qed

definition plain_keys :: "'h source_ops \<Rightarrow> ('h \<Rightarrow> backend_error + string list) \<Rightarrow> dplan \<Rightarrow> bool" where
  "plain_keys ops listed plan \<longleftrightarrow> (\<forall>rt \<in> set (dp_renders plan). \<forall>op ks. rt_kind rt \<noteq> RenderDotenv \<longrightarrow>
     so_open ops (rt_source rt) = Inr op \<longrightarrow> listed op = Inr ks \<longrightarrow> list_all plain_elem ks)"

lemma volume_targets_under:
  assumes "is_abs mount" "plain_keys ops listed plan" "q \<in> volume_targets ops listed mount plan"
  shows "under mount q"
proof -
  have clean: "under mount (path_clean dst)" if "rebaseIntoVolume p mount = Some dst" for p dst
    using rebase_under [OF assms(1) that] path_clean_abs unfolding under_def by metis
  have "q \<in> file_dsts mount (dp_files plan) \<or> q \<in> render_dsts ops listed mount (dp_renders plan)"
    using assms(3) by (simp add: volume_targets_def)
  then consider (f) p dst where "rebaseIntoVolume p mount = Some dst" "q = path_clean dst"
    | (r) rt dst where "rt \<in> set (dp_renders plan)" "rebaseIntoVolume (rt_path rt) mount = Some dst"
        "q \<in> render_paths ops listed (rt\<lparr>rt_path := dst\<rparr>)"
    by (auto simp: file_dsts_def render_dsts_def)
  then show ?thesis
  proof cases
    case f
    then show ?thesis using clean by simp
  next
    case r
    show ?thesis
    proof (cases "rt_kind rt = RenderDotenv")
      case True
      then show ?thesis using r clean by (simp add: render_paths_def)
    next
      case False
      then obtain k op ks where k: "q = path_clean (path_join dst k)" "so_open ops (rt_source rt) = Inr op"
        "listed op = Inr ks" "k \<in> set ks" using r(3) by (auto simp: render_paths_def)
      have pk: "list_all plain_elem [k]"
        using assms(2) r(1) False k by (auto simp: plain_keys_def list_all_iff)
      obtain rest where d: "list_all plain_elem rest" "path_elems dst = path_elems mount @ rest" "is_abs dst"
        by (rule rebase_under [OF assms(1) r(2)])
      have "q = path_of True (path_elems dst @ [k])"
        using path_join_under(3) [OF d(3) pk] k(1) by simp
      then show ?thesis unfolding under_def using d pk by (intro exI [of _ "rest @ [k]"]) simp
    qed
  qed
qed


section \<open>Properties\<close>

definition sample_vplan :: dplan where
  "sample_vplan = sample_dplan\<lparr>dp_mechanism := MechVolume, dp_env := [], dp_env_exposure := False\<rparr>"

definition sample_world :: world where
  "sample_world = \<lparr>wd_fs = \<lparr>fs_files = Map.empty, fs_tmpfs = (\<lambda>d. d = ''/vol''), fs_faults = [],
     fs_rand = [''1'', ''2''], fs_uid = 0, fs_gid = 0, fs_stuck = {}\<rparr>, wd_mem = \<lparr>lm_next = 0, lm_live = []\<rparr>\<rparr>"

definition sample_push :: "nat option list \<Rightarrow> write_error option \<times> world" where
  "sample_push faults = ApplyVolume (config_ops sample_opener) sample_benv sample_vplan ''/vol''
     (sample_world\<lparr>wd_fs := (wd_fs sample_world)\<lparr>fs_faults := faults\<rparr>\<rparr>)"

lemma under_prefix: "under d q \<Longrightarrow> path_elems d = [x] \<Longrightarrow> take (Suc (length x)) q = CHR ''/'' # x"
proof -
  assume "under d q" "path_elems d = [x]"
  then obtain rest where "q = CHR ''/'' # join_slash (x # rest)" by (auto simp: under_def path_of_def)
  then show ?thesis by (cases rest) simp_all
qed

lemma sample_volume:
  "rebaseIntoVolume DefaultManifestPath ''/vol'' = Some ''/vol/manifest''"
  "rebaseIntoVolume ''/run/berm/pw'' ''/vol'' = Some ''/vol/pw''"
  "path_clean ''/vol/manifest'' = ''/vol/manifest''" "path_clean ''/vol/pw'' = ''/vol/pw''"
  "fst (sample_push []) = None" "is_abs ''/vol''"
  by code_simp+

lemma sample_targets:
  "volume_targets (config_ops sample_opener) listed ''/vol'' sample_vplan = {''/vol/pw''}"
  "file_dsts ''/vol'' (dp_files sample_vplan) = {''/vol/pw''}"
  "render_dsts (config_ops sample_opener) listed ''/vol'' (dp_renders sample_vplan) = {}"
  by (auto simp: volume_targets_def file_dsts_def render_dsts_def sample_vplan_def sample_dplan_def sample_volume)

lemma not_temp_pw: "\<not> is_temp ''/vol/pw''" "\<not> is_temp ''/vol/manifest''"
proof -
  have "take 4 (rev ''/vol/pw'') \<noteq> rev ''.tmp''" "take 4 (rev ''/vol/manifest'') \<noteq> rev ''.tmp''" by simp_all
  then show "\<not> is_temp ''/vol/pw''" "\<not> is_temp ''/vol/manifest''" by (auto dest!: is_temp_tmp)
qed

text \<open>
  C11: the manifest is a truthful ready signal on a fresh volume. Let no manifest be there and no target of the plan be on its
  path (a file delivery named manifest is, see \<open>ApplyVolume_manifest_clash\<close>). Whatever fails during the delivery, a waiter that polls
  finds the manifest ready exactly when the delivery reported success; and then, if no two targets share a path, every file holds the value of
  its source. Paths of the form of the writer's temporary files are left aside, and the JSON library is to read back the manifests it writes.
\<close>

theorem ApplyVolume_ready_signal:
  assumes "ApplyVolume (config_ops oe) env plan mount w = (e, w')" "mem_ok (wd_mem w)"
    and "rebaseIntoVolume DefaultManifestPath mount = Some man" "content (wd_fs w) man = None"
    and "\<not> is_temp (path_clean man)" "path_clean man \<notin> volume_targets (config_ops oe) (op_keys_of (oe_sops oe)) mount plan"
    and "\<And>m. \<exists>m'. ParseManifest parse (bd_marshal env m) = Inr m'"
  shows "fst (ManifestReady parse man ((wd_fs w')\<lparr>fs_faults := []\<rparr>)) = Inr (e = None)
    \<and> (e = None \<longrightarrow> (\<forall>ft dst. ft \<in> set (dp_files plan) \<longrightarrow> rebaseIntoVolume (ft_path ft) mount = Some dst \<longrightarrow>
        \<not> is_temp (path_clean dst) \<longrightarrow>
        distinct (map (\<lambda>ft. map_option path_clean (rebaseIntoVolume (ft_path ft) mount)) (dp_files plan)) \<longrightarrow>
        file_dsts mount (dp_files plan) \<inter> render_dsts (config_ops oe) (op_keys_of (oe_sops oe)) mount (dp_renders plan) = {} \<longrightarrow>
        (\<exists>d. content (wd_fs w') dst = Some d \<and> file_value (config_ops oe) (op_value_of (oe_sops oe)) ft d)))"
proof -
  note run = assms(1) [unfolded ApplyVolume_def]
  have ready: "fst (ManifestReady parse man ((wd_fs w')\<lparr>fs_faults := []\<rparr>)) =
      (case content (wd_fs w') man of None \<Rightarrow> Inr False
       | Some data \<Rightarrow> (case ParseManifest parse data of Inl e \<Rightarrow> Inl (ReadyParse e) | Inr m \<Rightarrow> Inr True))"
    by (simp add: ManifestReady_def sys_def next_fault_def content_def Let_def)
  have man: "path_clean man \<notin> file_dsts mount (dp_files plan)" using assms(6) by (simp add: volume_targets_def)
  from run assms(2) show ?thesis
  proof (cases rule: cfg.applyVolume_spec)
    case (failed x)
    have "content (wd_fs w') man = content (wd_fs w) man"
      by (rule content_outside [OF failed(3) assms(5,6)])
    then show ?thesis using ready failed(1) assms(4) by simp
  next
    case (delivered w1 w2 m man')
    have "content (wd_fs w') man = Some (bd_marshal env m)" using delivered(6,7) assms(3) by simp
    moreover obtain m' where "ParseManifest parse (bd_marshal env m) = Inr m'" using assms(7) by blast
    ultimately have "fst (ManifestReady parse man ((wd_fs w')\<lparr>fs_faults := []\<rparr>)) = Inr (e = None)"
      using ready delivered(1) by simp
    then show ?thesis
      using cfg.delivered_files [OF run [unfolded delivered(1)] assms(2) _ _ assms(3) man] by blast
  qed
qed

theorem ApplyVolume_ready_signal_witness:
  "content (wd_fs (snd (sample_push []))) ''/vol/pw'' = Some ''s3=x''
    \<and> (\<forall>faults. let (e, w') = sample_push faults in
        fst (ManifestReady (\<lambda>d. Some \<lparr>mn_version = 1, mn_container = d, mn_service = [], mn_mechanism = MechVolume,
          mn_generated = [], mn_files = [], mn_renders = [], mn_env = []\<rparr>) ''/vol/manifest'' ((wd_fs w')\<lparr>fs_faults := []\<rparr>))
        = Inr (e = None))"
proof -
  let ?p = "\<lambda>d. Some \<lparr>mn_version = 1, mn_container = d, mn_service = [], mn_mechanism = MechVolume,
     mn_generated = [], mn_files = [], mn_renders = [], mn_env = []\<rparr>"
  have parse: "\<exists>m'. ParseManifest ?p (bd_marshal sample_benv m) = Inr m'" for m by (simp add: ParseManifest_def)
  have mem: "mem_ok (wd_mem (sample_world\<lparr>wd_fs := f\<rparr>))" for f by (simp add: sample_world_def mem_ok_def)
  have none: "content (wd_fs (sample_world\<lparr>wd_fs := (wd_fs sample_world)\<lparr>fs_faults := faults\<rparr>\<rparr>)) ''/vol/manifest'' = None"
    for faults by (simp add: sample_world_def content_def)
  have man: "path_clean ''/vol/manifest'' \<notin> volume_targets (config_ops sample_opener) l ''/vol'' sample_vplan" for l
    by (simp add: sample_targets sample_volume)
  have nt: "\<not> is_temp (path_clean ''/vol/manifest'')" by (simp add: not_temp_pw sample_volume)
  note main = ApplyVolume_ready_signal [OF _ mem sample_volume(1) none nt man parse]
  have *: "fst (ManifestReady ?p ''/vol/manifest'' ((wd_fs w')\<lparr>fs_faults := []\<rparr>)) = Inr (e = None)"
    if "sample_push faults = (e, w')" for faults e w'
    using main [OF that [unfolded sample_push_def]] by blast
  have "content (wd_fs (snd (sample_push []))) ''/vol/pw'' = Some ''s3=x''" by code_simp
  then show ?thesis using * by (auto split: prod.split)
qed

text \<open>
  C30: a delivery stays inside its volume. When the mount point is absolute and the names of the keys of an envdir
  render are plain file names, no file outside the mount point changes (temporary files aside), whatever succeeds or fails; the labels and
  files may name any path they like. And locked memory is left as it was. With other keys it does not stay inside, see \<open>envdir_key_escapes\<close>.
\<close>

theorem ApplyVolume_confined:
  assumes "ApplyVolume (config_ops oe) env plan mount w = (e, w')" "mem_ok (wd_mem w)"
    and "is_abs mount" "plain_keys (config_ops oe) (op_keys_of (oe_sops oe)) plan"
    and "\<not> under mount q" "\<not> is_temp q"
  shows "fs_files (wd_fs w') q = fs_files (wd_fs w) q \<and> lm_live (wd_mem w') = lm_live (wd_mem w)"
proof -
  note run = assms(1) [unfolded ApplyVolume_def]
  have q: "q \<notin> volume_targets (config_ops oe) (op_keys_of (oe_sops oe)) mount plan"
    using volume_targets_under [OF assms(3,4)] assms(5) by blast
  from run assms(2) show ?thesis
  proof (cases rule: cfg.applyVolume_spec)
    case (failed x)
    then show ?thesis using q assms(6) by (simp add: same_outside_def mem_same_def)
  next
    case (delivered w1 w2 m man)
    obtain rest where "list_all plain_elem rest" "path_elems man = path_elems mount @ rest" "is_abs man"
      by (rule rebase_under [OF assms(3) delivered(6)])
    then have "under mount (path_clean man)" using path_clean_abs unfolding under_def by metis
    then have "q \<noteq> path_clean man" using assms(5) by blast
    then show ?thesis using delivered(8,10,11) q assms(6) by (simp add: same_outside_def mem_same_def)
  qed
qed

theorem ApplyVolume_confined_witness:
  "fs_files (wd_fs (snd (sample_push []))) ''/etc/passwd'' = None"
proof -
  obtain e w' where r: "sample_push [] = (e, w')" by (metis prod.exhaust)
  let ?w = "sample_world\<lparr>wd_fs := (wd_fs sample_world)\<lparr>fs_faults := []\<rparr>\<rparr>"
  have mem: "mem_ok (wd_mem ?w)" by (simp add: sample_world_def mem_ok_def)
  have pk: "plain_keys (config_ops sample_opener) l sample_vplan" for l
    by (simp add: plain_keys_def sample_vplan_def sample_dplan_def)
  have "path_elems ''/vol'' = [''vol'']" by code_simp
  then have nu: "\<not> under ''/vol'' ''/etc/passwd''"
    using under_prefix [of "''/vol''" "''/etc/passwd''" "''vol''"] by auto
  have nt: "\<not> is_temp ''/etc/passwd''" by (rule not_temp) simp
  from ApplyVolume_confined [OF r [unfolded sample_push_def] mem sample_volume(6) pk nu nt] r
  show ?thesis by (simp add: sample_world_def)
qed

text \<open>
  A key that is not a plain file name leaves the volume: \<open>filepath.Join\<close> cleans its dots across the mount point. The envdir render of a source with the key
  \<open>../../run/x\<close> writes that key's value to \<open>/run/x\<close>, on any tmpfs of the daemon, and the delivery reports success.
\<close>

definition escape_opener :: opener_env where
  "escape_opener = sample_opener\<lparr>oe_sops := \<lparr>io_run = (\<lambda>argv env. \<lparr>so_start_err = None, so_out = ''../../run/x=s3'' @ [newline], so_stderr = [],
       so_copy_err = None, so_wait_err = None, so_flush_err = None\<rparr>), io_exists = (\<lambda>p. True), io_path = [], io_chunk = 16\<rparr>\<rparr>"

definition escape_plan :: dplan where
  "escape_plan = sample_vplan\<lparr>dp_files := [], dp_renders := [\<lparr>rt_kind = RenderEnvdir, rt_source = ''webapp'', rt_path = ''/run/berm/env'',
     rt_owner = ''0:0'', rt_mode = ''0400''\<rparr>]\<rparr>"

definition escape_push :: "write_error option \<times> world" where
  "escape_push = ApplyVolume (config_ops escape_opener) sample_benv escape_plan ''/vol''
     (sample_world\<lparr>wd_fs := (wd_fs sample_world)\<lparr>fs_tmpfs := (\<lambda>d. True)\<rparr>\<rparr>)"

theorem envdir_key_escapes: "fst escape_push = None \<and> content (wd_fs (snd escape_push)) ''/run/x'' = Some ''s3''"
  by (intro conjI) code_simp+

text \<open>
  a file delivery that lands on the manifest's path loses its secret. It is written first, which makes the
  ready signal appear early, and the manifest then takes its place; the delivery still reports success.
\<close>

theorem ApplyVolume_manifest_clash:
  assumes "ApplyVolume (config_ops oe) env plan mount w = (None, w')" "mem_ok (wd_mem w)"
    and "ft \<in> set (dp_files plan)" "ft_path ft = DefaultManifestPath"
    and "rebaseIntoVolume (ft_path ft) mount = Some dst"
  shows "\<exists>m. content (wd_fs w') dst = Some (bd_marshal env m)"
  using assms(1) [unfolded ApplyVolume_def] assms(2)
  by (cases rule: cfg.applyVolume_spec) (use assms(4,5) in auto)

definition clash_plan :: dplan where
  "clash_plan = sample_vplan\<lparr>dp_files := map (\<lambda>ft. ft\<lparr>ft_path := DefaultManifestPath\<rparr>) (dp_files sample_vplan)\<rparr>"

theorem ApplyVolume_manifest_clash_witness:
  "\<exists>m. content (wd_fs (snd (ApplyVolume (config_ops sample_opener) sample_benv clash_plan ''/vol'' sample_world))) ''/vol/manifest''
     = Some (bd_marshal sample_benv m)"
proof -
  obtain e w' where r: "ApplyVolume (config_ops sample_opener) sample_benv clash_plan ''/vol'' sample_world = (e, w')"
    by (metis prod.exhaust)
  have "fst (ApplyVolume (config_ops sample_opener) sample_benv clash_plan ''/vol'' sample_world) = None" by code_simp
  then have e: "e = None" using r by simp
  have mem: "mem_ok (wd_mem sample_world)" by (simp add: sample_world_def mem_ok_def)
  let ?ft = "(hd (dp_files sample_vplan))\<lparr>ft_path := DefaultManifestPath\<rparr>"
  have f: "?ft \<in> set (dp_files clash_plan)" by (simp add: clash_plan_def sample_vplan_def sample_dplan_def)
  from ApplyVolume_manifest_clash [OF r [unfolded e] mem f, of "''/vol/manifest''"] r
  show ?thesis by (simp add: sample_volume)
qed

end
