(* ===== verification/Daemon_Ledger.thy ===== *)
theory Daemon_Ledger
  imports Delivery_Volume "HOL-Library.Product_Lexorder"
begin

text \<open>
  \<open>internal/daemon/ledger.go\<close>: which ciphertext hash each container was last given, and which sources
  changed since. A time is its count of nanoseconds. The JSON text of a ledger is a parameter. The
  mutex makes each operation one step; saving writes a temporary file and renames it.
\<close>

section \<open>Records\<close>

record source_injection =
  sj_hash :: string
  sj_at :: int

record container_record =
  cr_service :: string
  cr_mechanism :: mechanism
  cr_sources :: "(string, source_injection) gomap"
  cr_updated :: int

record ledger =
  lg_path :: string
  lg_records :: "(string, container_record) gomap"

record ledger_file =
  lf_version :: int
  lf_containers :: "(string, container_record) gomap"

definition ledgerVersion :: int where "ledgerVersion = 1"

definition NewLedger :: "string \<Rightarrow> ledger" where
  "NewLedger path = \<lparr>lg_path = path, lg_records = []\<rparr>"

datatype ledger_error =
    LedgerRead | LedgerParse | LedgerVersion int | LedgerNoContainer
  | LedgerDir | LedgerTemp | LedgerWrite | LedgerClose | LedgerPublish

text \<open>\<open>parse\<close> and \<open>json\<close> are the decoder and the encoder of \<open>encoding/json\<close> for the file's shape.\<close>

definition LoadLedger :: "(string \<Rightarrow> ledger_file option) \<Rightarrow> string \<Rightarrow> fs \<Rightarrow> (ledger_error + ledger) \<times> fs" where
  "LoadLedger parse path w =
     (let (ok, w') = sys w in
      if \<not> ok then (Inl LedgerRead, w')
      else (case content w' path of
              None \<Rightarrow> Inr (NewLedger path)
            | Some data \<Rightarrow>
                (case parse data of
                   None \<Rightarrow> Inl LedgerParse
                 | Some lf \<Rightarrow>
                     if lf_version lf \<noteq> ledgerVersion then Inl (LedgerVersion (lf_version lf))
                     else Inr \<lparr>lg_path = path, lg_records = lf_containers lf\<rparr>), w'))"

text \<open>\<open>os.CreateTemp(dir, ".berm-ledger-*.tmp")\<close>.\<close>

definition create_ledger_temp :: "string \<Rightarrow> fs \<Rightarrow> string option \<times> fs" where
  "create_ledger_temp dir w =
     (let (t, w') = create_temp dir (w\<lparr>fs_rand := map (\<lambda>r. ''ledger-'' @ r) (fs_rand w)\<rparr>) in
      (t, w'\<lparr>fs_rand := map (drop 7) (fs_rand w')\<rparr>))"

definition ledger_save :: "(ledger_file \<Rightarrow> string) \<Rightarrow> ledger \<Rightarrow> fs \<Rightarrow> ledger_error option \<times> fs" where
  "ledger_save json lg w =
     (if lg_path lg = [] then (None, w)
      else let data = json \<lparr>lf_version = ledgerVersion, lf_containers = lg_records lg\<rparr>;
               (ok, w1) = sys w in
        if \<not> ok then (Some LedgerDir, w1)
        else (case create_ledger_temp (path_dir (lg_path lg)) w1 of
                (None, w2) \<Rightarrow> (Some LedgerTemp, w2)
              | (Some tmp, w2) \<Rightarrow>
                  let ((n, ok), w3) = file_write tmp data w2 in
                  if \<not> ok then (Some LedgerWrite, cleanup tmp w3)
                  else let (ok, w4) = sys w3 in
                    if \<not> ok then (Some LedgerClose, file_remove tmp w4)
                    else let (ok, w5) = file_rename tmp (path_clean (lg_path lg)) w4 in
                      if \<not> ok then (Some LedgerPublish, file_remove tmp w5) else (None, w5)))"

definition add_source :: "int \<Rightarrow> string \<times> string \<Rightarrow> (string, source_injection) gomap \<Rightarrow> (string, source_injection) gomap" where
  "add_source now sh m =
     (if fst sh = [] then m else AList.update (fst sh) \<lparr>sj_hash = snd sh, sj_at = now\<rparr> m)"

text \<open>The sources a manifest names, with their hashes, in the order the loops go.\<close>

definition manifest_sources :: "manifest \<Rightarrow> (string \<times> string) list" where
  "manifest_sources m =
     map (\<lambda>f. (mf_source f, mf_cipher_hash f)) (mn_files m)
     @ map (\<lambda>r. (mr_source r, mr_cipher_hash r)) (mn_renders m)
     @ map (\<lambda>e. (me_source e, me_cipher_hash e)) (mn_env m)"

definition record_of :: "manifest \<Rightarrow> int \<Rightarrow> container_record" where
  "record_of m now = \<lparr>cr_service = mn_service m, cr_mechanism = mn_mechanism m,
     cr_sources = fold (add_source now) (manifest_sources m) [], cr_updated = now\<rparr>"

definition RecordManifest ::
  "(ledger_file \<Rightarrow> string) \<Rightarrow> ledger \<Rightarrow> manifest option \<Rightarrow> int \<Rightarrow> fs \<Rightarrow> ledger_error option \<times> ledger \<times> fs" where
  "RecordManifest json lg mo now w =
     (case mo of
        None \<Rightarrow> (Some LedgerNoContainer, lg, w)
      | Some m \<Rightarrow>
          if mn_container m = [] then (Some LedgerNoContainer, lg, w)
          else let lg' = lg\<lparr>lg_records := AList.update (mn_container m) (record_of m now) (lg_records lg)\<rparr>;
                   (e, w') = ledger_save json lg' w in (e, lg', w'))"

definition Forget ::
  "(ledger_file \<Rightarrow> string) \<Rightarrow> ledger \<Rightarrow> string \<Rightarrow> fs \<Rightarrow> ledger_error option \<times> ledger \<times> fs" where
  "Forget json lg cid w =
     (case map_of (lg_records lg) cid of
        None \<Rightarrow> (None, lg, w)
      | Some _ \<Rightarrow>
          let lg' = lg\<lparr>lg_records := AList.delete cid (lg_records lg)\<rparr>; (e, w') = ledger_save json lg' w in
          (e, lg', w'))"

definition Record_lookup :: "ledger \<Rightarrow> string \<Rightarrow> container_record option" where
  "Record_lookup lg cid = map_of (lg_records lg) cid"

section \<open>Drift\<close>

record drift =
  dr_container :: string
  dr_service :: string
  dr_source :: string
  dr_injected_hash :: string
  dr_current_hash :: string
  dr_injected_at :: int
  dr_missing :: bool

text \<open>Current hashes, and errors, are remembered while the query runs.\<close>

record hash_cache =
  hc_now :: "string \<rightharpoonup> string"
  hc_err :: "string \<rightharpoonup> open_error"

definition hashNow ::
  "(string \<Rightarrow> open_error + string) \<Rightarrow> string \<Rightarrow> hash_cache \<Rightarrow> (open_error + string) \<times> hash_cache" where
  "hashNow hs source hc =
     (case hc_now hc source of
        Some h \<Rightarrow> (Inr h, hc)
      | None \<Rightarrow>
          (case hc_err hc source of
             Some e \<Rightarrow> (Inl e, hc)
           | None \<Rightarrow>
               (case hs source of
                  Inl e \<Rightarrow> (Inl e, hc\<lparr>hc_err := (hc_err hc)(source \<mapsto> e)\<rparr>)
                | Inr h \<Rightarrow> (Inr h, hc\<lparr>hc_now := (hc_now hc)(source \<mapsto> h)\<rparr>))))"

definition drift_entry :: "string \<Rightarrow> container_record \<Rightarrow> string \<Rightarrow> source_injection \<Rightarrow> open_error + string \<Rightarrow> drift list" where
  "drift_entry cid rec source si cur =
     (case cur of
        Inl e \<Rightarrow> [\<lparr>dr_container = cid, dr_service = cr_service rec, dr_source = source, dr_injected_hash = sj_hash si,
            dr_current_hash = [], dr_injected_at = sj_at si, dr_missing = True\<rparr>]
      | Inr h \<Rightarrow>
          if h \<noteq> sj_hash si
          then [\<lparr>dr_container = cid, dr_service = cr_service rec, dr_source = source, dr_injected_hash = sj_hash si,
            dr_current_hash = h, dr_injected_at = sj_at si, dr_missing = False\<rparr>]
          else [])"

fun drift_sources ::
  "(string \<Rightarrow> open_error + string) \<Rightarrow> string \<Rightarrow> container_record \<Rightarrow> (string, source_injection) gomap \<Rightarrow> hash_cache \<Rightarrow> drift list \<times> hash_cache" where
  "drift_sources hs cid rec [] hc = ([], hc)"
| "drift_sources hs cid rec ((source, si) # rest) hc =
     (let (cur, hc1) = hashNow hs source hc; (ds, hc2) = drift_sources hs cid rec rest hc1 in
      (drift_entry cid rec source si cur @ ds, hc2))"

fun drift_records ::
  "(string \<Rightarrow> open_error + string) \<Rightarrow> (string, container_record) gomap \<Rightarrow> hash_cache \<Rightarrow> drift list \<times> hash_cache" where
  "drift_records hs [] hc = ([], hc)"
| "drift_records hs ((cid, rec) # rest) hc =
     (let (ds, hc1) = drift_sources hs cid rec (cr_sources rec) hc; (ds', hc2) = drift_records hs rest hc1 in
      (ds @ ds', hc2))"

definition Drift :: "(string \<Rightarrow> open_error + string) \<Rightarrow> ledger \<Rightarrow> drift list" where
  "Drift hs lg =
     sort_key (\<lambda>d. (dr_container d, dr_source d))
       (fst (drift_records hs (lg_records lg) \<lparr>hc_now = Map.empty, hc_err = Map.empty\<rparr>))"

section \<open>The query without its cache\<close>

definition cache_ok :: "(string \<Rightarrow> open_error + string) \<Rightarrow> hash_cache \<Rightarrow> bool" where
  "cache_ok hs hc \<longleftrightarrow> (\<forall>s h. hc_now hc s = Some h \<longrightarrow> hs s = Inr h) \<and> (\<forall>s e. hc_err hc s = Some e \<longrightarrow> hs s = Inl e)"

lemma hashNow_spec: "cache_ok hs hc \<Longrightarrow> hashNow hs s hc = (cur, hc') \<Longrightarrow> cur = hs s \<and> cache_ok hs hc'"
  by (auto simp: hashNow_def cache_ok_def split: option.splits sum.splits if_splits)

lemma drift_sources_spec:
  "cache_ok hs hc \<Longrightarrow> drift_sources hs cid rec ss hc = (ds, hc') \<Longrightarrow>
     ds = concat (map (\<lambda>(s, si). drift_entry cid rec s si (hs s)) ss) \<and> cache_ok hs hc'"
proof (induction ss arbitrary: hc hc' ds)
  case (Cons x ss)
  obtain s si where x: "x = (s, si)" by (metis prod.exhaust)
  obtain cur hc1 where h: "hashNow hs s hc = (cur, hc1)" by (metis prod.exhaust)
  obtain ds1 hc2 where r: "drift_sources hs cid rec ss hc1 = (ds1, hc2)" by (metis prod.exhaust)
  show ?case
    using Cons.IH [OF _ r] hashNow_spec [OF Cons.prems(1) h] Cons.prems(2) h r by (simp add: x)
qed simp

lemma drift_records_spec:
  "cache_ok hs hc \<Longrightarrow> drift_records hs rs hc = (ds, hc') \<Longrightarrow>
     ds = concat (map (\<lambda>(cid, rec). concat (map (\<lambda>(s, si). drift_entry cid rec s si (hs s)) (cr_sources rec))) rs)
     \<and> cache_ok hs hc'"
proof (induction rs arbitrary: hc hc' ds)
  case (Cons x rs)
  obtain cid rec where x: "x = (cid, rec)" by (metis prod.exhaust)
  obtain ds1 hc1 where h: "drift_sources hs cid rec (cr_sources rec) hc = (ds1, hc1)" by (metis prod.exhaust)
  obtain ds2 hc2 where r: "drift_records hs rs hc1 = (ds2, hc2)" by (metis prod.exhaust)
  show ?case
    using Cons.IH [OF _ r] drift_sources_spec [OF Cons.prems(1) h] Cons.prems(2) h r by (simp add: x)
qed simp

lemma Drift_eq:
  "Drift hs lg = sort_key (\<lambda>d. (dr_container d, dr_source d))
     (concat (map (\<lambda>(cid, rec). concat (map (\<lambda>(s, si). drift_entry cid rec s si (hs s)) (cr_sources rec))) (lg_records lg)))"
proof -
  let ?hc = "\<lparr>hc_now = Map.empty, hc_err = Map.empty\<rparr>"
  obtain ds hc where d: "drift_records hs (lg_records lg) ?hc = (ds, hc)" by (metis prod.exhaust)
  have "cache_ok hs ?hc" by (simp add: cache_ok_def)
  from drift_records_spec [OF this d] d show ?thesis by (simp add: Drift_def)
qed

definition drifted :: "(string \<Rightarrow> open_error + string) \<Rightarrow> ledger \<Rightarrow> string \<Rightarrow> string \<Rightarrow> bool" where
  "drifted hs lg cid s \<longleftrightarrow> (\<exists>rec si. map_of (lg_records lg) cid = Some rec \<and> map_of (cr_sources rec) s = Some si
     \<and> hs s \<noteq> Inr (sj_hash si))"

definition ledger_ok :: "ledger \<Rightarrow> bool" where
  "ledger_ok lg \<longleftrightarrow> wf_map (lg_records lg) \<and> (\<forall>cid rec. map_of (lg_records lg) cid = Some rec \<longrightarrow> wf_map (cr_sources rec))"

lemma wf_map_in: "wf_map m \<Longrightarrow> (k, v) \<in> set m \<longleftrightarrow> map_of m k = Some v"
  by (simp add: wf_map_def)

lemma in_Drift:
  assumes "ledger_ok lg"
  shows "d \<in> set (Drift hs lg) \<longleftrightarrow> (\<exists>rec si. map_of (lg_records lg) (dr_container d) = Some rec
     \<and> map_of (cr_sources rec) (dr_source d) = Some si \<and> hs (dr_source d) \<noteq> Inr (sj_hash si)
     \<and> d \<in> set (drift_entry (dr_container d) rec (dr_source d) si (hs (dr_source d))))"
proof -
  have e: "d \<in> set (drift_entry cid rec s si c) \<Longrightarrow> cid = dr_container d \<and> s = dr_source d \<and> c \<noteq> Inr (sj_hash si)"
    for cid rec s si c by (auto simp: drift_entry_def split: sum.splits if_splits)
  have "d \<in> set (Drift hs lg) \<longleftrightarrow> (\<exists>cid rec s si. (cid, rec) \<in> set (lg_records lg) \<and> (s, si) \<in> set (cr_sources rec)
     \<and> d \<in> set (drift_entry cid rec s si (hs s)))"
    by (simp add: Drift_eq case_prod_beta Bex_def split_paired_Ex)
  also have "\<dots> \<longleftrightarrow> (\<exists>rec si. (dr_container d, rec) \<in> set (lg_records lg) \<and> (dr_source d, si) \<in> set (cr_sources rec)
     \<and> hs (dr_source d) \<noteq> Inr (sj_hash si) \<and> d \<in> set (drift_entry (dr_container d) rec (dr_source d) si (hs (dr_source d))))"
    using e by blast
  also have "\<dots> \<longleftrightarrow> (\<exists>rec si. map_of (lg_records lg) (dr_container d) = Some rec
     \<and> map_of (cr_sources rec) (dr_source d) = Some si \<and> hs (dr_source d) \<noteq> Inr (sj_hash si)
     \<and> d \<in> set (drift_entry (dr_container d) rec (dr_source d) si (hs (dr_source d))))"
  proof -
    have a: "(cid, rec) \<in> set (lg_records lg) \<longleftrightarrow> map_of (lg_records lg) cid = Some rec" for cid rec
      using assms by (simp add: ledger_ok_def wf_map_in)
    have "map_of (lg_records lg) cid = Some rec \<Longrightarrow> (s, si) \<in> set (cr_sources rec) \<longleftrightarrow> map_of (cr_sources rec) s = Some si"
      for cid rec s si using assms by (simp add: ledger_ok_def wf_map_in)
    then show ?thesis unfolding a by blast
  qed
  finally show ?thesis .
qed

lemma drift_entry_exists:
  "c \<noteq> Inr (sj_hash si) \<Longrightarrow> \<exists>d. d \<in> set (drift_entry cid rec s si c) \<and> dr_container d = cid \<and> dr_source d = s"
  by (auto simp: drift_entry_def split: sum.split)

lemma drifted_iff:
  assumes "ledger_ok lg"
  shows "(\<exists>d \<in> set (Drift hs lg). dr_container d = cid \<and> dr_source d = s) \<longleftrightarrow> drifted hs lg cid s"
proof
  assume "\<exists>d \<in> set (Drift hs lg). dr_container d = cid \<and> dr_source d = s"
  then show "drifted hs lg cid s" using in_Drift [OF assms] by (auto simp: drifted_def)
next
  assume "drifted hs lg cid s"
  then obtain rec si where r: "map_of (lg_records lg) cid = Some rec" "map_of (cr_sources rec) s = Some si" "hs s \<noteq> Inr (sj_hash si)"
    by (auto simp: drifted_def)
  from drift_entry_exists [OF r(3), of cid rec s] obtain d where
    "d \<in> set (drift_entry cid rec s si (hs s))" "dr_container d = cid" "dr_source d = s" by blast
  then have "d \<in> set (Drift hs lg)" unfolding in_Drift [OF assms] using r by auto
  then show "\<exists>d \<in> set (Drift hs lg). dr_container d = cid \<and> dr_source d = s" using \<open>dr_container d = cid\<close> \<open>dr_source d = s\<close> by blast
qed

section \<open>Records keep their shape\<close>

lemma fold_add_source:
  "map_of (fold (add_source now) xs m) s =
     (if s = [] then map_of m s
      else case map_of (rev xs) s of Some h \<Rightarrow> Some \<lparr>sj_hash = h, sj_at = now\<rparr> | None \<Rightarrow> map_of m s)"
proof (induction xs arbitrary: m)
  case (Cons x xs)
  have "map_of (add_source now x m) s = (if s = [] \<or> s \<noteq> fst x then map_of m s else Some \<lparr>sj_hash = snd x, sj_at = now\<rparr>)" for s
    by (auto simp: add_source_def)
  then show ?case
    using Cons.IH [of "add_source now x m"] by (cases x) (simp add: map_add_def split: option.split)
qed simp

lemma wf_fold_add_source: "wf_map m \<Longrightarrow> wf_map (fold (add_source now) xs m)"
  by (induction xs arbitrary: m) (auto simp: add_source_def)

lemma wf_record_of [simp]: "wf_map (cr_sources (record_of m now))"
  by (simp add: record_of_def wf_fold_add_source)

lemma ledger_ok_new [simp]: "ledger_ok (NewLedger p)"
  by (simp add: ledger_ok_def NewLedger_def)

lemma ledger_ok_update:
  "ledger_ok lg \<Longrightarrow> wf_map (cr_sources rec) \<Longrightarrow> ledger_ok (lg\<lparr>lg_records := AList.update cid rec (lg_records lg)\<rparr>)"
  by (simp add: ledger_ok_def)

lemma ledger_ok_delete: "ledger_ok lg \<Longrightarrow> ledger_ok (lg\<lparr>lg_records := AList.delete cid (lg_records lg)\<rparr>)"
  by (simp add: ledger_ok_def)

lemma RecordManifest_spec:
  assumes "RecordManifest json lg mo now w = (e, lg', w')"
  obtains (none) "mo = None \<or> mn_container (the mo) = []" "lg' = lg" "w' = w" "e \<noteq> None"
  | (recorded) m where "mo = Some m" "mn_container m \<noteq> []"
      "lg' = lg\<lparr>lg_records := AList.update (mn_container m) (record_of m now) (lg_records lg)\<rparr>"
      "ledger_save json lg' w = (e, w')"
  using assms by (auto simp: RecordManifest_def Let_def split: option.splits if_splits prod.splits)

section \<open>Saving\<close>

lemma create_ledger_tempD:
  assumes "create_ledger_temp dir w = (t, w')"
  shows "t = None \<Longrightarrow> fs_files w' = fs_files w"
    "t = Some tmp \<Longrightarrow> fs_files w tmp = None \<and> is_temp tmp \<and> (\<exists>nd. fs_files w' = (fs_files w)(tmp \<mapsto> nd) \<and> fn_data nd = [])"
proof -
  obtain w1 where c: "create_temp dir (w\<lparr>fs_rand := map (\<lambda>r. ''ledger-'' @ r) (fs_rand w)\<rparr>) = (t, w1)"
    and w': "fs_files w' = fs_files w1"
    using assms by (auto simp: create_ledger_temp_def split: prod.splits)
  note d = create_tempD [OF c]
  show "t = None \<Longrightarrow> fs_files w' = fs_files w" using d(5) w' by simp
  show "t = Some tmp \<Longrightarrow> fs_files w tmp = None \<and> is_temp tmp \<and> (\<exists>nd. fs_files w' = (fs_files w)(tmp \<mapsto> nd) \<and> fn_data nd = [])"
    using d(6) w' by (auto simp: is_temp_def)
qed

lemma file_remove_other: "q \<noteq> tmp \<Longrightarrow> fs_files (file_remove tmp w) q = fs_files w q"
  by (auto simp: file_remove_def next_fault_def split: list.splits)

lemma cleanup_other: "q \<noteq> tmp \<Longrightarrow> fs_files (cleanup tmp w) q = fs_files w q"
  using cleanup_cases [of tmp w] by auto

text \<open>A save that fails leaves every file but a temporary one; one that succeeds replaces the ledger whole.\<close>

lemma ledger_save_spec:
  assumes "ledger_save json lg w = (e, w')" "lg_path lg \<noteq> []"
  shows "e \<noteq> None \<Longrightarrow> \<not> is_temp q \<Longrightarrow> fs_files w' q = fs_files w q"
    "e = None \<Longrightarrow> content w' (lg_path lg) = Some (json \<lparr>lf_version = ledgerVersion, lf_containers = lg_records lg\<rparr>)
       \<and> (\<forall>q. \<not> is_temp q \<longrightarrow> q \<noteq> path_clean (lg_path lg) \<longrightarrow> fs_files w' q = fs_files w q)"
proof -
  let ?d = "json \<lparr>lf_version = ledgerVersion, lf_containers = lg_records lg\<rparr>" and ?p = "path_clean (lg_path lg)"
  obtain ok1 w1 where s1: "sys w = (ok1, w1)" by (metis prod.exhaust)
  obtain t w2 where s2: "create_ledger_temp (path_dir (lg_path lg)) w1 = (t, w2)" by (metis prod.exhaust)
  note f1 = sysD [OF s1]
  note t2 = create_ledger_tempD [OF s2]
  have main: "(e \<noteq> None \<longrightarrow> (\<forall>q. \<not> is_temp q \<longrightarrow> fs_files w' q = fs_files w q))
    \<and> (e = None \<longrightarrow> content w' (lg_path lg) = Some ?d \<and> (\<forall>q. \<not> is_temp q \<longrightarrow> q \<noteq> ?p \<longrightarrow> fs_files w' q = fs_files w q))"
  proof (cases "ok1 \<and> t \<noteq> None")
    case False
    then have "e \<noteq> None \<and> fs_files w' = fs_files w"
      using assms s1 s2 f1 t2(1) by (auto simp: ledger_save_def split: if_splits)
    then show ?thesis by auto
  next
    case True
    then obtain tmp where tmp: "t = Some tmp" by auto
    from t2(2) [OF tmp] f1 obtain nd where nd: "fs_files w tmp = None" "is_temp tmp"
      "fs_files w2 = (fs_files w)(tmp \<mapsto> nd)" "fn_data nd = []" by auto
    obtain n ok3 w3 where s3: "file_write tmp ?d w2 = ((n, ok3), w3)" by (metis prod.exhaust)
    obtain ok4 w4 where s4: "sys w3 = (ok4, w4)" by (metis prod.exhaust)
    obtain ok5 w5 where s5: "file_rename tmp ?p w4 = (ok5, w5)" by (metis prod.exhaust)
    have w3: "only_temp tmp w2 w3" "fs_files w3 tmp = Some (nd\<lparr>fn_data := take n ?d\<rparr>)" "ok3 \<longrightarrow> n = length ?d"
      using file_writeD [OF s3, of nd] nd(3,4) by auto
    note f4 = sysD [OF s4]
    have w5: "ok5 \<Longrightarrow> fs_files w5 = (fs_files w4)(tmp := None, ?p := fs_files w4 tmp)" "\<not> ok5 \<Longrightarrow> fs_files w5 = fs_files w4"
      using s5 by (auto simp: file_rename_def next_fault_def fun_eq_iff split: list.splits if_splits)
    have same: "\<not> is_temp q \<Longrightarrow> fs_files w3 q = fs_files w q \<and> fs_files w4 q = fs_files w q" for q
      using w3(1) nd(2,3) f4 by (cases "q = tmp") (auto simp: only_temp_def)
    have run: "(e, w') = (if \<not> ok3 then (Some LedgerWrite, cleanup tmp w3)
        else if \<not> ok4 then (Some LedgerClose, file_remove tmp w4)
        else if \<not> ok5 then (Some LedgerPublish, file_remove tmp w5) else (None, w5))"
      unfolding assms(1) [symmetric] using True by (simp add: ledger_save_def assms(2) s1 s2 tmp s3 s4 s5 Let_def)
    have nt: "\<not> is_temp q \<Longrightarrow> q \<noteq> tmp" for q using nd(2) by auto
    show ?thesis
    proof (cases e)
      case None
      then have ok: "ok3" "ok5" "w' = w5" using run by (auto split: if_splits)
      have "fs_files w5 ?p = Some (nd\<lparr>fn_data := take n ?d\<rparr>)" using w5(1) [OF ok(2)] w3(2) f4 by simp
      then have "content w' (lg_path lg) = Some ?d" using ok w3(3) by (simp add: content_def)
      moreover have "\<not> is_temp q \<Longrightarrow> q \<noteq> ?p \<Longrightarrow> fs_files w' q = fs_files w q" for q
        using w5(1) [OF ok(2)] ok(3) same [of q] nt [of q] by simp
      ultimately show ?thesis using None by simp
    next
      case (Some x)
      then have "\<not> is_temp q \<Longrightarrow> fs_files w' q = fs_files w q" for q
        using run same [of q] nt [of q] w5(2) by (auto simp: cleanup_other file_remove_other split: if_splits)
      then show ?thesis using Some by simp
    qed
  qed
  then show "e \<noteq> None \<Longrightarrow> \<not> is_temp q \<Longrightarrow> fs_files w' q = fs_files w q"
    "e = None \<Longrightarrow> content w' (lg_path lg) = Some ?d
       \<and> (\<forall>q. \<not> is_temp q \<longrightarrow> q \<noteq> ?p \<longrightarrow> fs_files w' q = fs_files w q)" by blast+
qed

section \<open>Properties\<close>

lemma recorded_hash:
  assumes "\<And>s h. (s, h) \<in> set (manifest_sources m) \<Longrightarrow> hs s = Inr h"
    and "map_of (cr_sources (record_of m now)) s = Some si"
  shows "hs s = Inr (sj_hash si) \<and> sj_at si = now"
proof -
  have "s \<noteq> []" using assms(2) by (auto simp: record_of_def fold_add_source)
  then obtain h where h: "map_of (rev (manifest_sources m)) s = Some h" "si = \<lparr>sj_hash = h, sj_at = now\<rparr>"
    using assms(2) by (auto simp: record_of_def fold_add_source split: option.splits)
  have "(s, h) \<in> set (manifest_sources m)" using map_of_SomeD [OF h(1)] by simp
  then show ?thesis using assms(1) h(2) by simp
qed

text \<open>The sources a manifest of a plan names carry the hashes the opener gives.\<close>

lemma manifest_hashes:
  assumes "BuildManifest ops plan t = Inr m" "(s, h) \<in> set (manifest_sources m)"
  shows "so_cipher_hash ops s = Inr h"
proof -
  note b = BuildManifest_spec [OF assms(1)]
  consider (f) r where "r \<in> set (mn_files m)" "s = mf_source r" "h = mf_cipher_hash r"
    | (r) r where "r \<in> set (mn_renders m)" "s = mr_source r" "h = mr_cipher_hash r"
    | (e) r where "r \<in> set (mn_env m)" "s = me_source r" "h = me_cipher_hash r"
    using assms(2) by (auto simp: manifest_sources_def)
  then show ?thesis
  proof cases
    case f
    from list_all2_in2 [OF _ f(1)] b f(2,3) show ?thesis by (fastforce simp: manifest_file_of_def)
  next
    case r
    from list_all2_in2 [OF _ r(1)] b r(2,3) show ?thesis by (fastforce simp: manifest_render_of_def)
  next
    case e
    from list_all2_in2 [OF _ e(1)] b e(2,3) show ?thesis by (fastforce simp: manifest_env_of_def)
  qed
qed

definition sample_json :: "ledger_file \<Rightarrow> string" where
  "sample_json lf = (if lf_containers lf = [] then ''empty'' else ''full'')"

definition sample_manifest :: manifest where
  "sample_manifest = \<lparr>mn_version = 1, mn_container = ''c1'', mn_service = ''webapp'', mn_mechanism = MechClient,
     mn_generated = ''t'', mn_files = [\<lparr>mf_name = ''pw'', mf_path = ''/run/berm/pw'', mf_owner = ''0:0'',
       mf_mode = ''0400'', mf_source = ''webapp'', mf_cipher_hash = ''h1'', mf_pointer_var = []\<rparr>],
     mn_renders = [], mn_env = [\<lparr>me_var = ''A'', me_source = ''other'', me_key = ''K'', me_all = False, me_cipher_hash = ''h2''\<rparr>]\<rparr>"

definition sample_ledger :: ledger where
  "sample_ledger = \<lparr>lg_path = ''/var/lib/berm/ledger.json'', lg_records = [(''c1'', record_of sample_manifest 5)]\<rparr>"

lemma entry_missing: "d \<in> set (drift_entry cid rec s si c) \<Longrightarrow> dr_missing d \<longleftrightarrow> (\<exists>e. c = Inl e)"
  by (cases c) (auto simp: drift_entry_def split: if_splits)

lemma distinct_map_sort_key: "distinct (map f (sort_key g xs)) \<longleftrightarrow> distinct (map f xs)"
  by (metis mset_map mset_sort mset_eq_imp_distinct_iff)

lemma drift_keys_distinct:
  assumes "ledger_ok lg"
  shows "distinct (map (\<lambda>d. (dr_container d, dr_source d))
    (concat (map (\<lambda>(cid, rec). concat (map (\<lambda>(s, si). drift_entry cid rec s si (hs s)) (cr_sources rec))) (lg_records lg))))"
proof -
  let ?k = "\<lambda>d. (dr_container d, dr_source d)"
  have key: "?k ` set (drift_entry cid rec s si c) \<subseteq> {(cid, s)}" "distinct (map ?k (drift_entry cid rec s si c))" for cid rec s si c
    by (auto simp: drift_entry_def split: sum.splits)
  have join: "distinct (map ?k (xs @ ys)) \<and> ?k ` set (xs @ ys) \<subseteq> P \<union> Q"
    if "distinct (map ?k xs)" "distinct (map ?k ys)" "?k ` set xs \<subseteq> P" "?k ` set ys \<subseteq> Q" "P \<inter> Q = {}" for xs ys P Q
    unfolding map_append distinct_append set_append set_map image_Un using that by (simp only: conj_assoc) blast
  have inner: "distinct (map ?k (concat (map (\<lambda>(s, si). drift_entry cid rec s si (hs s)) ss)))
      \<and> ?k ` set (concat (map (\<lambda>(s, si). drift_entry cid rec s si (hs s)) ss)) \<subseteq> {cid} \<times> fst ` set ss"
    if "distinct (map fst ss)" for cid rec ss
    using that
  proof (induction ss)
    case (Cons x ss)
    obtain s si where x: "x = (s, si)" by (metis prod.exhaust)
    let ?a = "drift_entry cid rec s si (hs s)" and ?b = "concat (map (\<lambda>(s, si). drift_entry cid rec s si (hs s)) ss)"
    have ih: "distinct (map ?k ?b)" "?k ` set ?b \<subseteq> {cid} \<times> fst ` set ss" using Cons by simp_all
    have "{(cid, s)} \<inter> {cid} \<times> fst ` set ss = {}" using Cons.prems x by auto
    from join [OF key(2) ih(1) key(1) ih(2) this]
    have "distinct (map ?k (?a @ ?b)) \<and> ?k ` set (?a @ ?b) \<subseteq> {(cid, s)} \<union> {cid} \<times> fst ` set ss" .
    moreover have "{(cid, s)} \<union> {cid} \<times> fst ` set ss = {cid} \<times> fst ` set (x # ss)" by (auto simp: x)
    moreover have "concat (map (\<lambda>(s, si). drift_entry cid rec s si (hs s)) (x # ss)) = ?a @ ?b" by (simp add: x)
    ultimately show ?case by metis
  qed simp
  have "distinct (map ?k (concat (map (\<lambda>(cid, rec). concat (map (\<lambda>(s, si). drift_entry cid rec s si (hs s)) (cr_sources rec))) rs)))
      \<and> ?k ` set (concat (map (\<lambda>(cid, rec). concat (map (\<lambda>(s, si). drift_entry cid rec s si (hs s)) (cr_sources rec))) rs))
        \<subseteq> fst ` set rs \<times> UNIV"
    if "distinct (map fst rs)" "\<And>cid rec. (cid, rec) \<in> set rs \<Longrightarrow> wf_map (cr_sources rec)" for rs
    using that
  proof (induction rs)
    case (Cons x rs)
    obtain cid rec where x: "x = (cid, rec)" by (metis prod.exhaust)
    have "wf_map (cr_sources rec)" using Cons.prems(2) [of cid rec] x by simp
    note i = inner [OF this [unfolded wf_map_def], of cid rec]
    let ?a = "concat (map (\<lambda>(s, si). drift_entry cid rec s si (hs s)) (cr_sources rec))"
      and ?b = "concat (map (\<lambda>(cid, rec). concat (map (\<lambda>(s, si). drift_entry cid rec s si (hs s)) (cr_sources rec))) rs)"
    have "distinct (map fst rs)" "\<And>cid rec. (cid, rec) \<in> set rs \<Longrightarrow> wf_map (cr_sources rec)" using Cons.prems by auto
    from Cons.IH [OF this] have ih: "distinct (map ?k ?b)" "?k ` set ?b \<subseteq> fst ` set rs \<times> UNIV" by simp_all
    have "{cid} \<times> fst ` set (cr_sources rec) \<inter> fst ` set rs \<times> UNIV = {}" using Cons.prems(1) x by auto
    note j = join [OF conjunct1 [OF i] ih(1) conjunct2 [OF i] ih(2) this]
    have sub: "{cid} \<times> fst ` set (cr_sources rec) \<union> fst ` set rs \<times> UNIV \<subseteq> fst ` set (x # rs) \<times> UNIV" by (auto simp: x)
    have ab: "concat (map (\<lambda>(cid, rec). concat (map (\<lambda>(s, si). drift_entry cid rec s si (hs s)) (cr_sources rec))) (x # rs)) = ?a @ ?b"
      by (simp add: x)
    show ?case unfolding ab by (rule conjI [OF conjunct1 [OF j] subset_trans [OF conjunct2 [OF j] sub]])
  qed simp
  note outer = this [of "lg_records lg"]
  have w: "wf_map (lg_records lg)" using assms by (simp add: ledger_ok_def)
  have "wf_map (cr_sources rec)" if "(cid, rec) \<in> set (lg_records lg)" for cid rec
    using that unfolding wf_map_in [OF w] using assms unfolding ledger_ok_def by blast
  from outer [OF w [unfolded wf_map_def] this] show ?thesis by (rule conjunct1)
qed

text \<open>
  C25: the drift report is exact. Whatever order the maps are walked in and whatever the cache of hashes
  does, the report lists a container and a source exactly when the container's record has the source
  with another hash than it has now, or the hash cannot be read now, which alone sets the missing mark; each pair
  once, in the order of container and source.
\<close>

theorem Drift_exact:
  assumes "ledger_ok lg"
  shows "((\<exists>d \<in> set (Drift hs lg). dr_container d = cid \<and> dr_source d = s) \<longleftrightarrow> drifted hs lg cid s)
    \<and> sorted (map (\<lambda>d. (dr_container d, dr_source d)) (Drift hs lg))
    \<and> distinct (map (\<lambda>d. (dr_container d, dr_source d)) (Drift hs lg))
    \<and> (\<forall>d \<in> set (Drift hs lg). dr_missing d \<longleftrightarrow> (\<exists>e. hs (dr_source d) = Inl e))"
proof -
  let ?k = "\<lambda>d. (dr_container d, dr_source d)"
  note a = drifted_iff [OF assms, of hs cid s]
  moreover have "sorted (map ?k (Drift hs lg))" by (simp add: Drift_def)
  moreover have "distinct (map ?k (Drift hs lg))"
    using drift_keys_distinct [OF assms, of hs] by (simp add: Drift_eq distinct_map_sort_key)
  moreover have "\<forall>d \<in> set (Drift hs lg). dr_missing d \<longleftrightarrow> (\<exists>e. hs (dr_source d) = Inl e)"
    using in_Drift [OF assms] entry_missing by blast
  ultimately show ?thesis by blast
qed

theorem Drift_exact_witness:
  "ledger_ok sample_ledger \<and> drifted (\<lambda>s. if s = ''webapp'' then Inr ''h9'' else Inr ''h2'') sample_ledger ''c1'' ''webapp''
   \<and> \<not> drifted (\<lambda>s. if s = ''webapp'' then Inr ''h9'' else Inr ''h2'') sample_ledger ''c1'' ''other''"
proof -
  let ?hs = "\<lambda>s. if s = ''webapp'' then Inr ''h9'' else Inr ''h2''"
  have "wf_map [(k, v)]" for k :: string and v :: container_record by (simp add: wf_map_def)
  then have ok: "ledger_ok sample_ledger" by (simp add: sample_ledger_def ledger_ok_def)
  have "map (\<lambda>d. (dr_container d, dr_source d)) (Drift ?hs sample_ledger) = [(''c1'', ''webapp'')]" by code_simp
  then obtain d where "Drift ?hs sample_ledger = [d]" "dr_container d = ''c1''" "dr_source d = ''webapp''"
    by (auto simp: map_eq_Cons_conv)
  then have "(\<exists>d \<in> set (Drift ?hs sample_ledger). dr_container d = ''c1'' \<and> dr_source d = ''webapp'')"
    "\<not> (\<exists>d \<in> set (Drift ?hs sample_ledger). dr_container d = ''c1'' \<and> dr_source d = ''other'')" by simp_all
  then show ?thesis
    using Drift_exact [OF ok, of ?hs "''c1''" "''webapp''"] Drift_exact [OF ok, of ?hs "''c1''" "''other''"] ok by blast
qed

text \<open>
  C26: the history survives restarts and failed writes. After an injection is recorded, memory has a record of the container with the manifest's service and
  mechanism and, for every source the manifest names with a file, a render or an env delivery, the hash the manifest gives it (the last one, should they
  differ) and the time; the records of other containers are as before. Loading the ledger in a fresh process gives this new history if the save reported success and
  the old one if it reported an error, whichever system call failed, given that file and memory agreed before and the JSON library reads back what
  it wrote; and the injected container has no drift until a hash changes.
\<close>

theorem RecordManifest_durable:
  assumes "RecordManifest json lg (Some m) now w = (e, lg', w')" "lg_path lg \<noteq> []" "mn_container m \<noteq> []"
    and "\<not> is_temp (path_clean (lg_path lg))" "parse (json \<lparr>lf_version = 1, lf_containers = lg_records lg'\<rparr>) = Some \<lparr>lf_version = 1, lf_containers = lg_records lg'\<rparr>"
    and "fst (LoadLedger parse (lg_path lg) (w\<lparr>fs_faults := []\<rparr>)) = Inr lg"
    and "\<And>s h. (s, h) \<in> set (manifest_sources m) \<Longrightarrow> hs s = Inr h"
  shows "fst (LoadLedger parse (lg_path lg) (w'\<lparr>fs_faults := []\<rparr>)) = Inr (if e = None then lg' else lg)
    \<and> (\<exists>rec. map_of (lg_records lg') (mn_container m) = Some rec
        \<and> cr_service rec = mn_service m \<and> cr_mechanism rec = mn_mechanism m \<and> cr_updated rec = now
        \<and> (\<forall>src. map_of (cr_sources rec) src =
             (if src = [] then None
              else map_option (\<lambda>h. \<lparr>sj_hash = h, sj_at = now\<rparr>)
                (map_of (rev (map (\<lambda>f. (mf_source f, mf_cipher_hash f)) (mn_files m) @ map (\<lambda>r. (mr_source r, mr_cipher_hash r)) (mn_renders m)
                   @ map (\<lambda>v. (me_source v, me_cipher_hash v)) (mn_env m))) src))))
    \<and> (\<forall>cid. cid \<noteq> mn_container m \<longrightarrow> map_of (lg_records lg') cid = map_of (lg_records lg) cid)
    \<and> \<not> drifted hs lg' (mn_container m) s"
  using assms(1)
proof (cases rule: RecordManifest_spec)
  case none
  then show ?thesis using assms(3) by simp
next
  case (recorded m')
  then have m: "m' = m" by simp
  have path: "lg_path lg' = lg_path lg" using recorded(3) by simp
  have load: "fst (LoadLedger parse p (v\<lparr>fs_faults := []\<rparr>)) =
      (case content v p of None \<Rightarrow> Inr (NewLedger p) | Some data \<Rightarrow>
        (case parse data of None \<Rightarrow> Inl LedgerParse | Some lf \<Rightarrow>
           if lf_version lf \<noteq> ledgerVersion then Inl (LedgerVersion (lf_version lf))
           else Inr \<lparr>lg_path = p, lg_records = lf_containers lf\<rparr>))" for p v
    by (simp add: LoadLedger_def sys_def next_fault_def content_def Let_def)
  note save = ledger_save_spec [OF recorded(4) [unfolded path] , unfolded path, OF assms(2)]
  have "fst (LoadLedger parse (lg_path lg) (w'\<lparr>fs_faults := []\<rparr>)) = Inr (if e = None then lg' else lg)"
  proof (cases e)
    case None
    then show ?thesis using save(2) assms(5) recorded(3) by (simp add: load ledgerVersion_def)
  next
    case (Some x)
    then have "content w' (lg_path lg) = content w (lg_path lg)" using save(1) [OF _ assms(4)] by (simp add: content_def)
    then show ?thesis using assms(6) Some by (simp add: load)
  qed
  moreover have r: "map_of (lg_records lg') (mn_container m) = Some (record_of m now)"
    "cid \<noteq> mn_container m \<Longrightarrow> map_of (lg_records lg') cid = map_of (lg_records lg) cid" for cid
    using recorded(3) m by simp_all
  moreover have "\<not> drifted hs lg' (mn_container m) s"
    using recorded(3) m recorded_hash [of m hs now, OF assms(7)] by (auto simp: drifted_def)
  moreover have "map_of (cr_sources (record_of m now)) src = (if src = [] then None
      else map_option (\<lambda>h. \<lparr>sj_hash = h, sj_at = now\<rparr>) (map_of (rev (manifest_sources m)) src))" for src
    by (simp add: record_of_def fold_add_source split: option.split)
  ultimately show ?thesis unfolding manifest_sources_def
    by (intro conjI exI [of _ "record_of m now"]) (simp_all add: record_of_def)
qed

definition sample_record :: "nat option list \<Rightarrow> ledger_error option \<times> ledger \<times> fs" where
  "sample_record faults = RecordManifest (\<lambda>lf. ''full'') (NewLedger ''/l/ledger'') (Some sample_manifest) 5 (sample_fs\<lparr>fs_faults := faults\<rparr>)"

theorem RecordManifest_durable_witness:
  "(let (e, lg, w) = sample_record [] in e = None \<and> fst (LoadLedger (\<lambda>d. Some \<lparr>lf_version = 1, lf_containers = lg_records sample_ledger\<rparr>)
       ''/l/ledger'' (w\<lparr>fs_faults := []\<rparr>)) = Inr lg)
   \<and> (let (e, lg, w) = sample_record [None, None, Some 1] in e \<noteq> None \<and> fst (LoadLedger (\<lambda>d. Some \<lparr>lf_version = 1, lf_containers = lg_records sample_ledger\<rparr>)
       ''/l/ledger'' (w\<lparr>fs_faults := []\<rparr>)) = Inr (NewLedger ''/l/ledger''))"
proof -
  let ?parse = "\<lambda>d. Some \<lparr>lf_version = 1, lf_containers = lg_records sample_ledger\<rparr>"
  let ?hs = "\<lambda>s. if s = ''webapp'' then Inr ''h1'' else Inr ''h2''"
  have p: "lg_path (NewLedger ''/l/ledger'') = ''/l/ledger''" by (simp add: NewLedger_def)
  have clean: "path_clean ''/l/ledger'' = ''/l/ledger''" by code_simp
  have nt: "\<not> is_temp (path_clean ''/l/ledger'')" unfolding clean by (rule not_temp) simp
  have main: "fst (LoadLedger ?parse ''/l/ledger'' (w\<lparr>fs_faults := []\<rparr>)) = Inr (if e = None then lg else NewLedger ''/l/ledger'')"
    if r: "sample_record faults = (e, lg, w)" for faults e lg w
  proof -
    have lg: "lg_records lg = lg_records sample_ledger"
      using r by (auto simp: sample_record_def RecordManifest_def sample_manifest_def NewLedger_def sample_ledger_def Let_def split: prod.splits)
    have ld: "fst (LoadLedger ?parse ''/l/ledger'' (sample_fs\<lparr>fs_faults := faults, fs_faults := []\<rparr>)) = Inr (NewLedger ''/l/ledger'')"
      by (simp add: LoadLedger_def sys_def next_fault_def content_def sample_fs_def)
    have c: "''/l/ledger'' \<noteq> []" "mn_container sample_manifest \<noteq> []" by (simp_all add: sample_manifest_def)
    have h: "\<And>s h. (s, h) \<in> set (manifest_sources sample_manifest) \<Longrightarrow> ?hs s = Inr h"
      by (auto simp: sample_manifest_def manifest_sources_def)
    have j: "?parse ((\<lambda>lf. ''full'') \<lparr>lf_version = 1, lf_containers = lg_records lg\<rparr>) = Some \<lparr>lf_version = 1, lf_containers = lg_records lg\<rparr>"
      by (simp add: lg)
    from RecordManifest_durable [OF r [unfolded sample_record_def], of ?parse ?hs, unfolded p, OF c nt j ld h]
    show ?thesis by blast
  qed
  have "fst (sample_record []) = None" "fst (sample_record [None, None, Some 1]) \<noteq> None" by code_simp+
  then show ?thesis using main by (auto split: prod.split)
qed

end
