(* ===== verification/Daemon_Tracker.thy ===== *)
theory Daemon_Tracker
  imports Go_Base
begin

text \<open>
  \<open>internal/daemon/clienttimeout.go\<close>: the client-fetch timeout. The control loop, the fetch handlers and the
  timers run on goroutines of their own; the mutex makes each method one step, so a run is a
  sequence of steps in some order. A timer is armed until it is stopped or its time comes; then its callback is
  started, which waits for the mutex like everyone else and can no longer be stopped.
\<close>

section \<open>State and operations\<close>

record pending_client =
  pd_service :: string
  pd_timer :: nat

datatype timer = Armed string int | Started string

record tracker =
  tk_timeout :: int
  tk_pending :: "string \<rightharpoonup> pending_client"
  tk_stopped :: bool
  tk_sink :: bool
  tk_timers :: "nat \<rightharpoonup> timer"
  tk_next :: nat
  tk_now :: int
  tk_alerts :: "(string \<times> string) list"

definition newClientTracker :: "int \<Rightarrow> bool \<Rightarrow> tracker" where
  "newClientTracker timeout sink = \<lparr>tk_timeout = timeout, tk_pending = Map.empty, tk_stopped = False, tk_sink = sink,
     tk_timers = Map.empty, tk_next = 0, tk_now = 0, tk_alerts = []\<rparr>"

definition expect :: "string \<Rightarrow> string \<Rightarrow> tracker \<Rightarrow> tracker" where
  "expect containerID service t =
     (if tk_timeout t \<le> 0 then t
      else if tk_stopped t then t
      else (case tk_pending t containerID of
              Some _ \<Rightarrow> t
            | None \<Rightarrow> t\<lparr>tk_timers := (tk_timers t)(tk_next t \<mapsto> Armed containerID (tk_now t + tk_timeout t)),
                tk_pending := (tk_pending t)(containerID \<mapsto> \<lparr>pd_service = service, pd_timer = tk_next t\<rparr>),
                tk_next := Suc (tk_next t)\<rparr>))"

text \<open>\<open>Timer.Stop\<close> has no effect on a callback that was started.\<close>

definition stop_timer :: "nat \<Rightarrow> tracker \<Rightarrow> tracker" where
  "stop_timer n t =
     (case tk_timers t n of Some (Armed c d) \<Rightarrow> t\<lparr>tk_timers := (tk_timers t)(n := None)\<rparr> | _ \<Rightarrow> t)"

definition arrived :: "string \<Rightarrow> tracker \<Rightarrow> tracker" where
  "arrived containerID t =
     (case tk_pending t containerID of
        None \<Rightarrow> t
      | Some p \<Rightarrow> (stop_timer (pd_timer p) t)\<lparr>tk_pending := (tk_pending t)(containerID := None)\<rparr>)"

definition cancel :: "string \<Rightarrow> tracker \<Rightarrow> tracker" where
  "cancel containerID t = arrived containerID t"

definition fire :: "string \<Rightarrow> tracker \<Rightarrow> tracker" where
  "fire containerID t =
     (case tk_pending t containerID of
        None \<Rightarrow> t
      | Some p \<Rightarrow> t\<lparr>tk_pending := (tk_pending t)(containerID := None),
          tk_alerts := (if tk_sink t then tk_alerts t @ [(containerID, pd_service p)] else tk_alerts t)\<rparr>)"

text \<open>\<open>stop\<close> walks the pending clients and stops the timer of each.\<close>

definition timer_of :: "timer \<Rightarrow> string" where
  "timer_of x = (case x of Armed c d \<Rightarrow> c | Started c \<Rightarrow> c)"

definition tracker_stop :: "tracker \<Rightarrow> tracker" where
  "tracker_stop t =
     t\<lparr>tk_stopped := True, tk_pending := Map.empty,
       tk_timers := (\<lambda>n. case tk_timers t n of
          Some (Armed c d) \<Rightarrow>
            (case tk_pending t c of Some p \<Rightarrow> if pd_timer p = n then None else Some (Armed c d) | None \<Rightarrow> Some (Armed c d))
        | x \<Rightarrow> x)\<rparr>"

section \<open>Runs\<close>

datatype tracker_event =
    Expect string string | Arrived string | Cancel string | StopAll | Tick int | Expire nat | Fire nat

inductive tstep :: "tracker \<Rightarrow> tracker_event \<Rightarrow> tracker \<Rightarrow> bool" where
  expect: "tstep t (Expect c s) (expect c s t)"
| arrived: "tstep t (Arrived c) (arrived c t)"
| cancel: "tstep t (Cancel c) (cancel c t)"
| stop: "tstep t StopAll (tracker_stop t)"
| tick: "0 \<le> d \<Longrightarrow> tstep t (Tick d) (t\<lparr>tk_now := tk_now t + d\<rparr>)"
| expire: "tk_timers t n = Some (Armed c due) \<Longrightarrow> due \<le> tk_now t \<Longrightarrow>
    tstep t (Expire n) (t\<lparr>tk_timers := (tk_timers t)(n \<mapsto> Started c)\<rparr>)"
| fire: "tk_timers t n = Some (Started c) \<Longrightarrow>
    tstep t (Fire n) ((fire c t)\<lparr>tk_timers := (tk_timers t)(n := None)\<rparr>)"

inductive_cases tstep_Expect [elim!]: "tstep t (Expect c s) t'"
inductive_cases tstep_Arrived [elim!]: "tstep t (Arrived c) t'"
inductive_cases tstep_Cancel [elim!]: "tstep t (Cancel c) t'"
inductive_cases tstep_StopAll [elim!]: "tstep t StopAll t'"
inductive_cases tstep_Tick [elim!]: "tstep t (Tick d) t'"
inductive_cases tstep_Expire [elim!]: "tstep t (Expire n) t'"
inductive_cases tstep_Fire [elim!]: "tstep t (Fire n) t'"

text \<open>A run from a state, with the events so far.\<close>

inductive trun :: "tracker \<Rightarrow> tracker_event list \<Rightarrow> tracker \<Rightarrow> bool" for t0 where
  init: "trun t0 [] t0"
| step: "trun t0 es t \<Longrightarrow> tstep t e t' \<Longrightarrow> trun t0 (es @ [e]) t'"

inductive_simps trun_Nil [simp]: "trun t0 [] t"
inductive_simps trun_snoc: "trun t0 (es @ [e]) t"

lemmas tracker_defs = expect_def arrived_def cancel_def fire_def stop_timer_def tracker_stop_def

section \<open>Which timers belong to whom\<close>

definition tracker_inv :: "tracker \<Rightarrow> bool" where
  "tracker_inv t \<longleftrightarrow>
     (\<forall>c p. tk_pending t c = Some p \<longrightarrow> (\<exists>x. tk_timers t (pd_timer p) = Some x \<and> timer_of x = c))
     \<and> (\<forall>n. tk_timers t n \<noteq> None \<longrightarrow> n < tk_next t)
     \<and> (tk_stopped t \<longrightarrow> tk_pending t = Map.empty)"

lemma tracker_inv_new [simp]: "tracker_inv (newClientTracker timeout sink)"
  by (simp add: tracker_inv_def newClientTracker_def)

lemma timer_of_simps [simp]: "timer_of (Armed c d) = c" "timer_of (Started c) = c"
  by (simp_all add: timer_of_def)

lemma tracker_invD:
  assumes "tracker_inv t"
  shows "tk_pending t c = Some p \<Longrightarrow> \<exists>x. tk_timers t (pd_timer p) = Some x \<and> timer_of x = c"
    "tk_timers t n \<noteq> None \<Longrightarrow> n < tk_next t" "tk_stopped t \<Longrightarrow> tk_pending t = Map.empty"
  using assms unfolding tracker_inv_def by blast+

lemma tracker_invI:
  assumes "\<And>c p. tk_pending t c = Some p \<Longrightarrow> \<exists>x. tk_timers t (pd_timer p) = Some x \<and> timer_of x = c"
    and "\<And>n. tk_timers t n \<noteq> None \<Longrightarrow> n < tk_next t"
    and "tk_stopped t \<Longrightarrow> tk_pending t = Map.empty"
  shows "tracker_inv t"
  unfolding tracker_inv_def using assms by blast

lemma own_timer:
  assumes "tracker_inv t" "tk_pending t c = Some p" "tk_pending t c' = Some p'" "c' \<noteq> c"
  shows "pd_timer p' \<noteq> pd_timer p"
  using tracker_invD(1) [OF assms(1,2)] tracker_invD(1) [OF assms(1,3)] assms(4) by auto

lemma expect_cases:
  obtains (same) "expect c s t = t" | (new) "\<not> tk_stopped t" "tk_pending t c = None" "0 < tk_timeout t"
      "expect c s t = t\<lparr>tk_timers := (tk_timers t)(tk_next t \<mapsto> Armed c (tk_now t + tk_timeout t)),
         tk_pending := (tk_pending t)(c \<mapsto> \<lparr>pd_service = s, pd_timer = tk_next t\<rparr>), tk_next := Suc (tk_next t)\<rparr>"
proof (cases "0 < tk_timeout t \<and> \<not> tk_stopped t \<and> tk_pending t c = None")
  case True
  then show ?thesis by (intro new) (simp_all add: expect_def)
next
  case False
  then have "expect c s t = t" by (cases "tk_pending t c") (auto simp: expect_def)
  then show ?thesis by (rule same)
qed

lemma tracker_inv_expect:
  assumes i: "tracker_inv t"
  shows "tracker_inv (expect c s t)"
proof (cases rule: expect_cases [of c s t])
  case new
  have fresh: "tk_timers t (tk_next t) = None" using tracker_invD(2) [OF i, of "tk_next t"] by blast
  have other: "pd_timer p \<noteq> tk_next t" if "tk_pending t c' = Some p" for c' p
    using tracker_invD(1) [OF i that] fresh by auto
  show ?thesis
    unfolding new(4)
  proof (rule tracker_invI, goal_cases)
    case (1 c' p)
    then show ?case using other [of c' p] tracker_invD(1) [OF i, of c' p] by (auto split: if_splits)
  next
    case (2 n)
    then show ?case using tracker_invD(2) [OF i, of n] by (auto simp: less_Suc_eq split: if_splits)
  qed (use new(1) in simp)
qed (simp add: i)

lemma arrived_pending:
  "tracker_inv t \<Longrightarrow> tk_pending t c = Some p \<Longrightarrow>
     arrived c t = t\<lparr>tk_pending := (tk_pending t)(c := None),
       tk_timers := (case tk_timers t (pd_timer p) of Some (Armed _ _) \<Rightarrow> (tk_timers t)(pd_timer p := None) | _ \<Rightarrow> tk_timers t)\<rparr>"
  by (auto simp: arrived_def stop_timer_def split: option.split timer.split)

lemma tracker_inv_arrived:
  assumes i: "tracker_inv t"
  shows "tracker_inv (arrived c t)"
proof (cases "tk_pending t c")
  case None
  then show ?thesis using i by (simp add: arrived_def)
next
  case (Some p)
  show ?thesis
    unfolding arrived_pending [OF i Some]
  proof (rule tracker_invI, goal_cases)
    case (1 c' p')
    then have c': "c' \<noteq> c" "tk_pending t c' = Some p'" by (auto split: if_splits)
    then show ?case
      using own_timer [OF i Some c'(2,1)] tracker_invD(1) [OF i c'(2)] by (auto split: option.split timer.split)
  next
    case (2 n)
    then have "tk_timers t n \<noteq> None" by (auto split: option.splits timer.splits if_splits)
    then show ?case using tracker_invD(2) [OF i] by simp
  next
    case 3
    then show ?case using tracker_invD(3) [OF i] by simp
  qed
qed

lemma tracker_inv_fire:
  assumes i: "tracker_inv t" and n: "tk_timers t n = Some (Started c)"
  shows "tracker_inv ((fire c t)\<lparr>tk_timers := (tk_timers t)(n := None)\<rparr>)"
proof -
  let ?t = "(fire c t)\<lparr>tk_timers := (tk_timers t)(n := None)\<rparr>"
  have pend: "tk_pending ?t = (tk_pending t)(c := None)" and rest: "tk_timers ?t = (tk_timers t)(n := None)"
    "tk_next ?t = tk_next t" "tk_stopped ?t = tk_stopped t"
    by (auto simp: fire_def split: option.split)
  show ?thesis
  proof (rule tracker_invI, goal_cases)
    case (1 c' p')
    then have c': "c' \<noteq> c" "tk_pending t c' = Some p'" by (auto simp: pend split: if_splits)
    then show ?case using tracker_invD(1) [OF i c'(2)] n by (auto simp: rest)
  next
    case (2 m)
    then show ?case using tracker_invD(2) [OF i, of m] by (auto simp: rest split: if_splits)
  next
    case 3
    then show ?case using tracker_invD(3) [OF i] by (simp add: pend rest)
  qed
qed
lemma tracker_inv_step:
  assumes "tstep t e t'" and i: "tracker_inv t"
  shows "tracker_inv t'"
  using assms
proof (cases rule: tstep.cases)
  case stop
  then show ?thesis
    by (intro tracker_invI) (use tracker_invD(2) [OF i] in \<open>auto simp: tracker_stop_def split: option.splits timer.splits if_splits\<close>)
next
  case (expire n c due)
  show ?thesis
    unfolding expire(2)
  proof (rule tracker_invI, goal_cases)
    case (1 c' p)
    then show ?case using tracker_invD(1) [OF i, of c' p] expire(3) by auto
  next
    case (2 m)
    then show ?case using tracker_invD(2) [OF i, of m] expire(3) by (auto split: if_splits)
  next
    case 3
    then show ?case using tracker_invD(3) [OF i] by simp
  qed
next
  case (tick d)
  then show ?thesis using i by (simp add: tracker_inv_def)
qed (use i in \<open>auto simp: cancel_def intro: tracker_inv_expect tracker_inv_arrived tracker_inv_fire\<close>)

lemma trun_inv: "trun t0 es t \<Longrightarrow> tracker_inv t0 \<Longrightarrow> tracker_inv t"
  by (induction rule: trun.induct) (auto intro: tracker_inv_step)

section \<open>What a step does to one container\<close>

definition clears :: "string \<Rightarrow> tracker_event \<Rightarrow> bool" where
  "clears c e \<longleftrightarrow> e = Arrived c \<or> e = Cancel c \<or> e = StopAll"

lemma tk_pending_simps [simp]:
  "tk_pending (arrived c t) = (tk_pending t)(c := None)"
  "tk_pending (cancel c t) = (tk_pending t)(c := None)"
  "tk_pending (fire c t) = (tk_pending t)(c := None)"
  "tk_pending (tracker_stop t) = Map.empty"
  by (auto simp: tracker_defs split: option.split timer.split)

lemma tk_alerts_simps [simp]:
  "tk_alerts (expect c s t) = tk_alerts t" "tk_alerts (arrived c t) = tk_alerts t"
  "tk_alerts (cancel c t) = tk_alerts t" "tk_alerts (tracker_stop t) = tk_alerts t"
  "tk_sink (expect c s t) = tk_sink t" "tk_sink (arrived c t) = tk_sink t"
  "tk_sink (cancel c t) = tk_sink t" "tk_sink (tracker_stop t) = tk_sink t" "tk_sink (fire c t) = tk_sink t"
  by (auto simp: tracker_defs split: option.split timer.split)

lemma tk_alerts_fire:
  "tk_alerts (fire c t) = (case tk_pending t c of Some p \<Rightarrow> if tk_sink t then tk_alerts t @ [(c, pd_service p)] else tk_alerts t
     | None \<Rightarrow> tk_alerts t)"
  by (simp add: fire_def split: option.split)

lemma tstep_sink: "tstep t e t' \<Longrightarrow> tk_sink t' = tk_sink t"
  by (cases rule: tstep.cases) auto

lemma tstep_pending:
  assumes "tstep t e t'" "tk_pending t' c = Some p"
  shows "tk_pending t c = Some p \<and> \<not> clears c e \<or> e = Expect c (pd_service p)"
  using assms
proof (cases rule: tstep.cases)
  case (expect c' s)
  show ?thesis
    using assms(2) expect by (cases rule: expect_cases [of c' s t]) (auto simp: clears_def split: if_splits)
qed (auto simp: clears_def split: if_splits)

lemma tstep_alerts:
  assumes "tstep t e t'"
  shows "tk_alerts t' = tk_alerts t
    \<or> (\<exists>c p n. e = Fire n \<and> tk_timers t n = Some (Started c) \<and> tk_pending t c = Some p \<and> tk_alerts t' = tk_alerts t @ [(c, pd_service p)])"
  using assms by (cases rule: tstep.cases) (auto simp: tk_alerts_fire split: option.splits)

lemma tstep_waits:
  assumes "tstep t e t'" "tracker_inv t" "tk_sink t" "tk_pending t c = Some p" "\<not> clears c e"
  shows "tk_pending t' c = Some p \<and> e \<noteq> Fire (pd_timer p) \<or> tk_alerts t' = tk_alerts t @ [(c, pd_service p)]"
  using assms(1)
proof (cases rule: tstep.cases)
  case (expect c' s)
  then show ?thesis using assms(4) by (cases rule: expect_cases [of c' s t]) auto
next
  case (fire n c')
  show ?thesis
  proof (cases "c' = c")
    case True
    then show ?thesis using fire assms(3,4) by (simp add: tk_alerts_fire)
  next
    case False
    then have "n \<noteq> pd_timer p" using tracker_invD(1) [OF assms(2,4)] fire by auto
    then show ?thesis using fire False assms(4) by simp
  qed
qed (use assms(4,5) in \<open>auto simp: clears_def\<close>)

section \<open>Runs that compute\<close>

fun exec_step :: "tracker \<Rightarrow> tracker_event \<Rightarrow> tracker option" where
  "exec_step t (Expect c s) = Some (expect c s t)"
| "exec_step t (Arrived c) = Some (arrived c t)"
| "exec_step t (Cancel c) = Some (cancel c t)"
| "exec_step t StopAll = Some (tracker_stop t)"
| "exec_step t (Tick d) = (if 0 \<le> d then Some (t\<lparr>tk_now := tk_now t + d\<rparr>) else None)"
| "exec_step t (Expire n) =
     (case tk_timers t n of
        Some (Armed c due) \<Rightarrow> if due \<le> tk_now t then Some (t\<lparr>tk_timers := (tk_timers t)(n \<mapsto> Started c)\<rparr>) else None
      | _ \<Rightarrow> None)"
| "exec_step t (Fire n) =
     (case tk_timers t n of
        Some (Started c) \<Rightarrow> Some ((fire c t)\<lparr>tk_timers := (tk_timers t)(n := None)\<rparr>)
      | _ \<Rightarrow> None)"

lemma exec_step_iff: "exec_step t e = Some t' \<longleftrightarrow> tstep t e t'"
  by (cases e) (auto intro: tstep.intros split: option.splits timer.splits if_splits)

fun exec_run :: "tracker \<Rightarrow> tracker_event list \<Rightarrow> tracker option" where
  "exec_run t [] = Some t"
| "exec_run t (e # es) = (case exec_step t e of None \<Rightarrow> None | Some t' \<Rightarrow> exec_run t' es)"

lemma exec_run_trun: "exec_run t es = Some t' \<Longrightarrow> trun t0 as t \<Longrightarrow> trun t0 (as @ es) t'"
proof (induction es arbitrary: t as)
  case (Cons e es)
  then obtain t1 where t1: "tstep t e t1" "exec_run t1 es = Some t'"
    by (auto simp: exec_step_iff split: option.splits)
  from Cons.IH [OF t1(2) trun.step [OF Cons.prems(2) t1(1)]] show ?case by simp
qed simp

text \<open>A container that starts and times out, and a second one that fetches in time.\<close>

definition sample_events :: "tracker_event list" where
  "sample_events = [Expect ''c1'' ''web'', Expect ''c2'' ''db'', Tick 20, Arrived ''c2'', Tick 10, Expire 0, Fire 0]"

lemma sample_trun: "\<exists>t. trun (newClientTracker 30 True) sample_events t \<and> tk_alerts t = [(''c1'', ''web'')]"
proof -
  have "case exec_run (newClientTracker 30 True) sample_events of None \<Rightarrow> False | Some t \<Rightarrow> tk_alerts t = [(''c1'', ''web'')]"
    by code_simp
  then show ?thesis
    using exec_run_trun [of "newClientTracker 30 True" sample_events _ "newClientTracker 30 True" "[]"]
    by (auto split: option.splits)
qed

section \<open>Properties\<close>

text \<open>The time that passes in a list of events, and where the timers of a run come from.\<close>

definition elapsed :: "tracker_event list \<Rightarrow> int" where
  "elapsed es = sum_list (map (\<lambda>e. case e of Tick d \<Rightarrow> d | _ \<Rightarrow> 0) es)"

lemma elapsed_simps [simp]:
  "elapsed [] = 0" "elapsed (e # es) = (case e of Tick d \<Rightarrow> d | _ \<Rightarrow> 0) + elapsed es" "elapsed (es @ fs) = elapsed es + elapsed fs"
  by (simp_all add: elapsed_def)

lemma tk_now_simps [simp]:
  "tk_now (expect c s t) = tk_now t" "tk_now (arrived c t) = tk_now t" "tk_now (cancel c t) = tk_now t" "tk_now (tracker_stop t) = tk_now t"
  "tk_now (fire c t) = tk_now t" "tk_timeout (expect c s t) = tk_timeout t" "tk_timeout (arrived c t) = tk_timeout t"
  "tk_timeout (cancel c t) = tk_timeout t" "tk_timeout (tracker_stop t) = tk_timeout t" "tk_timeout (fire c t) = tk_timeout t"
  by (auto simp: expect_def arrived_def cancel_def fire_def stop_timer_def tracker_stop_def split: option.split timer.split)

lemma tstep_now: "tstep t e t' \<Longrightarrow> tk_now t' = tk_now t + elapsed [e] \<and> tk_timeout t' = tk_timeout t"
  by (induction rule: tstep.induct) simp_all

lemma trun_now: "trun (newClientTracker timeout sink) es t \<Longrightarrow> tk_now t = elapsed es \<and> tk_timeout t = timeout"
proof (induction rule: trun.induct)
  case (step es t e t')
  then show ?case using tstep_now [OF step.hyps(2)] by simp
qed (simp add: newClientTracker_def)

lemma tstep_timers:
  assumes "tstep t e t'" "tk_timers t' n = Some x"
  shows "tk_timers t n = Some x \<or> (\<exists>c s. e = Expect c s \<and> x = Armed c (tk_now t + tk_timeout t))
    \<or> (\<exists>c due. e = Expire n \<and> x = Started c \<and> tk_timers t n = Some (Armed c due) \<and> due \<le> tk_now t)"
  using assms
proof (cases rule: tstep.cases)
  case (expect c s)
  show ?thesis using assms(2) expect by (cases rule: expect_cases [of c s t]) (auto split: if_splits)
qed (auto simp: tracker_defs split: option.splits timer.splits if_splits)

definition armed_by :: "tracker_event list \<Rightarrow> int \<Rightarrow> string \<Rightarrow> int \<Rightarrow> bool" where
  "armed_by es timeout c due \<longleftrightarrow> (\<exists>as s bs. es = as @ Expect c s # bs \<and> due = elapsed as + timeout)"

definition ran_out :: "tracker_event list \<Rightarrow> int \<Rightarrow> string \<Rightarrow> nat \<Rightarrow> bool" where
  "ran_out es timeout c n \<longleftrightarrow> (\<exists>as s bs cs. es = as @ Expect c s # bs @ Expire n # cs \<and> timeout \<le> elapsed bs)"

lemma armed_by_snoc: "armed_by es timeout c due \<Longrightarrow> armed_by (es @ [e]) timeout c due"
  unfolding armed_by_def by (metis append.assoc append_Cons)

lemma ran_out_snoc: "ran_out es timeout c n \<Longrightarrow> ran_out (es @ [e]) timeout c n"
  unfolding ran_out_def by (metis append.assoc append_Cons)

lemma trun_timers:
  assumes "trun (newClientTracker timeout sink) es t"
  shows "(tk_timers t n = Some (Armed c due) \<longrightarrow> armed_by es timeout c due) \<and> (tk_timers t n = Some (Started c) \<longrightarrow> ran_out es timeout c n)"
  using assms
proof (induction arbitrary: n c due rule: trun.induct)
  case init
  then show ?case by (simp add: newClientTracker_def)
next
  case (step es t e t')
  note now = trun_now [OF step.hyps(1)]
  show ?case
  proof (intro conjI impI)
    assume "tk_timers t' n = Some (Armed c due)"
    from tstep_timers [OF step.hyps(2) this] show "armed_by (es @ [e]) timeout c due"
      using step.IH armed_by_snoc now by (auto simp: armed_by_def)
  next
    assume "tk_timers t' n = Some (Started c)"
    from tstep_timers [OF step.hyps(2) this] show "ran_out (es @ [e]) timeout c n"
    proof (elim disjE exE conjE)
      fix d due assume x: "e = Expire n" "Started c = Started d" "tk_timers t n = Some (Armed d due)" "due \<le> tk_now t"
      have "armed_by es timeout c due" using step.IH x(2,3) by simp
      then obtain as s bs where a: "es = as @ Expect c s # bs" "due = elapsed as + timeout" unfolding armed_by_def by blast
      then have "timeout \<le> elapsed bs" using x(4) now by simp
      then show ?thesis using a(1) x(1) by (auto simp: ran_out_def)
    qed (use step.IH ran_out_snoc in auto)
  qed
qed

text \<open>
  C23: no alert without a cause. In every run of a fresh tracker, whatever the order of the goroutines' steps, every alert is raised by the callback of a timer
  that an earlier start of the same container armed and that was started only when the whole timeout had passed since; and the alert names a container that was
  expected, with that service, of which from there to the alert no fetch arrived, which was not cancelled, and in a tracker not stopped. The two starts need not
  be the same: a callback that has started already can be overtaken by a cancel and a new start, see \<open>tracker_stale_callback\<close>.
\<close>

theorem tracker_alert_cause:
  assumes "trun (newClientTracker timeout sink) es t" "(c, s) \<in> set (tk_alerts t)"
  shows "\<exists>as bs n cs. es = as @ Expect c s # bs @ Fire n # cs \<and> (\<forall>e \<in> set bs. \<not> clears c e)
    \<and> (\<exists>as1 s1 bs1 bs2. as @ Expect c s # bs = as1 @ Expect c s1 # bs1 @ Expire n # bs2 \<and> timeout \<le> elapsed bs1)"
proof -
  have "(\<forall>c p. tk_pending t c = Some p \<longrightarrow> (\<exists>as bs. es = as @ Expect c (pd_service p) # bs \<and> (\<forall>e \<in> set bs. \<not> clears c e)))
    \<and> (\<forall>c s. (c, s) \<in> set (tk_alerts t) \<longrightarrow> (\<exists>as bs n cs. es = as @ Expect c s # bs @ Fire n # cs \<and> (\<forall>e \<in> set bs. \<not> clears c e)
        \<and> ran_out (as @ Expect c s # bs) timeout c n))"
    using assms(1)
  proof (induction rule: trun.induct)
    case init
    then show ?case by (simp add: newClientTracker_def)
  next
    case (step es t e t')
    have p: "\<exists>as bs. es @ [e] = as @ Expect c (pd_service p) # bs \<and> (\<forall>e \<in> set bs. \<not> clears c e)"
      if "tk_pending t' c = Some p" for c p
      using tstep_pending [OF step.hyps(2) that]
    proof (elim disjE conjE)
      assume "tk_pending t c = Some p" "\<not> clears c e"
      moreover obtain as bs where "es = as @ Expect c (pd_service p) # bs" "\<forall>e \<in> set bs. \<not> clears c e"
        using step.IH calculation(1) by blast
      ultimately show ?thesis by (intro exI [of _ as] exI [of _ "bs @ [e]"]) auto
    next
      assume "e = Expect c (pd_service p)"
      then show ?thesis by (intro exI [of _ es] exI [of _ "[]"]) simp
    qed
    have a: "\<exists>as bs n cs. es @ [e] = as @ Expect c s # bs @ Fire n # cs \<and> (\<forall>e \<in> set bs. \<not> clears c e)
        \<and> ran_out (as @ Expect c s # bs) timeout c n"
      if "(c, s) \<in> set (tk_alerts t')" for c s
    proof (cases "(c, s) \<in> set (tk_alerts t)")
      case True
      then obtain as bs n cs where "es = as @ Expect c s # bs @ Fire n # cs" "\<forall>e \<in> set bs. \<not> clears c e" "ran_out (as @ Expect c s # bs) timeout c n"
        using step.IH by blast
      then show ?thesis by (intro exI [of _ as] exI [of _ bs] exI [of _ n] exI [of _ "cs @ [e]"]) simp
    next
      case False
      with tstep_alerts [OF step.hyps(2)] that obtain q n where
        q: "e = Fire n" "tk_pending t c = Some q" "s = pd_service q" "tk_timers t n = Some (Started c)" by auto
      then obtain as bs where "es = as @ Expect c (pd_service q) # bs" "\<forall>e \<in> set bs. \<not> clears c e"
        using step.IH by blast
      moreover have "ran_out es timeout c n" using trun_timers [OF step.hyps(1)] q(4) by blast
      ultimately show ?thesis using q by (intro exI [of _ as] exI [of _ bs] exI [of _ n] exI [of _ "[]"]) simp
    qed
    show ?case using p a by blast
  qed
  then obtain as bs n cs where "es = as @ Expect c s # bs @ Fire n # cs" "\<forall>e \<in> set bs. \<not> clears c e" "ran_out (as @ Expect c s # bs) timeout c n"
    using assms(2) by blast
  then show ?thesis unfolding ran_out_def by blast
qed

theorem tracker_alert_cause_witness:
  "\<exists>as bs n cs. sample_events = as @ Expect ''c1'' ''web'' # bs @ Fire n # cs \<and> (\<forall>e \<in> set bs. \<not> clears ''c1'' e)
    \<and> (\<exists>as1 s1 bs1 bs2. as @ Expect ''c1'' ''web'' # bs = as1 @ Expect ''c1'' s1 # bs1 @ Expire n # bs2 \<and> 30 \<le> elapsed bs1)"
proof -
  obtain t where "trun (newClientTracker 30 True) sample_events t" "tk_alerts t = [(''c1'', ''web'')]"
    using sample_trun by blast
  from tracker_alert_cause [OF this(1), of "''c1''" "''web''"] this(2) show ?thesis by simp
qed

text \<open>
  C24: a forgotten wrapper is always reported. Once a container is waiting for its fetch, every run in which
  no fetch of it arrives, it is not cancelled and the tracker is not stopped, and in which its timer's callback
  gets to run, raises an alert with the container and its service.
\<close>

theorem tracker_reports:
  assumes "trun (newClientTracker timeout True) es0 t0" "tk_pending t0 c = Some p"
    and "trun t0 es t" "\<forall>e \<in> set es. \<not> clears c e" "Fire (pd_timer p) \<in> set es"
  shows "\<exists>as bs. tk_alerts t = tk_alerts t0 @ as @ [(c, pd_service p)] @ bs"
proof -
  have i0: "tracker_inv t0" by (rule trun_inv [OF assms(1)]) simp
  have s0: "tk_sink t0" using assms(1) by (induction rule: trun.induct) (auto simp: newClientTracker_def tstep_sink)
  have "tracker_inv t \<and> tk_sink t \<and> ((\<exists>as bs. tk_alerts t = tk_alerts t0 @ as @ [(c, pd_service p)] @ bs)
     \<or> (tk_pending t c = Some p \<and> Fire (pd_timer p) \<notin> set es \<and> (\<exists>as. tk_alerts t = tk_alerts t0 @ as)))"
    using assms(3,4)
  proof (induction rule: trun.induct)
    case init
    then show ?case using i0 s0 assms(2) by simp
  next
    case (step es t e t')
    have ih: "tracker_inv t" "tk_sink t" "\<not> clears c e" using step by auto
    have new: "tracker_inv t'" "tk_sink t'" using tracker_inv_step [OF step.hyps(2) ih(1)] tstep_sink [OF step.hyps(2)] ih(2) by auto
    obtain xs where xs: "tk_alerts t' = tk_alerts t @ xs" using tstep_alerts [OF step.hyps(2)] by auto
    from step.IH step.prems have "(\<exists>as bs. tk_alerts t = tk_alerts t0 @ as @ [(c, pd_service p)] @ bs)
     \<or> (tk_pending t c = Some p \<and> Fire (pd_timer p) \<notin> set es \<and> (\<exists>as. tk_alerts t = tk_alerts t0 @ as))" by simp
    then show ?case
    proof (elim disjE conjE exE)
      fix as bs assume "tk_alerts t = tk_alerts t0 @ as @ [(c, pd_service p)] @ bs"
      then have "tk_alerts t' = tk_alerts t0 @ as @ [(c, pd_service p)] @ (bs @ xs)" using xs by simp
      then show ?thesis using new by blast
    next
      fix as assume w: "tk_pending t c = Some p" "Fire (pd_timer p) \<notin> set es" "tk_alerts t = tk_alerts t0 @ as"
      from tstep_waits [OF step.hyps(2) ih(1,2) w(1) ih(3)] show ?thesis
      proof
        assume "tk_pending t' c = Some p \<and> e \<noteq> Fire (pd_timer p)"
        then show ?thesis using new w xs by auto
      next
        assume "tk_alerts t' = tk_alerts t @ [(c, pd_service p)]"
        then have "tk_alerts t' = tk_alerts t0 @ as @ [(c, pd_service p)] @ []" using w by simp
        then show ?thesis using new by blast
      qed
    qed
  qed
  then show ?thesis using assms(5) by blast
qed

theorem tracker_reports_witness:
  "\<exists>t as bs. trun (newClientTracker 30 True) [Expect ''c1'' ''web'', Tick 30, Expire 0, Fire 0] t
     \<and> tk_alerts t = as @ [(''c1'', ''web'')] @ bs"
proof -
  let ?n = "newClientTracker 30 True" and ?t0 = "expect ''c1'' ''web'' (newClientTracker 30 True)"
  have r0: "trun ?n ([] @ [Expect ''c1'' ''web'']) ?t0" by (rule trun.step [OF trun.init tstep.expect])
  have p: "tk_pending ?t0 ''c1'' = Some \<lparr>pd_service = ''web'', pd_timer = 0\<rparr>" "tk_alerts ?t0 = []"
    by (simp_all add: expect_def newClientTracker_def)
  have "case exec_run ?t0 [Tick 30, Expire 0, Fire 0] of None \<Rightarrow> False | Some t \<Rightarrow> True" by code_simp
  then obtain t where t: "exec_run ?t0 [Tick 30, Expire 0, Fire 0] = Some t" by (auto split: option.splits)
  have r1: "trun ?t0 [Tick 30, Expire 0, Fire 0] t" using exec_run_trun [OF t trun.init] by simp
  have r2: "trun ?n [Expect ''c1'' ''web'', Tick 30, Expire 0, Fire 0] t" using exec_run_trun [OF t r0] by simp
  from tracker_reports [OF r0 p(1) r1] p(2) r2 show ?thesis by (auto simp: clears_def)
qed

text \<open>
  a started callback can blame the wrong wait. There is a run in which a container times out, is cancelled
  and expected again before the callback gets the mutex, and the callback then takes the new
  expectation: the alert comes while the container still has its whole time left, and its later timer finds nothing.
\<close>

theorem tracker_stale_callback:
  "\<exists>es t due. trun (newClientTracker 30 True) es t \<and> tk_alerts t = [(''c1'', ''web'')] \<and> tk_pending t ''c1'' = None
     \<and> tk_timers t 1 = Some (Armed ''c1'' due) \<and> tk_now t + 30 = due"
proof -
  let ?es = "[Expect ''c1'' ''web'', Tick 30, Expire 0, Cancel ''c1'', Expect ''c1'' ''web'', Fire 0]"
  have "case exec_run (newClientTracker 30 True) ?es of None \<Rightarrow> False
    | Some t \<Rightarrow> tk_alerts t = [(''c1'', ''web'')] \<and> tk_pending t ''c1'' = None \<and> tk_timers t 1 = Some (Armed ''c1'' 60) \<and> tk_now t = 30"
    by code_simp
  then obtain t where t: "exec_run (newClientTracker 30 True) ?es = Some t" "tk_alerts t = [(''c1'', ''web'')]"
    "tk_pending t ''c1'' = None" "tk_timers t 1 = Some (Armed ''c1'' 60)" "tk_now t = 30" by (auto split: option.splits)
  from exec_run_trun [OF t(1) trun.init] t(2-) show ?thesis by (intro exI [of _ ?es] exI [of _ t] exI [of _ 60]) simp
qed

end
