(* ===== verification/Peer_Auth.thy ===== *)
theory Peer_Auth
  imports Label_Parse Backend_Dotenv Wire_File
begin

text \<open>
  \<open>internal/peerauth\<close>: who is on the other end of the socket. The files of \<open>/proc\<close> are functions of the
  process id; the runtime's \<open>Inspect\<close> is a parameter. Nothing here trusts the peer: every answer comes
  from the kernel or the runtime, and any doubt is an error.
\<close>

section \<open>The runtime's view of a container\<close>

record container =
  rc_id :: string
  rc_name :: string
  rc_service :: string
  rc_labels :: smap

section \<open>The container id in a cgroup file\<close>

datatype auth_error =
    NoConnection | SyscallConn | ControlFd | SockOpt | NoUsablePid
  | StatUnreadable | StatNoComm | StatFields nat | StatStartTime string
  | CgroupUnreadable | CgroupScan | ErrNoContainerID | ErrAmbiguousContainerID
  | InspectFailed string | InspectMismatch string string | ConflictingName string string
  | NilIdentity | PidReused "64 word" "64 word"

definition knownPrefixes :: "string list" where
  "knownPrefixes = [''docker-'', ''libpod-'', ''crio-'', ''cri-containerd-'', ''containerd-'']"

definition is_hex :: "char \<Rightarrow> bool" where
  "is_hex c \<longleftrightarrow> c \<in> set ''0123456789abcdef''"

definition isHex64 :: "string \<Rightarrow> bool" where
  "isHex64 s \<longleftrightarrow> length s = 64 \<and> list_all is_hex s"

fun cut_known :: "string list \<Rightarrow> string \<Rightarrow> string" where
  "cut_known [] seg = []"
| "cut_known (p # ps) seg =
     (if has_prefix seg p \<and> isHex64 (trim_prefix seg p) then trim_prefix seg p else cut_known ps seg)"

definition idFromSegment :: "string \<Rightarrow> string" where
  "idFromSegment seg0 =
     (let seg = trim_suffix (trim_suffix seg0 ''.scope'') ''.service'' in
      if isHex64 seg then seg else cut_known knownPrefixes seg)"

text \<open>
  \<open>bufio.Scanner\<close> over lines: a carriage return at the end of a line is dropped, and a line that does
  not fit the 64 KiB buffer stops the scan with an error.
\<close>

definition drop_cr :: "string \<Rightarrow> string" where
  "drop_cr l = trim_suffix l [char_of (13 :: nat)]"

definition scan_lines :: "string \<Rightarrow> string list \<times> bool" where
  "scan_lines s =
     (let ls = split_byte newline s;
          ls = (if last ls = [] then butlast ls else ls);
          good = takeWhile (\<lambda>l. int (length l) < 65536) ls in
      (map drop_cr good, length good = length ls))"

text \<open>\<open>strings.SplitN(line, ":", 3)\<close>, when it has three parts: the third.\<close>

definition cgroup_path :: "string \<Rightarrow> string option" where
  "cgroup_path line =
     (case index_byte line CHR '':'' of
        None \<Rightarrow> None
      | Some i \<Rightarrow>
          (case index_byte (drop (Suc i) line) CHR '':'' of
             None \<Rightarrow> None
           | Some j \<Rightarrow> Some (drop (Suc j) (drop (Suc i) line))))"

definition find_segment :: "string \<Rightarrow> string \<Rightarrow> auth_error + string" where
  "find_segment found seg =
     (let id = idFromSegment seg in
      if id = [] then Inr found
      else if found \<noteq> [] \<and> found \<noteq> id then Inl ErrAmbiguousContainerID
      else Inr id)"

definition find_line :: "string \<Rightarrow> string \<Rightarrow> auth_error + string" where
  "find_line found text =
     (let line = trim_space text in
      if line = [] then Inr found
      else case cgroup_path line of
             None \<Rightarrow> Inr found
           | Some p \<Rightarrow> foldR find_segment found (split_byte CHR ''/'' p))"

definition parseCgroupContainerID :: "string \<Rightarrow> auth_error + string" where
  "parseCgroupContainerID body =
     (let (ls, ok) = scan_lines body in
      tryR (foldR find_line [] ls) (\<lambda>found.
        if \<not> ok then Inl CgroupScan
        else if found = [] then Inl ErrNoContainerID
        else Inr found))"

section \<open>The start time of a process\<close>

definition starttimeIndex :: nat where "starttimeIndex = 19"

text \<open>\<open>strings.Fields\<close>; the fuel is one more than the number of bytes.\<close>

fun fields_fuel :: "nat \<Rightarrow> string \<Rightarrow> string \<Rightarrow> string list" where
  "fields_fuel 0 s acc = (if acc = [] then [] else [rev acc])"
| "fields_fuel (Suc n) s acc =
     (let k = space_len s in
      if k \<noteq> 0 then (if acc = [] then fields_fuel n (drop k s) [] else rev acc # fields_fuel n (drop k s) [])
      else (case s of
              [] \<Rightarrow> if acc = [] then [] else [rev acc]
            | c # cs \<Rightarrow> fields_fuel n cs (c # acc)))"

definition go_fields :: "string \<Rightarrow> string list" where
  "go_fields s = fields_fuel (Suc (length s)) s []"

text \<open>\<open>strconv.ParseUint(s, 10, 64)\<close>.\<close>

definition parse_uint64 :: "string \<Rightarrow> 64 word option" where
  "parse_uint64 s =
     (if digits1 s \<and> digits_val 10 s 0 < 2 ^ 64 then Some (word_of_int (digits_val 10 s 0)) else None)"

definition parseStartTime :: "string \<Rightarrow> auth_error + 64 word" where
  "parseStartTime body =
     (case last_index_byte body CHR '')'' of
        None \<Rightarrow> Inl StatNoComm
      | Some rparen \<Rightarrow>
          if length body \<le> rparen + 1 then Inl StatNoComm
          else let rest = go_fields (drop (rparen + 1) body) in
            if length rest \<le> starttimeIndex then Inl (StatFields (length rest))
            else case parse_uint64 (rest ! starttimeIndex) of
                   None \<Rightarrow> Inl (StatStartTime (rest ! starttimeIndex))
                 | Some v \<Rightarrow> Inr v)"

section \<open>The credential of the peer\<close>

record ucred =
  uc_pid :: "32 word"
  uc_uid :: "32 word"
  uc_gid :: "32 word"

text \<open>An accepted connection: what its system calls give. The kernel's pid is signed.\<close>

record unix_conn =
  cn_syscall :: bool
  cn_control :: bool
  cn_getsockopt :: bool
  cn_cred :: "ucred option"

definition peerCred :: "unix_conn option \<Rightarrow> auth_error + ucred" where
  "peerCred conn =
     (case conn of
        None \<Rightarrow> Inl NoConnection
      | Some c \<Rightarrow>
          if \<not> cn_syscall c then Inl SyscallConn
          else if \<not> cn_control c then Inl ControlFd
          else if \<not> cn_getsockopt c then Inl SockOpt
          else (case cn_cred c of
                  None \<Rightarrow> Inl NoUsablePid
                | Some cred \<Rightarrow> if sint (uc_pid cred) \<le> 0 then Inl NoUsablePid else Inr cred))"

section \<open>The walk\<close>

record proc =
  pc_who :: nat
  pc_stat :: "string option"
  pc_cgroup :: "string option"

text \<open>
  One moment of \<open>/proc\<close>: the process with a pid, if any, and what its two files hold (\<^const>\<open>None\<close> for an
  unreadable one). \<open>pc_who\<close> tells two processes with the same pid apart; no definition looks at it.
\<close>

type_synonym procfs = "32 word \<Rightarrow> proc option"

record pin =
  pn_pid :: "32 word"
  pn_start :: "64 word"

record identity =
  id_container :: string
  id_service :: string
  id_labels :: smap
  id_cred :: ucred
  id_pin :: pin

definition readStartTime :: "procfs \<Rightarrow> 32 word \<Rightarrow> auth_error + 64 word" where
  "readStartTime fs pid =
     (case Option.bind (fs pid) pc_stat of None \<Rightarrow> Inl StatUnreadable | Some d \<Rightarrow> parseStartTime d)"

definition containerID :: "procfs \<Rightarrow> 32 word \<Rightarrow> auth_error + string" where
  "containerID fs pid =
     (case Option.bind (fs pid) pc_cgroup of None \<Rightarrow> Inl CgroupUnreadable | Some d \<Rightarrow> parseCgroupContainerID d)"

definition bermName :: "smap \<Rightarrow> auth_error + string" where
  "bermName labels =
     (let primary = sget labels (PrimaryPrefix @ ''name''); alias = sget labels (AliasPrefix @ ''name'') in
      if primary \<noteq> [] \<and> alias \<noteq> [] \<and> primary \<noteq> alias then Inl (ConflictingName primary alias)
      else if primary \<noteq> [] then Inr primary
      else Inr alias)"

definition ServiceName :: "container \<Rightarrow> auth_error + string" where
  "ServiceName c =
     tryR (bermName (rc_labels c)) (\<lambda>name.
       if name \<noteq> [] then Inr name
       else if rc_service c \<noteq> [] then Inr (rc_service c)
       else Inr (trim_prefix (rc_name c) ''/''))"

text \<open>The two files are read one after the other, at two moments of \<open>/proc\<close>.\<close>

definition auth_resolve ::
  "(string \<Rightarrow> container option) \<Rightarrow> procfs \<Rightarrow> procfs \<Rightarrow> ucred \<Rightarrow> auth_error + identity" where
  "auth_resolve inspect fs1 fs2 cred =
     tryR (readStartTime fs1 (uc_pid cred)) (\<lambda>st.
     tryR (containerID fs2 (uc_pid cred)) (\<lambda>id.
       case inspect id of
         None \<Rightarrow> Inl (InspectFailed id)
       | Some c \<Rightarrow>
           if rc_id c \<noteq> id then Inl (InspectMismatch id (rc_id c))
           else tryR (ServiceName c) (\<lambda>svc.
             Inr \<lparr>id_container = rc_id c, id_service = svc, id_labels = rc_labels c, id_cred = cred,
               id_pin = \<lparr>pn_pid = uc_pid cred, pn_start = st\<rparr>\<rparr>)))"

definition Authenticate ::
  "(string \<Rightarrow> container option) \<Rightarrow> procfs \<Rightarrow> procfs \<Rightarrow> unix_conn option \<Rightarrow> auth_error + identity" where
  "Authenticate inspect fs1 fs2 conn = tryR (peerCred conn) (auth_resolve inspect fs1 fs2)"

definition Verify :: "procfs \<Rightarrow> identity option \<Rightarrow> auth_error option" where
  "Verify fs ident =
     (case ident of
        None \<Rightarrow> Some NilIdentity
      | Some i \<Rightarrow>
          (case readStartTime fs (pn_pid (id_pin i)) of
             Inl e \<Rightarrow> Some e
           | Inr st \<Rightarrow> if st \<noteq> pn_start (id_pin i) then Some (PidReused st (pn_start (id_pin i))) else None))"

section \<open>What the cgroup parser finds\<close>

text \<open>The ids a file shows, in order, repetitions included.\<close>

definition line_ids :: "string \<Rightarrow> string list" where
  "line_ids text =
     (let line = trim_space text in
      if line = [] then []
      else case cgroup_path line of
             None \<Rightarrow> []
           | Some p \<Rightarrow> filter (\<lambda>i. i \<noteq> []) (map idFromSegment (split_byte CHR ''/'' p)))"

definition cgroup_ids :: "string \<Rightarrow> string list" where
  "cgroup_ids body = concat (map line_ids (fst (scan_lines body)))"

definition one_id :: "string \<Rightarrow> string list \<Rightarrow> auth_error + string" where
  "one_id found ids =
     (if ids = [] then Inr found
      else if set ids \<subseteq> {last ids} \<and> (found = [] \<or> found = last ids) then Inr (last ids)
      else Inl ErrAmbiguousContainerID)"

lemma one_id_append:
  assumes "[] \<notin> set xs" "[] \<notin> set ys"
  shows "tryR (one_id f xs) (\<lambda>g. one_id g ys) = one_id f (xs @ ys)"
proof (cases "xs = [] \<or> ys = []")
  case True
  then show ?thesis by (auto simp: one_id_def tryR_def)
next
  case False
  then have ne: "xs \<noteq> []" "ys \<noteq> []" by auto
  define a where "a = last xs"
  define b where "b = last ys"
  have in_a: "a \<in> set xs" and in_b: "b \<in> set ys" using ne by (simp_all add: a_def b_def)
  have nil: "a \<noteq> []" "b \<noteq> []" using in_a in_b assms by metis+
  have one: "one_id g xs = (if set xs \<subseteq> {a} \<and> (g = [] \<or> g = a) then Inr a else Inl ErrAmbiguousContainerID)"
    "one_id g ys = (if set ys \<subseteq> {b} \<and> (g = [] \<or> g = b) then Inr b else Inl ErrAmbiguousContainerID)"
    "one_id g (xs @ ys) = (if set xs \<subseteq> {b} \<and> set ys \<subseteq> {b} \<and> (g = [] \<or> g = b) then Inr b else Inl ErrAmbiguousContainerID)" for g
    using ne by (simp_all add: one_id_def a_def b_def)
  show ?thesis
    unfolding one(1,3) using in_a nil by (auto simp: tryR_def one(2))
qed

lemma find_segments: "foldR find_segment f segs = one_id f (filter (\<lambda>i. i \<noteq> []) (map idFromSegment segs))"
proof (induction segs arbitrary: f)
  case Nil
  then show ?case by (simp add: one_id_def)
next
  case (Cons s segs)
  have step: "find_segment f s = one_id f (filter (\<lambda>i. i \<noteq> []) [idFromSegment s])"
    by (auto simp: find_segment_def one_id_def Let_def)
  have "foldR find_segment f (s # segs) = tryR (one_id f (filter (\<lambda>i. i \<noteq> []) [idFromSegment s]))
     (\<lambda>g. one_id g (filter (\<lambda>i. i \<noteq> []) (map idFromSegment segs)))"
    using Cons by (simp add: step)
  also have "\<dots> = one_id f (filter (\<lambda>i. i \<noteq> []) (map idFromSegment (s # segs)))"
    by (subst one_id_append) simp_all
  finally show ?case .
qed

lemma line_ids_no_Nil [simp]: "[] \<notin> set (line_ids l)"
  by (auto simp: line_ids_def Let_def split: option.splits)

lemma find_lines: "foldR find_line f ls = one_id f (concat (map line_ids ls))"
proof (induction ls arbitrary: f)
  case Nil
  then show ?case by (simp add: one_id_def)
next
  case (Cons l ls)
  have step: "find_line f l = one_id f (line_ids l)"
    by (auto simp: find_line_def line_ids_def Let_def find_segments one_id_def split: option.splits)
  then show ?case using Cons by (simp add: one_id_append)
qed

lemma cgroup_ids_no_Nil [simp]: "[] \<notin> set (cgroup_ids c)"
  by (auto simp: cgroup_ids_def)

lemma parseCgroup_spec:
  "parseCgroupContainerID body =
     (let ids = cgroup_ids body in
      if 1 < card (set ids) then Inl ErrAmbiguousContainerID
      else if \<not> snd (scan_lines body) then Inl CgroupScan
      else if ids = [] then Inl ErrNoContainerID
      else Inr (hd ids))"
proof -
  obtain ls ok where s: "scan_lines body = (ls, ok)" by (metis prod.exhaust)
  have ids: "cgroup_ids body = concat (map line_ids ls)" by (simp add: cgroup_ids_def s)
  show ?thesis
  proof (cases "cgroup_ids body = []")
    case True
    then show ?thesis using ids by (auto simp: parseCgroupContainerID_def s find_lines one_id_def tryR_def)
  next
    case False
    let ?ids = "cgroup_ids body"
    have l: "last ?ids \<noteq> []" "last ?ids \<in> set ?ids" using False cgroup_ids_no_Nil last_in_set by metis+
    show ?thesis
    proof (cases "set ?ids \<subseteq> {last ?ids}")
      case True
      then have "set ?ids = {last ?ids}" using l(2) by blast
      moreover have "hd ?ids \<in> set ?ids" using False by simp
      ultimately have "hd ?ids = last ?ids" "card (set ?ids) = 1" by simp_all
      then show ?thesis using False True l ids
        by (auto simp: parseCgroupContainerID_def s find_lines one_id_def tryR_def Let_def)
    next
      case notsub: False
      then obtain x where "x \<in> set ?ids" "x \<noteq> last ?ids" by blast
      then have "card {x, last ?ids} \<le> card (set ?ids)" using l(2) by (intro card_mono) auto
      then have "1 < card (set ?ids)" using \<open>x \<noteq> _\<close> by simp
      then show ?thesis using False notsub ids
        by (auto simp: parseCgroupContainerID_def s find_lines one_id_def tryR_def Let_def)
    qed
  qed
qed

lemma isHex64_idFromSegment: "idFromSegment s \<noteq> [] \<Longrightarrow> isHex64 (idFromSegment s)"
proof -
  have "cut_known ps seg \<noteq> [] \<Longrightarrow> isHex64 (cut_known ps seg)" for ps seg
    by (induction ps) auto
  then show "idFromSegment s \<noteq> [] \<Longrightarrow> isHex64 (idFromSegment s)"
    by (auto simp: idFromSegment_def Let_def split: if_splits)
qed

lemma cgroup_ids_hex: "i \<in> set (cgroup_ids c) \<Longrightarrow> isHex64 i"
  by (auto simp: cgroup_ids_def line_ids_def Let_def isHex64_idFromSegment split: if_splits option.splits)

section \<open>Properties\<close>

definition sample_cid :: string where
  "sample_cid = replicate 64 CHR ''a''"

definition sample_proc :: procfs where
  "sample_proc pid = (if pid = 7
     then Some \<lparr>pc_who = 1, pc_stat = Some (''7 (a) b) S 1 1 1 1 1 1 1 1 1 1 1 1 1 1 1 1 1 1 42 0''),
       pc_cgroup = Some (''0::/system.slice/docker-'' @ sample_cid @ ''.scope'' @ [newline])\<rparr>
     else None)"

definition sample_conn :: unix_conn where
  "sample_conn = \<lparr>cn_syscall = True, cn_control = True, cn_getsockopt = True,
     cn_cred = Some \<lparr>uc_pid = 7, uc_uid = 0, uc_gid = 0\<rparr>\<rparr>"

definition sample_inspect :: "string \<Rightarrow> container option" where
  "sample_inspect i = Some \<lparr>rc_id = i, rc_name = ''/web'', rc_service = ''webapp'', rc_labels = []\<rparr>"

definition sample_identity :: identity where
  "sample_identity = \<lparr>id_container = sample_cid, id_service = ''webapp'', id_labels = [],
     id_cred = \<lparr>uc_pid = 7, uc_uid = 0, uc_gid = 0\<rparr>, id_pin = \<lparr>pn_pid = 7, pn_start = 42\<rparr>\<rparr>"

lemma sample_Authenticate: "Authenticate sample_inspect sample_proc sample_proc (Some sample_conn) = Inr sample_identity"
  by code_simp

text \<open>
  C22: the container id is never a guess. The parser returns an id exactly when the whole file was
  scanned and every id any of its path segments shows is that one id, whichever runtime's naming it has; and it
  is a full id of 64 lowercase hexadecimal digits.
\<close>

theorem parseCgroup_exact:
  "(parseCgroupContainerID body = Inr i \<longleftrightarrow> snd (scan_lines body) \<and> set (cgroup_ids body) = {i})
   \<and> (parseCgroupContainerID body = Inr i \<longrightarrow> isHex64 i)"
proof -
  have *: "parseCgroupContainerID body = Inr i \<longleftrightarrow> snd (scan_lines body) \<and> set (cgroup_ids body) = {i}"
  proof (cases "cgroup_ids body")
    case Nil
    then show ?thesis by (simp add: parseCgroup_spec)
  next
    case (Cons x xs)
    have "card (set (cgroup_ids body)) \<le> 1 \<longleftrightarrow> set (cgroup_ids body) = {x}"
      using Cons card_le_Suc0_iff_eq [of "set (cgroup_ids body)"] by auto
    then show ?thesis using Cons by (auto simp: parseCgroup_spec Let_def not_less)
  qed
  moreover have "isHex64 i" if "parseCgroupContainerID body = Inr i"
    using that * cgroup_ids_hex [of i body] by simp
  ultimately show ?thesis by blast
qed

theorem parseCgroup_exact_witness:
  "isHex64 sample_cid \<and> parseCgroupContainerID (the (pc_cgroup (the (sample_proc 7)))) = Inr sample_cid"
proof -
  have "parseCgroupContainerID (the (pc_cgroup (the (sample_proc 7)))) = Inr sample_cid" by code_simp
  with parseCgroup_exact [of "the (pc_cgroup (the (sample_proc 7)))" sample_cid] show ?thesis by blast
qed

text \<open>
  C8: authentication fails closed. An identity comes out only if the kernel gave a positive pid, the
  start time of that process could be read, its cgroup file names one container, and the runtime, asked for
  that id, answered with a container of exactly that id; the identity's service and labels are
  those of that container, and no word of the peer's.
\<close>

theorem Authenticate_fail_closed:
  assumes "Authenticate inspect fs1 fs2 conn = Inr ident"
  shows "\<exists>cn cred c body. conn = Some cn \<and> cn_cred cn = Some cred \<and> 0 < sint (uc_pid cred) \<and> id_cred ident = cred
    \<and> readStartTime fs1 (uc_pid cred) = Inr (pn_start (id_pin ident)) \<and> pn_pid (id_pin ident) = uc_pid cred
    \<and> Option.bind (fs2 (uc_pid cred)) pc_cgroup = Some body \<and> set (cgroup_ids body) = {id_container ident}
    \<and> inspect (id_container ident) = Some c \<and> rc_id c = id_container ident
    \<and> ServiceName c = Inr (id_service ident) \<and> id_labels ident = rc_labels c"
proof -
  obtain cred where cr: "peerCred conn = Inr cred" "auth_resolve inspect fs1 fs2 cred = Inr ident"
    using assms by (auto simp: Authenticate_def result_simps)
  obtain st i c svc where r: "readStartTime fs1 (uc_pid cred) = Inr st" "containerID fs2 (uc_pid cred) = Inr i"
    "inspect i = Some c" "rc_id c = i" "ServiceName c = Inr svc"
    "ident = \<lparr>id_container = rc_id c, id_service = svc, id_labels = rc_labels c, id_cred = cred,
       id_pin = \<lparr>pn_pid = uc_pid cred, pn_start = st\<rparr>\<rparr>"
    using cr(2) by (auto simp: auth_resolve_def result_simps split: option.splits if_splits)
  obtain cn where cn: "conn = Some cn" "cn_cred cn = Some cred" "0 < sint (uc_pid cred)"
    using cr(1) by (auto simp: peerCred_def split: option.splits if_splits)
  obtain body where b: "Option.bind (fs2 (uc_pid cred)) pc_cgroup = Some body" "parseCgroupContainerID body = Inr i"
    using r(2) by (auto simp: containerID_def split: option.splits)
  have "set (cgroup_ids body) = {i}"
    using b(2) by (auto simp: parseCgroup_spec Let_def split: if_splits) (metis card_le_Suc0_iff_eq List.finite_set One_nat_def hd_in_set not_less)+
  then show ?thesis using cn r b by auto
qed

theorem Authenticate_fail_closed_witness:
  "\<exists>c. sample_inspect sample_cid = Some c \<and> ServiceName c = Inr ''webapp''"
  using Authenticate_fail_closed [OF sample_Authenticate] by (auto simp: sample_identity_def)

text \<open>
  the pin closes the pid-reuse window. Let the kernel never give a pid to two processes with one start
  time, as it promises within a boot. When a caller authenticated at two moments and verified at a later
  one, the process whose cgroup was read is the process whose start time was pinned, and it is the
  one that still has the pid.
\<close>

theorem Verify_closes_reuse:
  fixes h :: "nat \<Rightarrow> procfs"
  assumes kernel: "\<And>t1 t2 t3 pid st. t1 \<le> t2 \<Longrightarrow> t2 \<le> t3 \<Longrightarrow> readStartTime (h t1) pid = Inr st \<Longrightarrow>
      readStartTime (h t3) pid = Inr st \<Longrightarrow> map_option pc_who (h t2 pid) = map_option pc_who (h t1 pid)"
    and "Authenticate inspect (h t1) (h t2) conn = Inr ident" "Verify (h t3) (Some ident) = None" "t1 \<le> t2" "t2 \<le> t3"
  shows "let pid = uc_pid (id_cred ident) in
     map_option pc_who (h t2 pid) = map_option pc_who (h t1 pid) \<and> map_option pc_who (h t3 pid) = map_option pc_who (h t1 pid)
     \<and> h t1 pid \<noteq> None"
proof -
  obtain cred st where r: "id_cred ident = cred" "readStartTime (h t1) (uc_pid cred) = Inr st"
    "id_pin ident = \<lparr>pn_pid = uc_pid cred, pn_start = st\<rparr>"
    using assms(2) by (auto simp: Authenticate_def auth_resolve_def result_simps split: option.splits if_splits)
  have v: "readStartTime (h t3) (uc_pid cred) = Inr st"
    using assms(3) r(3) by (auto simp: Verify_def split: sum.splits if_splits)
  have "h t1 (uc_pid cred) \<noteq> None" using r(2) by (cases "h t1 (uc_pid cred)") (simp_all add: readStartTime_def)
  then show ?thesis
    using kernel [OF assms(4,5) r(2) v] kernel [OF order_trans [OF assms(4,5)] order_refl r(2) v] r(1) by simp
qed

theorem Verify_closes_reuse_witness:
  "map_option pc_who (sample_proc 7) = Some 1 \<and> Verify sample_proc (Some sample_identity) = None
   \<and> Verify (sample_proc(7 := Some \<lparr>pc_who = 2, pc_stat = Some ''7 (x) S 1 1 1 1 1 1 1 1 1 1 1 1 1 1 1 1 1 1 43'',
       pc_cgroup = None\<rparr>)) (Some sample_identity) \<noteq> None"
proof -
  have v: "Verify sample_proc (Some sample_identity) = None" by code_simp
  have "Verify (sample_proc(7 := Some \<lparr>pc_who = 2, pc_stat = Some ''7 (x) S 1 1 1 1 1 1 1 1 1 1 1 1 1 1 1 1 1 1 43'',
       pc_cgroup = None\<rparr>)) (Some sample_identity) \<noteq> None" by code_simp
  moreover have "uc_pid (id_cred sample_identity) = 7" by (simp add: sample_identity_def)
  ultimately show ?thesis
    using Verify_closes_reuse [of "\<lambda>t. sample_proc" sample_inspect 0 1 "Some sample_conn" sample_identity 2] v
      sample_Authenticate by (auto simp: Let_def sample_proc_def)
qed

text \<open>
  a process cannot forge its start time through its name. The result depends only on what follows the
  last closing parenthesis of the stat file: two files that differ before it, in names that hold
  spaces, parentheses or numbers, give the same start time.
\<close>

theorem parseStartTime_comm:
  assumes "CHR '')'' \<notin> set rest"
  shows "parseStartTime (a @ '')'' @ rest) = parseStartTime (b @ '')'' @ rest)"
  using last_index_byte_split [OF assms, of a] last_index_byte_split [OF assms, of b]
  by (simp add: parseStartTime_def)

theorem parseStartTime_comm_witness:
  "parseStartTime (''7 (a) S 1 1 1 1 1 1 1 1 1 1 1 1 1 1 1 1 1 1 9 b)'' @ '' S 1 1 1 1 1 1 1 1 1 1 1 1 1 1 1 1 1 1 42'') = Inr 42"
proof -
  have "parseStartTime (''7 (a'' @ '')'' @ '' S 1 1 1 1 1 1 1 1 1 1 1 1 1 1 1 1 1 1 42'') = Inr 42" by code_simp
  with parseStartTime_comm [of "'' S 1 1 1 1 1 1 1 1 1 1 1 1 1 1 1 1 1 1 42''" "''7 (a''" "''7 (a) S 1 1 1 1 1 1 1 1 1 1 1 1 1 1 1 1 1 1 9 b''"]
  show ?thesis by simp
qed

end
