(* ===== verification/Resolve_Model.thy ===== *)
theory Resolve_Model
  imports Label_Parse Config_Model
begin

text \<open>
  The policy layer (\<open>internal/resolve/resolve.go\<close>, \<open>internal/resolve/deliver.go\<close>): from the
  labels of one container and berm.yml to a plan of targets, or a classified error.
\<close>

section \<open>Inputs and plans\<close>

record resolve_input =
  in_labels :: smap
  in_container_id :: string
  in_service :: string
  in_container_user :: string
  in_config :: "config option"
  in_default_delivery :: mechanism

record env_binding =
  eb_var :: string
  eb_source :: string
  eb_key :: string
  eb_all :: bool

record file_binding =
  fb_name :: string
  fb_source :: string
  fb_format :: source_format
  fb_whole :: bool
  fb_key :: string
  fb_path :: string
  fb_owner :: string
  fb_mode :: string
  fb_pointer_var :: string

record render_binding =
  rb_kind :: render_kind
  rb_source :: string
  rb_format :: source_format
  rb_path :: string
  rb_owner :: string
  rb_mode :: string

record plan =
  p_container :: string
  p_service :: string
  p_mechanism :: mechanism
  p_env :: "env_binding list"
  p_files :: "file_binding list"
  p_renders :: "render_binding list"
  p_env_exposure :: bool

record resolver =
  rv_cfg :: config
  rv_service :: string
  rv_default_source :: string
  rv_container_user :: string
  rv_container_owner :: string
  rv_container_mode :: string

section \<open>Scoping\<close>

definition sourceFormat :: "string \<Rightarrow> source \<Rightarrow> label_error + source_format" where
  "sourceFormat name src =
     (if src_format src = [] then Inr FormatDotenv
      else if \<not> format_valid (src_format src)
      then Inl (newError ClassBadConfig [(''source'', name), (''format'', src_format src)]
             ''source %q has an unrecognized format %q'' [name, src_format src])
      else Inr (src_format src))"

definition serviceOwns :: "string \<Rightarrow> string \<Rightarrow> source \<Rightarrow> bool" where
  "serviceOwns service name src =
     ((if src_owner src = [] then name else src_owner src) = service)"

definition serviceMayRead :: "string \<Rightarrow> string \<Rightarrow> source \<Rightarrow> bool" where
  "serviceMayRead service name src \<longleftrightarrow>
     serviceOwns service name src \<or> service \<in> set (src_access src)"

definition isUnsetRef :: "ref \<Rightarrow> bool" where
  "isUnsetRef r \<longleftrightarrow> r_kind r = RefKey \<and> r_key r = [] \<and> r_source r = []"

definition missingSource :: "resolver \<Rightarrow> string \<Rightarrow> label_error" where
  "missingSource r name =
     newError ClassMissingSource [(''source'', name), (''service'', rv_service r)]
       ''source %q is not defined in berm.yml'' [name]"

definition ungranted :: "resolver \<Rightarrow> string \<Rightarrow> label_error" where
  "ungranted r name =
     newError ClassUngrantedRef [(''source'', name), (''service'', rv_service r)]
       ''service %q may not read source %q: it is not the owner and the source's access list does not name it''
       [rv_service r, name]"

definition ownerDefault :: "resolver \<Rightarrow> string" where
  "ownerDefault r = first_non_empty [rv_container_user r, ''0:0'']"

definition modeDefault :: "resolver \<Rightarrow> string" where
  "modeDefault r = first_non_empty [def_mode (c_defaults (rv_cfg r)), ''0400'']"

section \<open>References, files, env and renders\<close>

text \<open>\<open>resolveRef\<close> returns \<open>(name, format, whole, key)\<close>.\<close>

definition resolveRef ::
  "resolver \<Rightarrow> ref \<Rightarrow> label_error + (string \<times> source_format \<times> bool \<times> string)" where
  "resolveRef r rf =
     (let name = (if r_kind rf = RefKey then rv_default_source r else r_source rf) in
      case c_sources (rv_cfg r) name of
        None \<Rightarrow> Inl (missingSource r name)
      | Some src \<Rightarrow>
          tryR (sourceFormat name src) (\<lambda>format.
            if r_kind rf = RefSource then
              (if format \<noteq> FormatBinary
               then Inl (newError ClassWrongRefShape [(''source'', name)]
                      ''a whole-source reference needs a binary source, but %q is dotenv'' [name])
               else if \<not> serviceMayRead (rv_service r) name src then Inl (ungranted r name)
               else Inr (name, format, True, []))
            else
              (if format \<noteq> FormatDotenv
               then Inl (newError ClassWrongRefShape [(''source'', name)]
                      ''a key reference needs a dotenv source, but %q is binary'' [name])
               else if \<not> serviceMayRead (rv_service r) name src then Inl (ungranted r name)
               else Inr (name, format, False, r_key rf))))"

definition resolveEnv :: "resolver \<Rightarrow> env_delivery \<Rightarrow> label_error + env_binding" where
  "resolveEnv r ed =
     (if ed_all ed then
        (case c_sources (rv_cfg r) (rv_default_source r) of
           None \<Rightarrow> Inl (missingSource r (rv_default_source r))
         | Some src \<Rightarrow>
             tryR (sourceFormat (rv_default_source r) src) (\<lambda>format.
               if format \<noteq> FormatDotenv
               then Inl (newError ClassWrongRefShape [(''source'', rv_default_source r)]
                      ''berm.env=all needs a dotenv default source, but %q is binary''
                      [rv_default_source r])
               else if \<not> serviceOwns (rv_service r) (rv_default_source r) src
               then Inl (newError ClassAllCrossService
                      [(''source'', rv_default_source r), (''service'', rv_service r)]
                      ''berm.env=all is legal only on the container's own owned default source, not on %q''
                      [rv_default_source r])
               else Inr \<lparr>eb_var = [], eb_source = rv_default_source r, eb_key = [], eb_all = True\<rparr>))
      else tryR (resolveRef r (ed_ref ed)) (\<lambda>(name, format, whole, key).
             Inr \<lparr>eb_var = ed_var ed, eb_source = name, eb_key = key, eb_all = False\<rparr>))"

definition resolveFile :: "resolver \<Rightarrow> file_delivery \<Rightarrow> label_error + file_binding" where
  "resolveFile r fd =
     (let from = (if isUnsetRef (fd_from fd)
                  then \<lparr>r_kind = RefSource, r_source = rv_default_source r, r_key = []\<rparr>
                  else fd_from fd) in
      tryR (resolveRef r from) (\<lambda>(name, format, whole, key).
        Inr \<lparr>fb_name = fd_name fd, fb_source = name, fb_format = format, fb_whole = whole,
          fb_key = key,
          fb_path = (if fd_path fd = [] then ''/run/berm/'' @ fd_name fd else fd_path fd),
          fb_owner = first_non_empty [fd_owner fd, rv_container_owner r, ownerDefault r],
          fb_mode = first_non_empty [fd_mode fd, rv_container_mode r, modeDefault r],
          fb_pointer_var = (if \<not> whole then key @ ''_FILE'' else [])\<rparr>))"

definition resolveRender ::
  "resolver \<Rightarrow> render_kind \<Rightarrow> string \<Rightarrow> string \<Rightarrow> string \<Rightarrow> label_error + render_binding" where
  "resolveRender r kind path owner mode =
     (case c_sources (rv_cfg r) (rv_default_source r) of
        None \<Rightarrow> Inl (missingSource r (rv_default_source r))
      | Some src \<Rightarrow>
          tryR (sourceFormat (rv_default_source r) src) (\<lambda>format.
            if format \<noteq> FormatDotenv
            then Inl (newError ClassWrongRefShape [(''source'', rv_default_source r)]
                   ''a whole-source render needs a dotenv default source, but %q is binary''
                   [rv_default_source r])
            else if \<not> serviceMayRead (rv_service r) (rv_default_source r) src
            then Inl (ungranted r (rv_default_source r))
            else Inr \<lparr>rb_kind = kind, rb_source = rv_default_source r, rb_format = format,
                   rb_path = path, rb_owner = first_non_empty [owner, ownerDefault r],
                   rb_mode = first_non_empty [mode, modeDefault r]\<rparr>))"

section \<open>Resolve\<close>

text \<open>\<open>Inr None\<close> is Go's \<open>(nil, nil)\<close>: the container is inert.\<close>

definition choose_mechanism :: "config \<Rightarrow> mechanism \<Rightarrow> mechanism \<Rightarrow> mechanism" where
  "choose_mechanism cfg lbl dflt =
     (let m1 = lbl; m2 = (if m1 = [] then dflt else m1) in
      if m2 = [] then def_delivery (c_defaults cfg) else m2)"

definition resolve_renders :: "resolver \<Rightarrow> container_spec \<Rightarrow> label_error + render_binding list" where
  "resolve_renders r spec =
     tryR (if sp_dotenv spec \<noteq> []
           then tryR (resolveRender r RenderDotenv (sp_dotenv spec) (sp_owner spec) (sp_mode spec)) (\<lambda>rb. Inr [rb])
           else Inr []) (\<lambda>rs1.
     tryR (if sp_envdir spec \<noteq> []
           then tryR (resolveRender r RenderEnvdir (sp_envdir spec) (sp_owner spec) (sp_mode spec)) (\<lambda>rb. Inr [rb])
           else Inr []) (\<lambda>rs2.
     Inr (rs1 @ rs2)))"

definition resolve_spec ::
  "resolve_input \<Rightarrow> config \<Rightarrow> container_spec \<Rightarrow> label_error + plan option" where
  "resolve_spec inp cfg spec =
     (let service = first_non_empty [in_service inp, sp_name spec] in
      if service = []
      then Inl (newError ClassBadConfig [] ''container has no resolvable service identity'' [])
      else
        let r = \<lparr>rv_cfg = cfg, rv_service = service,
                 rv_default_source = first_non_empty [sp_source spec, service],
                 rv_container_user = in_container_user inp,
                 rv_container_owner = sp_owner spec, rv_container_mode = sp_mode spec\<rparr>;
            mech = choose_mechanism cfg (sp_delivery spec) (in_default_delivery inp) in
        if \<not> mech_valid mech
        then Inl (newError ClassBadConfig [(''delivery'', mech)]
               ''no valid delivery mechanism from berm.delivery, BERM_DEFAULT_DELIVERY, or berm.yml defaults'' [])
        else if sp_env spec \<noteq> [] \<and> \<not> EnvAllowed mech
        then Inl (newError ClassEnvWrongMechanism [(''delivery'', mech)]
               ''env delivery requires the client mechanism, refused on %s'' [mech])
        else
          tryR (mapR (resolveEnv r) (sp_env spec)) (\<lambda>env.
          tryR (mapR (resolveFile r) (sp_files spec)) (\<lambda>files.
          tryR (resolve_renders r spec) (\<lambda>renders.
            Inr (Some \<lparr>p_container = in_container_id inp, p_service = service,
              p_mechanism = mech, p_env = env, p_files = files, p_renders = renders,
              p_env_exposure = (env \<noteq> [])\<rparr>)))))"

definition Resolve :: "resolve_input \<Rightarrow> label_error + plan option" where
  "Resolve inp =
     (case in_config inp of
        None \<Rightarrow> Inl (newError ClassBadConfig [] ''berm.yml is not loaded'' [])
      | Some cfg \<Rightarrow>
          tryR (Parse (in_labels inp)) (\<lambda>spec.
            if \<not> sp_enabled spec then Inr None else resolve_spec inp cfg spec))"

section \<open>The adapter to the delivery layer\<close>

definition ToDelivery :: "plan \<Rightarrow> dplan" where
  "ToDelivery p =
     \<lparr>dp_container = p_container p, dp_service = p_service p, dp_mechanism = p_mechanism p,
      dp_files = map (\<lambda>fb. \<lparr>ft_name = fb_name fb, ft_source = fb_source fb, ft_format = fb_format fb,
         ft_whole = fb_whole fb, ft_key = fb_key fb, ft_path = fb_path fb, ft_owner = fb_owner fb,
         ft_mode = fb_mode fb, ft_pointer_var = fb_pointer_var fb\<rparr>) (p_files p),
      dp_env = map (\<lambda>eb. \<lparr>et_var = eb_var eb, et_source = eb_source eb, et_key = eb_key eb,
         et_all = eb_all eb\<rparr>) (p_env p),
      dp_renders = map (\<lambda>rb. \<lparr>rt_kind = rb_kind rb, rt_source = rb_source rb, rt_path = rb_path rb,
         rt_owner = rb_owner rb, rt_mode = rb_mode rb\<rparr>) (p_renders p),
      dp_env_exposure = p_env_exposure p\<rparr>"

section \<open>What a resolved reference is\<close>

lemma sourceFormat_cases: "sourceFormat n src = Inr f \<Longrightarrow> f = FormatDotenv \<or> f = FormatBinary"
  by (auto simp: sourceFormat_def format_valid_def split: if_split_asm)

lemma formats_differ [simp]: "FormatDotenv \<noteq> FormatBinary" "FormatBinary \<noteq> FormatDotenv"
  by (simp_all add: FormatDotenv_def FormatBinary_def)

definition ref_source_name :: "string \<Rightarrow> ref \<Rightarrow> string" where
  "ref_source_name dflt rf = (if r_kind rf = RefKey then dflt else r_source rf)"

definition ref_legal :: "config \<Rightarrow> string \<Rightarrow> string \<Rightarrow> ref \<Rightarrow> bool" where
  "ref_legal cfg svc dflt rf \<longleftrightarrow>
     (\<exists>src. c_sources cfg (ref_source_name dflt rf) = Some src
        \<and> sourceFormat (ref_source_name dflt rf) src
            = Inr (if r_kind rf = RefSource then FormatBinary else FormatDotenv)
        \<and> serviceMayRead svc (ref_source_name dflt rf) src)"

lemma resolveRef_eq:
  "(\<exists>x. resolveRef r rf = Inr x) \<longleftrightarrow> ref_legal (rv_cfg r) (rv_service r) (rv_default_source r) rf"
  by (auto simp: resolveRef_def ref_legal_def ref_source_name_def tryR_def Let_def
      split: option.splits sum.splits if_split_asm)

lemma resolveRef_Inr:
  assumes "resolveRef r rf = Inr (n, f, w, k)"
  shows "n = ref_source_name (rv_default_source r) rf" "w = (r_kind rf = RefSource)"
    "f = (if r_kind rf = RefSource then FormatBinary else FormatDotenv)"
    "k = (if r_kind rf = RefSource then [] else r_key rf)"
    "ref_legal (rv_cfg r) (rv_service r) (rv_default_source r) rf"
proof -
  show "ref_legal (rv_cfg r) (rv_service r) (rv_default_source r) rf"
    using assms by (simp add: resolveRef_eq [symmetric])
qed (use assms in \<open>auto simp: resolveRef_def ref_source_name_def tryR_def Let_def
      split: option.splits sum.splits if_split_asm\<close>)

lemma ref_legal_may_read:
  "ref_legal cfg svc d rf \<Longrightarrow>
     \<exists>src. c_sources cfg (ref_source_name d rf) = Some src \<and> serviceMayRead svc (ref_source_name d rf) src"
  by (auto simp: ref_legal_def)

text \<open>The reference a file delivery stands for.\<close>

definition file_ref :: "string \<Rightarrow> file_delivery \<Rightarrow> ref" where
  "file_ref dflt fd =
     (if isUnsetRef (fd_from fd) then \<lparr>r_kind = RefSource, r_source = dflt, r_key = []\<rparr> else fd_from fd)"

definition file_bound :: "resolver \<Rightarrow> file_delivery \<Rightarrow> file_binding \<Rightarrow> bool" where
  "file_bound r fd fb \<longleftrightarrow>
     fb_name fb = fd_name fd
     \<and> fb_source fb = ref_source_name (rv_default_source r) (file_ref (rv_default_source r) fd)
     \<and> fb_whole fb = (r_kind (file_ref (rv_default_source r) fd) = RefSource)
     \<and> fb_format fb = (if fb_whole fb then FormatBinary else FormatDotenv)
     \<and> fb_key fb = (if fb_whole fb then [] else r_key (file_ref (rv_default_source r) fd))
     \<and> fb_path fb = (if fd_path fd = [] then ''/run/berm/'' @ fd_name fd else fd_path fd)
     \<and> fb_pointer_var fb = (if fb_whole fb then [] else fb_key fb @ ''_FILE'')
     \<and> fb_owner fb = first_non_empty [fd_owner fd, rv_container_owner r, rv_container_user r, ''0:0'']
     \<and> fb_mode fb = first_non_empty [fd_mode fd, rv_container_mode r, def_mode (c_defaults (rv_cfg r)), ''0400'']"

lemma first_non_empty_nest:
  "first_non_empty [a, b, first_non_empty [c, d]] = first_non_empty [a, b, c, d]"
  "first_non_empty [a, first_non_empty [c, d]] = first_non_empty [a, c, d]"
  by simp_all

lemma resolveFile_bound:
  assumes "resolveFile r fd = Inr fb"
  shows "file_bound r fd fb"
    "ref_legal (rv_cfg r) (rv_service r) (rv_default_source r) (file_ref (rv_default_source r) fd)"
proof -
  obtain n f w k where rr: "resolveRef r (file_ref (rv_default_source r) fd) = Inr (n, f, w, k)"
    using assms by (auto simp: resolveFile_def file_ref_def Let_def result_simps)
  note s = resolveRef_Inr [OF rr]
  show "ref_legal (rv_cfg r) (rv_service r) (rv_default_source r) (file_ref (rv_default_source r) fd)"
    by (rule s(5))
  from assms rr show "file_bound r fd fb"
    using s(1-4)
    by (auto simp: resolveFile_def file_ref_def [symmetric] file_bound_def Let_def
        ownerDefault_def modeDefault_def simp del: first_non_empty.simps)
      (simp_all)
qed

lemma resolveFile_ok:
  "(\<exists>fb. resolveFile r fd = Inr fb) \<longleftrightarrow>
     ref_legal (rv_cfg r) (rv_service r) (rv_default_source r) (file_ref (rv_default_source r) fd)"
  unfolding resolveRef_eq [symmetric] resolveFile_def file_ref_def [symmetric] Let_def
  by (auto simp: result_simps)

section \<open>Env deliveries and renders\<close>

definition default_legal :: "config \<Rightarrow> string \<Rightarrow> (string \<Rightarrow> string \<Rightarrow> source \<Rightarrow> bool) \<Rightarrow> string \<Rightarrow> bool" where
  "default_legal cfg svc allowed dflt \<longleftrightarrow>
     (\<exists>src. c_sources cfg dflt = Some src \<and> sourceFormat dflt src = Inr FormatDotenv
        \<and> allowed svc dflt src)"

definition env_legal :: "config \<Rightarrow> string \<Rightarrow> string \<Rightarrow> env_delivery \<Rightarrow> bool" where
  "env_legal cfg svc dflt ed \<longleftrightarrow>
     (if ed_all ed then default_legal cfg svc serviceOwns dflt else ref_legal cfg svc dflt (ed_ref ed))"

definition env_bound :: "resolver \<Rightarrow> env_delivery \<Rightarrow> env_binding \<Rightarrow> bool" where
  "env_bound r ed eb \<longleftrightarrow>
     eb_all eb = ed_all ed
     \<and> eb_source eb = (if ed_all ed then rv_default_source r
                       else ref_source_name (rv_default_source r) (ed_ref ed))
     \<and> eb_var eb = (if ed_all ed then [] else ed_var ed)
     \<and> eb_key eb = (if ed_all ed \<or> r_kind (ed_ref ed) = RefSource then [] else r_key (ed_ref ed))"

lemma resolveEnv_ok:
  "(\<exists>eb. resolveEnv r ed = Inr eb) \<longleftrightarrow> env_legal (rv_cfg r) (rv_service r) (rv_default_source r) ed"
proof (cases "ed_all ed")
  case True
  then show ?thesis
    by (auto simp: resolveEnv_def env_legal_def default_legal_def tryR_def
        split: option.splits sum.splits if_split_asm)
next
  case False
  have "(\<exists>eb. resolveEnv r ed = Inr eb) \<longleftrightarrow> (\<exists>x. resolveRef r (ed_ref ed) = Inr x)"
    using False by (auto simp: resolveEnv_def result_simps)
  then show ?thesis using False unfolding resolveRef_eq by (simp add: env_legal_def)
qed

lemma resolveEnv_bound:
  assumes "resolveEnv r ed = Inr eb"
  shows "env_bound r ed eb"
proof (cases "ed_all ed")
  case True
  then show ?thesis using assms
    by (auto simp: resolveEnv_def env_bound_def tryR_def split: option.splits sum.splits if_split_asm)
next
  case False
  then obtain n f w k where "resolveRef r (ed_ref ed) = Inr (n, f, w, k)"
    and "eb = \<lparr>eb_var = ed_var ed, eb_source = n, eb_key = k, eb_all = False\<rparr>"
    using assms by (auto simp: resolveEnv_def result_simps)
  then show ?thesis using False by (auto simp: env_bound_def dest: resolveRef_Inr)
qed

lemma resolveRender_ok:
  "(\<exists>rb. resolveRender r kd p ow md = Inr rb) \<longleftrightarrow>
     default_legal (rv_cfg r) (rv_service r) serviceMayRead (rv_default_source r)"
  by (auto simp: resolveRender_def default_legal_def tryR_def
      split: option.splits sum.splits if_split_asm)

definition render_bound :: "resolver \<Rightarrow> render_kind \<Rightarrow> string \<Rightarrow> render_binding \<Rightarrow> bool" where
  "render_bound r kd p rb \<longleftrightarrow>
     rb_kind rb = kd \<and> rb_source rb = rv_default_source r \<and> rb_format rb = FormatDotenv
     \<and> rb_path rb = p
     \<and> rb_owner rb = first_non_empty [rv_container_owner r, rv_container_user r, ''0:0'']
     \<and> rb_mode rb = first_non_empty [rv_container_mode r, def_mode (c_defaults (rv_cfg r)), ''0400'']"

lemma resolveRender_bound:
  "resolveRender r kd p (rv_container_owner r) (rv_container_mode r) = Inr rb \<Longrightarrow> render_bound r kd p rb"
  by (auto simp: resolveRender_def render_bound_def tryR_def ownerDefault_def modeDefault_def
      split: option.splits sum.splits if_split_asm)


section \<open>The whole plan\<close>

definition resolver_for :: "resolve_input \<Rightarrow> config \<Rightarrow> container_spec \<Rightarrow> resolver" where
  "resolver_for inp cfg spec =
     (let service = first_non_empty [in_service inp, sp_name spec] in
      \<lparr>rv_cfg = cfg, rv_service = service, rv_default_source = first_non_empty [sp_source spec, service],
       rv_container_user = in_container_user inp,
       rv_container_owner = sp_owner spec, rv_container_mode = sp_mode spec\<rparr>)"

definition spec_legal :: "resolve_input \<Rightarrow> config \<Rightarrow> container_spec \<Rightarrow> bool" where
  "spec_legal inp cfg sp \<longleftrightarrow>
     (let svc = first_non_empty [in_service inp, sp_name sp];
          dflt = first_non_empty [sp_source sp, svc];
          mech = choose_mechanism cfg (sp_delivery sp) (in_default_delivery inp) in
      svc \<noteq> [] \<and> mech_valid mech \<and> (sp_env sp \<noteq> [] \<longrightarrow> mech = MechClient)
      \<and> (\<forall>ed \<in> set (sp_env sp). env_legal cfg svc dflt ed)
      \<and> (\<forall>fd \<in> set (sp_files sp). ref_legal cfg svc dflt (file_ref dflt fd))
      \<and> (sp_dotenv sp \<noteq> [] \<or> sp_envdir sp \<noteq> [] \<longrightarrow> default_legal cfg svc serviceMayRead dflt))"

definition renders_bound :: "resolver \<Rightarrow> container_spec \<Rightarrow> render_binding list \<Rightarrow> bool" where
  "renders_bound r sp rbs \<longleftrightarrow>
     list_all2 (\<lambda>(kd, p) rb. render_bound r kd p rb)
       ((if sp_dotenv sp \<noteq> [] then [(RenderDotenv, sp_dotenv sp)] else [])
        @ (if sp_envdir sp \<noteq> [] then [(RenderEnvdir, sp_envdir sp)] else [])) rbs"

lemma resolver_for_simps [simp]:
  "rv_cfg (resolver_for inp cfg sp) = cfg"
  "rv_service (resolver_for inp cfg sp) = first_non_empty [in_service inp, sp_name sp]"
  "rv_default_source (resolver_for inp cfg sp) =
     first_non_empty [sp_source sp, first_non_empty [in_service inp, sp_name sp]]"
  "rv_container_user (resolver_for inp cfg sp) = in_container_user inp"
  "rv_container_owner (resolver_for inp cfg sp) = sp_owner sp"
  "rv_container_mode (resolver_for inp cfg sp) = sp_mode sp"
  by (simp_all add: resolver_for_def Let_def del: first_non_empty.simps)

lemma resolve_renders_ok:
  "(\<exists>rbs. resolve_renders r sp = Inr rbs) \<longleftrightarrow>
     (sp_dotenv sp \<noteq> [] \<or> sp_envdir sp \<noteq> [] \<longrightarrow>
        default_legal (rv_cfg r) (rv_service r) serviceMayRead (rv_default_source r))"
proof -
  have a: "(\<exists>rb. resolveRender r RenderDotenv (sp_dotenv sp) (sp_owner sp) (sp_mode sp) = Inr rb) \<longleftrightarrow>
      default_legal (rv_cfg r) (rv_service r) serviceMayRead (rv_default_source r)"
    and b: "(\<exists>rb. resolveRender r RenderEnvdir (sp_envdir sp) (sp_owner sp) (sp_mode sp) = Inr rb) \<longleftrightarrow>
      default_legal (rv_cfg r) (rv_service r) serviceMayRead (rv_default_source r)"
    by (rule resolveRender_ok)+
  show ?thesis
    unfolding resolve_renders_def using a b by (auto simp: result_simps)
qed

lemma resolve_renders_bound:
  assumes "resolve_renders (resolver_for inp cfg sp) sp = Inr rbs"
  shows "renders_bound (resolver_for inp cfg sp) sp rbs"
  using assms
  by (auto simp: resolve_renders_def renders_bound_def result_simps
      intro!: resolveRender_bound simp del: first_non_empty.simps split: if_split_asm)

lemma resolve_spec_unfold:
  "resolve_spec inp cfg sp = Inr (Some p) \<longleftrightarrow>
     first_non_empty [in_service inp, sp_name sp] \<noteq> []
     \<and> mech_valid (choose_mechanism cfg (sp_delivery sp) (in_default_delivery inp))
     \<and> (sp_env sp \<noteq> [] \<longrightarrow> choose_mechanism cfg (sp_delivery sp) (in_default_delivery inp) = MechClient)
     \<and> (\<exists>env fs rbs.
          mapR (resolveEnv (resolver_for inp cfg sp)) (sp_env sp) = Inr env
          \<and> mapR (resolveFile (resolver_for inp cfg sp)) (sp_files sp) = Inr fs
          \<and> resolve_renders (resolver_for inp cfg sp) sp = Inr rbs
          \<and> p = \<lparr>p_container = in_container_id inp,
                 p_service = first_non_empty [in_service inp, sp_name sp],
                 p_mechanism = choose_mechanism cfg (sp_delivery sp) (in_default_delivery inp),
                 p_env = env, p_files = fs, p_renders = rbs, p_env_exposure = (env \<noteq> [])\<rparr>)"
  unfolding resolve_spec_def Let_def resolver_for_def [unfolded Let_def, symmetric] EnvAllowed_def
  by (auto simp: result_simps simp del: first_non_empty.simps first_non_empty_Nil split: if_split_asm)

lemma resolve_spec_ok:
  "(\<exists>p. resolve_spec inp cfg sp = Inr (Some p)) \<longleftrightarrow> spec_legal inp cfg sp"
proof -
  let ?r = "resolver_for inp cfg sp"
  have "(\<exists>p. resolve_spec inp cfg sp = Inr (Some p)) \<longleftrightarrow>
     first_non_empty [in_service inp, sp_name sp] \<noteq> []
     \<and> mech_valid (choose_mechanism cfg (sp_delivery sp) (in_default_delivery inp))
     \<and> (sp_env sp \<noteq> [] \<longrightarrow> choose_mechanism cfg (sp_delivery sp) (in_default_delivery inp) = MechClient)
     \<and> (\<exists>env. mapR (resolveEnv ?r) (sp_env sp) = Inr env)
     \<and> (\<exists>fs. mapR (resolveFile ?r) (sp_files sp) = Inr fs)
     \<and> (\<exists>rbs. resolve_renders ?r sp = Inr rbs)"
    unfolding resolve_spec_unfold by blast
  then show ?thesis
    unfolding mapR_ok resolveEnv_ok resolveFile_ok resolve_renders_ok
    by (simp add: spec_legal_def Let_def del: first_non_empty.simps)
qed

section \<open>What a plan reads\<close>

definition plan_sources :: "plan \<Rightarrow> string set" where
  "plan_sources p = eb_source ` set (p_env p) \<union> fb_source ` set (p_files p) \<union> rb_source ` set (p_renders p)"

lemma Resolve_planD:
  assumes "Resolve inp = Inr (Some p)"
  obtains cfg sp where "in_config inp = Some cfg" "Parse (in_labels inp) = Inr sp" "sp_enabled sp"
    "resolve_spec inp cfg sp = Inr (Some p)"
  using assms by (auto simp: Resolve_def result_simps split: option.splits if_split_asm)

lemma default_legal_mono:
  "default_legal cfg svc serviceOwns d \<Longrightarrow> default_legal cfg svc serviceMayRead d"
  by (auto simp: default_legal_def serviceMayRead_def)

lemma resolve_spec_plan:
  assumes "resolve_spec inp cfg sp = Inr (Some p)"
  defines "r \<equiv> resolver_for inp cfg sp"
  shows "p_service p = rv_service r" "p_container p = in_container_id inp"
    "p_mechanism p = choose_mechanism cfg (sp_delivery sp) (in_default_delivery inp)"
    "mech_valid (p_mechanism p)" "p_service p \<noteq> []"
    "p_env p \<noteq> [] \<Longrightarrow> p_mechanism p = MechClient"
    "p_env_exposure p \<longleftrightarrow> p_env p \<noteq> []"
    "list_all2 (env_bound r) (sp_env sp) (p_env p)"
    "list_all2 (file_bound r) (sp_files sp) (p_files p)"
    "renders_bound r sp (p_renders p)"
    "spec_legal inp cfg sp"
proof -
  have sl: "\<exists>p. resolve_spec inp cfg sp = Inr (Some p)" using assms(1) by blast
  then show "spec_legal inp cfg sp" by (simp add: resolve_spec_ok)
  note u = assms(1) [unfolded resolve_spec_unfold, folded r_def]
  from u obtain env fs rbs where m: "mapR (resolveEnv r) (sp_env sp) = Inr env"
      "mapR (resolveFile r) (sp_files sp) = Inr fs" "resolve_renders r sp = Inr rbs"
    and pe: "p = \<lparr>p_container = in_container_id inp,
                 p_service = first_non_empty [in_service inp, sp_name sp],
                 p_mechanism = choose_mechanism cfg (sp_delivery sp) (in_default_delivery inp),
                 p_env = env, p_files = fs, p_renders = rbs, p_env_exposure = (env \<noteq> [])\<rparr>" by blast
  have p: "p_env p = env" "p_files p = fs" "p_renders p = rbs" "p_env_exposure p = (env \<noteq> [])"
      "p_service p = rv_service r" "p_container p = in_container_id inp"
      "p_mechanism p = choose_mechanism cfg (sp_delivery sp) (in_default_delivery inp)"
    by (simp_all add: pe r_def del: first_non_empty.simps)
  have g: "rv_service r \<noteq> []" "mech_valid (p_mechanism p)"
      "sp_env sp \<noteq> [] \<longrightarrow> p_mechanism p = MechClient"
    using u unfolding p(7) r_def resolver_for_simps by blast+
  show "list_all2 (env_bound r) (sp_env sp) (p_env p)"
    using m(1) p(1) by (auto simp: mapR_Inr_conv intro: list_all2_mono resolveEnv_bound)
  then have "p_env p \<noteq> [] \<Longrightarrow> sp_env sp \<noteq> []" by auto
  with g(3) show "p_env p \<noteq> [] \<Longrightarrow> p_mechanism p = MechClient" by blast
  show "list_all2 (file_bound r) (sp_files sp) (p_files p)"
    using m(2) p(2) by (auto simp: mapR_Inr_conv intro: list_all2_mono resolveFile_bound)
  show "renders_bound r sp (p_renders p)"
    using m(3) p(3) by (simp add: r_def resolve_renders_bound)
  show "p_service p \<noteq> []" using p(5) g(1) by simp
  show "p_service p = rv_service r" "p_container p = in_container_id inp"
    "p_mechanism p = choose_mechanism cfg (sp_delivery sp) (in_default_delivery inp)"
    "mech_valid (p_mechanism p)" "p_env_exposure p \<longleftrightarrow> p_env p \<noteq> []"
    using p g by simp_all
qed

text \<open>Which delivery of the spec a target of the plan comes from.\<close>

lemma renders_bound_in:
  assumes "renders_bound r sp rbs" "rb \<in> set rbs"
  shows "(sp_dotenv sp \<noteq> [] \<and> render_bound r RenderDotenv (sp_dotenv sp) rb)
    \<or> (sp_envdir sp \<noteq> [] \<and> render_bound r RenderEnvdir (sp_envdir sp) rb)"
  using list_all2_in2 [OF assms [unfolded renders_bound_def]]
  by (auto split: if_split_asm)

lemma plan_source_readable:
  assumes rs: "resolve_spec inp cfg sp = Inr (Some p)" and n: "n \<in> plan_sources p"
  shows "\<exists>src. c_sources cfg n = Some src \<and> serviceMayRead (p_service p) n src"
proof -
  note pl = resolve_spec_plan [OF rs]
  let ?r = "resolver_for inp cfg sp"
  let ?d = "rv_default_source ?r"
  from pl(11) have
    e: "\<And>ed. ed \<in> set (sp_env sp) \<Longrightarrow> env_legal cfg (p_service p) ?d ed" and
    f: "\<And>fd. fd \<in> set (sp_files sp) \<Longrightarrow> ref_legal cfg (p_service p) ?d (file_ref ?d fd)" and
    d: "sp_dotenv sp \<noteq> [] \<or> sp_envdir sp \<noteq> [] \<longrightarrow> default_legal cfg (p_service p) serviceMayRead ?d"
    unfolding spec_legal_def Let_def pl(1) resolver_for_simps by blast+
  from n consider (env) eb where "eb \<in> set (p_env p)" "n = eb_source eb"
    | (fil) fb where "fb \<in> set (p_files p)" "n = fb_source fb"
    | (ren) rb where "rb \<in> set (p_renders p)" "n = rb_source rb"
    by (auto simp: plan_sources_def)
  then show ?thesis
  proof cases
    case env
    then obtain ed where "ed \<in> set (sp_env sp)" "env_bound ?r ed eb" using pl(8) list_all2_in2 by metis
    with e [OF this(1)] env show ?thesis
      by (auto simp: env_bound_def env_legal_def default_legal_def serviceMayRead_def ref_legal_def
          split: if_split_asm)
  next
    case fil
    then obtain fd where "fd \<in> set (sp_files sp)" "file_bound ?r fd fb" using pl(9) list_all2_in2 by metis
    with f [OF this(1)] fil show ?thesis by (auto simp: file_bound_def ref_legal_def)
  next
    case ren
    then show ?thesis using renders_bound_in [OF pl(10) ren(1)] d
      by (auto simp: render_bound_def default_legal_def)
  qed
qed

section \<open>A sample fleet\<close>

definition sample_source :: source where
  "sample_source = \<lparr>src_file = ''webapp.env'', src_format = [], src_age_key = [], src_owner = [], src_access = []\<rparr>"

definition sample_config :: config where
  "sample_config = \<lparr>c_age_keys = Map.empty,
     c_sources = [''webapp'' \<mapsto> sample_source,
                  ''other'' \<mapsto> sample_source\<lparr>src_file := ''other.env'', src_access := [''webapp'']\<rparr>],
     c_defaults = \<lparr>def_delivery = [], def_mode = []\<rparr>, c_globals = empty_globals\<rparr>"

definition sample_input :: resolve_input where
  "sample_input = \<lparr>in_labels = sample_labels, in_container_id = ''c1'', in_service = ''webapp'',
     in_container_user = ''1000:1000'', in_config = Some sample_config, in_default_delivery = MechClient\<rparr>"

definition sample_plan :: plan where
  "sample_plan = \<lparr>p_container = ''c1'', p_service = ''webapp'', p_mechanism = MechClient,
     p_env = [\<lparr>eb_var = ''TOKEN'', eb_source = ''other'', eb_key = ''API_KEY'', eb_all = False\<rparr>],
     p_files = [\<lparr>fb_name = ''pgpass'', fb_source = ''webapp'', fb_format = FormatDotenv, fb_whole = False,
       fb_key = ''POSTGRES_PASSWORD'', fb_path = ''/run/berm/pgpass'', fb_owner = ''1000:1000'',
       fb_mode = ''0440'', fb_pointer_var = ''POSTGRES_PASSWORD_FILE''\<rparr>],
     p_renders = [], p_env_exposure = True\<rparr>"

lemma Resolve_sample: "Resolve sample_input = Inr (Some sample_plan)"
  by code_simp

section \<open>Properties of the resolver\<close>

text \<open>
  C7: scoping. Every source a plan reads from, for an env variable, a file or a render, is
  defined in berm.yml, and the service the plan was made for owns it or is in its access list.
  Nothing in the labels can name a source past that rule.
\<close>

theorem Resolve_scoped:
  assumes "Resolve inp = Inr (Some p)" "n \<in> plan_sources p"
  shows "\<exists>cfg src. in_config inp = Some cfg \<and> c_sources cfg n = Some src
    \<and> (p_service p = (if src_owner src = [] then n else src_owner src)
       \<or> p_service p \<in> set (src_access src))"
proof -
  obtain cfg sp where c: "in_config inp = Some cfg" "resolve_spec inp cfg sp = Inr (Some p)"
    using assms(1) by (rule Resolve_planD)
  from plan_source_readable [OF c(2) assms(2)] c(1) show ?thesis
    by (auto simp: serviceMayRead_def serviceOwns_def)
qed

theorem Resolve_scoped_witness:
  "\<exists>cfg src. in_config sample_input = Some cfg \<and> c_sources cfg ''other'' = Some src
    \<and> (p_service sample_plan = (if src_owner src = [] then ''other'' else src_owner src)
       \<or> p_service sample_plan \<in> set (src_access src))"
  by (rule Resolve_scoped [OF Resolve_sample]) (simp add: plan_sources_def sample_plan_def)

text \<open>
  \<open>berm.env=all\<close> expands only the container's own source. An \<open>all\<close> binding of a plan names
  a dotenv source the service itself owns; a grant in the access list is not enough.
\<close>

theorem Resolve_all_owned:
  assumes "Resolve inp = Inr (Some p)" "eb \<in> set (p_env p)" "eb_all eb"
  shows "\<exists>cfg src. in_config inp = Some cfg \<and> c_sources cfg (eb_source eb) = Some src
    \<and> p_service p = (if src_owner src = [] then eb_source eb else src_owner src)
    \<and> sourceFormat (eb_source eb) src = Inr FormatDotenv"
proof -
  obtain cfg sp where c: "in_config inp = Some cfg" "resolve_spec inp cfg sp = Inr (Some p)"
    using assms(1) by (rule Resolve_planD)
  note pl = resolve_spec_plan [OF c(2)]
  obtain ed where ed: "ed \<in> set (sp_env sp)" "env_bound (resolver_for inp cfg sp) ed eb"
    using pl(8) assms(2) list_all2_in2 by metis
  then have "env_legal cfg (p_service p) (rv_default_source (resolver_for inp cfg sp)) ed"
    using pl(11) unfolding spec_legal_def Let_def pl(1) resolver_for_simps by blast
  with ed(2) assms(3) c(1) show ?thesis
    by (auto simp: env_bound_def env_legal_def default_legal_def serviceOwns_def simp del: first_non_empty.simps)
qed

definition sample_all_input :: resolve_input where
  "sample_all_input = sample_input\<lparr>in_labels :=
     [(''berm.enable'', ''true''), (''berm.env'', ''all''), (''berm.env.acknowledge'', ''true'')]\<rparr>"

definition sample_all_plan :: plan where
  "sample_all_plan = sample_plan\<lparr>p_files := [],
     p_env := [\<lparr>eb_var = [], eb_source = ''webapp'', eb_key = [], eb_all = True\<rparr>]\<rparr>"

lemma Resolve_sample_all: "Resolve sample_all_input = Inr (Some sample_all_plan)"
  by code_simp

theorem Resolve_all_owned_witness:
  "\<exists>cfg src. in_config sample_all_input = Some cfg \<and> c_sources cfg ''webapp'' = Some src
    \<and> p_service sample_all_plan = (if src_owner src = [] then ''webapp'' else src_owner src)
    \<and> sourceFormat ''webapp'' src = Inr FormatDotenv"
proof -
  let ?eb = "\<lparr>eb_var = [], eb_source = ''webapp'', eb_key = [], eb_all = True\<rparr>"
  have "?eb \<in> set (p_env sample_all_plan)" "eb_all ?eb" by (simp_all add: sample_all_plan_def)
  from Resolve_all_owned [OF Resolve_sample_all this] show ?thesis by (simp only: env_binding.simps)
qed

text \<open>
  env only where berm owns the exec. A plan with any env binding uses the client mechanism,
  and its exposure flag is set exactly then; the mechanism of a plan is always one of the three.
\<close>

theorem Resolve_env_client_only:
  assumes "Resolve inp = Inr (Some p)"
  shows "mech_valid (p_mechanism p) \<and> (p_env p \<noteq> [] \<longrightarrow> p_mechanism p = MechClient)
    \<and> (p_env_exposure p \<longleftrightarrow> p_env p \<noteq> [])"
proof -
  obtain cfg sp where "resolve_spec inp cfg sp = Inr (Some p)"
    using assms by (rule Resolve_planD)
  from resolve_spec_plan(4,6,7) [OF this] show ?thesis by blast
qed

theorem Resolve_env_client_only_witness:
  "p_env sample_plan \<noteq> [] \<and> p_mechanism sample_plan = MechClient"
  using Resolve_env_client_only [OF Resolve_sample] by (simp add: sample_plan_def)

text \<open>
  C20: the plan is the spec, resolved. Every delivery the labels declare appears in the plan, in
  the same order and nothing else does: each with its source, key, path, owner and mode as the
  precedence rules give them (delivery label, container label, container user or berm.yml, built-in). The mechanism is
  the label's, else the daemon's default, else the one of berm.yml's defaults; the comment on \<open>Input.DefaultDelivery\<close>
  has the last two in the other order.
\<close>

theorem Resolve_plan_exact:
  assumes "Resolve inp = Inr (Some p)" "in_config inp = Some cfg" "Parse (in_labels inp) = Inr sp"
  shows "list_all2 (env_bound (resolver_for inp cfg sp)) (sp_env sp) (p_env p)
    \<and> list_all2 (file_bound (resolver_for inp cfg sp)) (sp_files sp) (p_files p)
    \<and> renders_bound (resolver_for inp cfg sp) sp (p_renders p)
    \<and> p_mechanism p = first_non_empty [sp_delivery sp, in_default_delivery inp, def_delivery (c_defaults cfg)]
    \<and> p_service p = first_non_empty [in_service inp, sp_name sp]"
proof -
  obtain cfg' sp' where "in_config inp = Some cfg'" "Parse (in_labels inp) = Inr sp'"
    "resolve_spec inp cfg' sp' = Inr (Some p)"
    using assms(1) by (rule Resolve_planD)
  then have "resolve_spec inp cfg sp = Inr (Some p)" using assms(2,3) by simp
  note pl = resolve_spec_plan [OF this]
  from pl(8,9,10) pl(3) pl(1) show ?thesis by (simp add: choose_mechanism_def)
qed

theorem Resolve_plan_exact_witness:
  "list_all2 (file_bound (resolver_for sample_input sample_config sample_spec))
     (sp_files sample_spec) (p_files sample_plan)"
  using Resolve_plan_exact [OF Resolve_sample, of sample_config sample_spec] Parse_sample
  by (simp add: sample_input_def)

text \<open>
  C21: when the resolver accepts. For an enabled container it yields a plan exactly when the
  service has an identity, the mechanism is valid and fits the env deliveries, and every
  reference names an existing source of the right format that the service may read. So no legal
  container is refused, and no illegal one gets a partial plan.
\<close>

theorem Resolve_accepts_iff:
  assumes "in_config inp = Some cfg" "Parse (in_labels inp) = Inr sp" "sp_enabled sp"
  shows "(\<exists>p. Resolve inp = Inr (Some p)) \<longleftrightarrow> spec_legal inp cfg sp"
  using assms resolve_spec_ok [of inp cfg sp] by (simp add: Resolve_def)

theorem Resolve_accepts_iff_witness: "spec_legal sample_input sample_config sample_spec"
  using Resolve_accepts_iff [of sample_input sample_config sample_spec] Parse_sample Resolve_sample
  by (auto simp: sample_input_def sample_spec_def)

text \<open>
  an inert container. Labels that do not enable the container, and parse, never give a
  plan, whatever berm.yml and the runtime say.
\<close>

theorem Resolve_inert:
  assumes "in_config inp \<noteq> None" "Parse (in_labels inp) = Inr sp"
  shows "Resolve inp = Inr None \<longleftrightarrow> \<not> sp_enabled sp"
proof -
  have "resolve_spec inp cfg sp \<noteq> Inr None" for cfg
    unfolding resolve_spec_def Let_def by (auto simp: result_simps simp del: first_non_empty.simps first_non_empty_Nil)
  with assms show ?thesis by (auto simp: Resolve_def)
qed

lemma Parse_sample_inert: "Parse [(''berm.file.x.from'', ''KEY'')] = Inr zero_spec"
  by code_simp

theorem Resolve_inert_witness:
  "Resolve (sample_input\<lparr>in_labels := [(''berm.file.x.from'', ''KEY'')]\<rparr>) = Inr None"
  using Resolve_inert [of "sample_input\<lparr>in_labels := [(''berm.file.x.from'', ''KEY'')]\<rparr>" zero_spec]
    Parse_sample_inert
  by (simp add: sample_input_def zero_spec_def)



text \<open>The sources the deliveries of a spec name.\<close>

definition spec_sources :: "string \<Rightarrow> container_spec \<Rightarrow> string set" where
  "spec_sources dflt sp =
     (\<lambda>ed. if ed_all ed then dflt else ref_source_name dflt (ed_ref ed)) ` set (sp_env sp)
     \<union> (\<lambda>fd. ref_source_name dflt (file_ref dflt fd)) ` set (sp_files sp)
     \<union> (if sp_dotenv sp \<noteq> [] \<or> sp_envdir sp \<noteq> [] then {dflt} else {})"

definition same_context :: "resolver \<Rightarrow> resolver \<Rightarrow> bool" where
  "same_context r r' \<longleftrightarrow> r' = r\<lparr>rv_cfg := rv_cfg r'\<rparr> \<and> c_defaults (rv_cfg r) = c_defaults (rv_cfg r')"

lemma same_contextD:
  assumes "same_context r r'"
  shows "rv_service r' = rv_service r" "rv_default_source r' = rv_default_source r"
    "rv_container_owner r' = rv_container_owner r" "rv_container_mode r' = rv_container_mode r"
    "ownerDefault r' = ownerDefault r" "modeDefault r' = modeDefault r"
    "missingSource r' = missingSource r" "ungranted r' = ungranted r"
proof -
  from assms have e: "r' = r\<lparr>rv_cfg := rv_cfg r'\<rparr>" and d: "c_defaults (rv_cfg r') = c_defaults (rv_cfg r)"
    by (simp_all add: same_context_def)
  show s: "rv_service r' = rv_service r" by (subst e) simp
  show "rv_default_source r' = rv_default_source r" by (subst e) simp
  show "rv_container_owner r' = rv_container_owner r" by (subst e) simp
  show "rv_container_mode r' = rv_container_mode r" by (subst e) simp
  have "rv_container_user r' = rv_container_user r" by (subst e) simp
  then show "ownerDefault r' = ownerDefault r" by (simp add: ownerDefault_def)
  show "modeDefault r' = modeDefault r" by (simp add: modeDefault_def d)
  show "missingSource r' = missingSource r" "ungranted r' = ungranted r"
    by (rule ext, simp add: missingSource_def ungranted_def s)+
qed

lemma resolveRef_same:
  assumes "same_context r r'"
    and "c_sources (rv_cfg r) (ref_source_name (rv_default_source r) rf) =
         c_sources (rv_cfg r') (ref_source_name (rv_default_source r) rf)"
  shows "resolveRef r' rf = resolveRef r rf"
  unfolding resolveRef_def Let_def same_contextD [OF assms(1)] ref_source_name_def [symmetric]
  using assms(2) by simp

lemma resolve_steps_same:
  assumes sc: "same_context r r'"
    and ag: "\<And>n. n \<in> spec_sources (rv_default_source r) sp \<Longrightarrow>
      c_sources (rv_cfg r) n = c_sources (rv_cfg r') n"
  shows "ed \<in> set (sp_env sp) \<Longrightarrow> resolveEnv r' ed = resolveEnv r ed"
    "fd \<in> set (sp_files sp) \<Longrightarrow> resolveFile r' fd = resolveFile r fd"
    "resolve_renders r' sp = resolve_renders r sp"
proof -
  note same = same_contextD [OF sc]
  let ?d = "rv_default_source r"
  show "resolveEnv r' ed = resolveEnv r ed" if "ed \<in> set (sp_env sp)"
  proof (cases "ed_all ed")
    case True
    then have "c_sources (rv_cfg r) ?d = c_sources (rv_cfg r') ?d"
      using that by (intro ag) (force simp: spec_sources_def)
    then show ?thesis unfolding resolveEnv_def same by (simp add: True)
  next
    case False
    then have "c_sources (rv_cfg r) (ref_source_name ?d (ed_ref ed)) =
        c_sources (rv_cfg r') (ref_source_name ?d (ed_ref ed))"
      using that by (intro ag) (force simp: spec_sources_def)
    from resolveRef_same [OF sc this] False show ?thesis by (simp add: resolveEnv_def)
  qed
  show "resolveFile r' fd = resolveFile r fd" if "fd \<in> set (sp_files sp)"
  proof -
    have "c_sources (rv_cfg r) (ref_source_name ?d (file_ref ?d fd)) =
        c_sources (rv_cfg r') (ref_source_name ?d (file_ref ?d fd))"
      using that by (intro ag) (force simp: spec_sources_def)
    from resolveRef_same [OF sc this] show ?thesis
      unfolding resolveFile_def same file_ref_def [symmetric] Let_def by (simp del: first_non_empty.simps)
  qed
  have "resolveRender r' kd p ow md = resolveRender r kd p ow md"
    if "sp_dotenv sp \<noteq> [] \<or> sp_envdir sp \<noteq> []" for kd p ow md
    unfolding resolveRender_def same
    using ag [of ?d] that by (simp add: spec_sources_def)
  then show "resolve_renders r' sp = resolve_renders r sp" by (auto simp: resolve_renders_def)
qed

lemma resolve_spec_same:
  assumes "c_defaults cfg' = c_defaults cfg"
    and "\<And>n. n \<in> spec_sources (rv_default_source (resolver_for inp cfg sp)) sp \<Longrightarrow>
      c_sources cfg n = c_sources cfg' n"
  shows "resolve_spec inp cfg' sp = resolve_spec inp cfg sp"
proof -
  have sc: "same_context (resolver_for inp cfg sp) (resolver_for inp cfg' sp)"
    using assms(1) by (simp add: same_context_def resolver_for_def Let_def del: first_non_empty.simps)
  note st = resolve_steps_same [OF sc, of sp, unfolded resolver_for_simps(1), OF assms(2)]
  have m: "mapR (resolveEnv (resolver_for inp cfg' sp)) (sp_env sp) =
      mapR (resolveEnv (resolver_for inp cfg sp)) (sp_env sp)"
    "mapR (resolveFile (resolver_for inp cfg' sp)) (sp_files sp) =
      mapR (resolveFile (resolver_for inp cfg sp)) (sp_files sp)"
    by (intro mapR_cong_set st(1) st(2); assumption)+
  show ?thesis
    unfolding resolve_spec_def Let_def resolver_for_def [unfolded Let_def, symmetric] choose_mechanism_def
    using assms(1) m st(3) by simp
qed

text \<open>
  a container's plan depends on its own sources only. Two berm.yml files with the same
  defaults that agree on the sources the container's labels name give the same result, plan or
  error, whatever else they contain.
\<close>

theorem Resolve_depends_on_named_sources:
  assumes "Parse (in_labels inp) = Inr sp" "c_defaults cfg' = c_defaults cfg"
    and "\<And>n. n \<in> spec_sources (first_non_empty [sp_source sp, in_service inp, sp_name sp]) sp \<Longrightarrow>
      c_sources cfg n = c_sources cfg' n"
  shows "Resolve (inp\<lparr>in_config := Some cfg'\<rparr>) = Resolve (inp\<lparr>in_config := Some cfg\<rparr>)"
proof -
  have sel: "in_service (inp\<lparr>in_config := c\<rparr>) = in_service inp"
    "in_container_user (inp\<lparr>in_config := c\<rparr>) = in_container_user inp"
    "in_container_id (inp\<lparr>in_config := c\<rparr>) = in_container_id inp"
    "in_default_delivery (inp\<lparr>in_config := c\<rparr>) = in_default_delivery inp" for c
    by simp_all
  have "resolve_spec (inp\<lparr>in_config := c\<rparr>) = resolve_spec inp" for c
    by (intro ext) (simp only: resolve_spec_def sel)
  moreover have "resolve_spec inp cfg' sp = resolve_spec inp cfg sp"
    using assms(2,3) by (intro resolve_spec_same) (simp_all only: resolver_for_simps first_non_empty_nest)
  ultimately show ?thesis using assms(1) by (simp add: Resolve_def)
qed

theorem Resolve_depends_on_named_sources_witness:
  "Resolve (sample_input\<lparr>in_config := Some (sample_config\<lparr>c_sources :=
      (c_sources sample_config)(''third'' \<mapsto> sample_source)\<rparr>)\<rparr>) = Inr (Some sample_plan)"
proof -
  have "Resolve (sample_input\<lparr>in_config := Some (sample_config\<lparr>c_sources :=
      (c_sources sample_config)(''third'' \<mapsto> sample_source)\<rparr>)\<rparr>)
    = Resolve (sample_input\<lparr>in_config := Some sample_config\<rparr>)"
    by (rule Resolve_depends_on_named_sources [where sp = sample_spec])
      (auto simp: sample_input_def Parse_sample sample_spec_def zero_spec_def spec_sources_def
        ref_source_name_def file_ref_def isUnsetRef_def)
  moreover have "sample_input\<lparr>in_config := Some sample_config\<rparr> = sample_input"
    by (simp add: sample_input_def)
  ultimately show ?thesis using Resolve_sample by simp
qed

end
