(* ===== verification/Wire_Props.thy ===== *)
theory Wire_Props
  imports Wire_Codec
begin

text \<open>
  What the socket protocol guarantees, on the definitions of \<open>Wire_Codec\<close>: bundles and hook
  requests survive the wire, a frame cut short or broken off by the writer is never misread, hostile
  lengths are bounded, and the decoder never strands a locked buffer.
\<close>

section \<open>Response frames\<close>

definition rd_response ::
  "((string \<times> string \<times> string \<times> string) list \<times> (string \<times> string) list \<times> (string \<times> string) list \<times> string) reader" where
  "rd_response = bindR (readFull 2) (\<lambda>hdr.
     if hdr ! 0 \<noteq> ProtocolVersion then failR (WVersion (hdr ! 0))
     else if hdr ! 1 = msgErrorResponse then bindR readU16Bytes (\<lambda>reason. failR (WRefused reason))
     else if hdr ! 1 = msgBundleResponse then rd_body
     else failR (WType (hdr ! 1)))"

lemma stable_response [stable_rules]: "stable rd_response"
  unfolding rd_response_def by (intro stable_rules)

lemma ReadResponse_contents:
  "case rd_response inp of
     Inl e \<Rightarrow> fst (ReadResponse inp lm) = Inl e
   | Inr (c, rest) \<Rightarrow> \<exists>b. fst (ReadResponse inp lm) = Inr b \<and> bundle_view b = c"
proof (cases "readFull 2 inp")
  case (Inr p)
  obtain hdr rest where p: "p = (hdr, rest)" by (cases p)
  show ?thesis
    using decodeBundle_contents [of rest lm]
    by (auto simp: rd_response_def ReadResponse_def bindR_def Inr p failR_def split: sum.splits)
qed (simp add: rd_response_def ReadResponse_def bindR_def)

lemma msg_codes [simp]:
  "msgErrorResponse \<noteq> msgBundleResponse" "msgBundleResponse \<noteq> msgErrorResponse"
  "msgFetchRequest \<noteq> msgHookRequest" "msgHookRequest \<noteq> msgFetchRequest"
  by (simp_all add: msgErrorResponse_def msgBundleResponse_def msgFetchRequest_def msgHookRequest_def)

lemma agrees_header: "agrees (sink_write [a, b]) (readFull 2) [a, b]"
  using agrees_readFull [of "[a, b]"] by (simp add: eval_nat_numeral)

interpretation response: wire_pair EncodeBundle rd_response bundle_view bundle_fits
proof
  fix b assume "bundle_fits b"
  then show "agrees (EncodeBundle b) rd_response (bundle_view b)"
    unfolding EncodeBundle_body rd_response_def
    by (intro agrees_then [OF agrees_header] stable_rules) (simp add: body_pair.sound)
qed (rule stable_rules)

section \<open>Hook requests\<close>

definition map_fits :: "smap \<Rightarrow> bool" where
  "map_fits m \<longleftrightarrow> (\<forall>k \<in> set (sorted_keys m). short_string k \<and> short_string (sget m k))"

definition map_view :: "smap \<Rightarrow> smap" where
  "map_view m = map (\<lambda>k. (k, sget m k)) (sorted_keys m)"

definition rd_pair :: "(string \<times> string) reader" where
  "rd_pair = bindR readU16String (\<lambda>k. bindR readU16String (\<lambda>v. retR (k, v)))"

lemma readPairs_rep:
  "readPairs n m s = bindR (repR n rd_pair) (\<lambda>kvs. retR (fold (\<lambda>(k, v). AList.update k v) kvs m)) s"
proof (induction n arbitrary: m s)
  case 0
  show ?case by (simp add: bindR_def retR_def)
next
  case (Suc n)
  show ?case
    by (auto simp: bindR_def rd_pair_def retR_def Suc tryR_def split: sum.split prod.split)
qed

lemma fold_update_distinct:
  "distinct (map fst m @ map fst kvs) \<Longrightarrow> fold (\<lambda>(k, v). AList.update k v) kvs m = m @ kvs"
proof (induction kvs arbitrary: m)
  case (Cons kv kvs)
  obtain k v where kv: "kv = (k, v)" by (cases kv)
  then have "k \<notin> fst ` set m" using Cons.prems by auto
  then have "AList.update k v m = m @ [(k, v)]" by (induction m) auto
  then show ?case using Cons kv by simp
qed simp

lemma map_fst_view [simp]: "map fst (map_view m) = sorted_keys m"
  by (simp add: map_view_def comp_def)

interpretation map_entry: wire_pair "\<lambda>k. thenW (writeU16Bytes k) (writeU16Bytes (sget m k))" rd_pair
  "\<lambda>k. (k, sget m k)" "\<lambda>k. short_string k \<and> short_string (sget m k)" for m
proof
  fix k assume "short_string k \<and> short_string (sget m k)"
  then show "agrees (thenW (writeU16Bytes k) (writeU16Bytes (sget m k))) rd_pair (k, sget m k)"
    unfolding rd_pair_def by (auto intro!: agrees_then [OF str16.sound] agrees_last [OF str16.sound] stable_rules)
qed (unfold rd_pair_def, intro stable_rules)

lemma length_sorted_keys_view: "length (map_view m) = length (sorted_keys m)"
  by (simp add: map_view_def)

interpretation string_map: wire_pair writeStringMap readStringMap map_view "\<lambda>m. wf_map m \<and> map_fits m"
proof
  fix m assume ok: "wf_map m \<and> map_fits m"
  let ?n = "length (sorted_keys m)" and ?w = "\<lambda>k. thenW (writeU16Bytes k) (writeU16Bytes (sget m k))"
  show "agrees (writeStringMap m) readStringMap (map_view m)"
  proof (cases "?n > 0xffff")
    case True
    then have "writeStringMap m = failW (WCount ?n)"
      by (simp add: writeStringMap_def fun_eq_iff)
    moreover have "readStringMap [] = Inl WRead"
      by (simp add: readStringMap_def bindR_fail [OF readU16_short])
    ultimately show ?thesis by (simp add: agrees_fail)
  next
    case False
    then have n: "unat (word_of_nat ?n :: 32 word) = ?n"
      by (simp add: unsigned_of_nat take_bit_nat_eq_self)
    then have le: "(word_of_nat ?n :: 32 word) \<le> 0xffff" using False by (simp add: word_le_nat_alt)
    have d: "distinct (map fst (map_view m))" using ok by (simp add: distinct_sorted_keys)
    have "agrees (forW ?w (sorted_keys m)) (repR ?n rd_pair) (map_view m)"
      using ok map_entry.list_agrees [of "sorted_keys m" m]
      by (auto simp: map_view_def map_fits_def simp del: set_sorted_keys)
    then have "agrees (forW ?w (sorted_keys m))
        (bindR (repR ?n rd_pair) (\<lambda>kvs. retR (fold (\<lambda>(k, v). AList.update k v) kvs []))) (map_view m)"
      by (rule agrees_map) (use fold_update_distinct [of "[]" "map_view m"] d in \<open>simp add: retR_def\<close>)
    then have "agrees (forW ?w (sorted_keys m)) (readPairs ?n []) (map_view m)"
      by (simp add: readPairs_rep [abs_def])
    then have "agrees (thenW (writeU16 (word_of_nat ?n)) (forW ?w (sorted_keys m))) readStringMap (map_view m)"
      unfolding readStringMap_def
      using agrees_u16 [OF le] n by (intro agrees_then [OF agrees_u16 [OF le]]) (simp_all add: stable_rules)
    then show ?thesis using False by (simp add: writeStringMap_def)
  qed
qed (rule stable_rules)

definition hook_fits :: "string \<times> smap \<Rightarrow> bool" where
  "hook_fits x \<longleftrightarrow> short_string (fst x) \<and> wf_map (snd x) \<and> map_fits (snd x)"

lemma stable_hook [stable_rules]: "stable ReadRequestHeader" "stable ReadHookBody" "stable ReadHookRequest"
  unfolding ReadRequestHeader_def ReadHookBody_def ReadHookRequest_def by (intro stable_rules)+

lemma agrees_request_header:
  "agrees (sink_write [ProtocolVersion, msgFetchRequest]) ReadRequestHeader RequestFetch"
  "agrees (sink_write [ProtocolVersion, msgHookRequest]) ReadRequestHeader RequestHook"
  unfolding ReadRequestHeader_def by (rule agrees_map [OF agrees_header]; simp add: retR_def)+

interpretation hook_request: wire_pair "\<lambda>(cid, ann). WriteHookRequest cid ann" ReadHookRequest
  "\<lambda>(cid, ann). (cid, map_view ann)" hook_fits
proof
  fix x assume ok: "hook_fits x"
  obtain cid ann where x: "x = (cid, ann)" by (cases x)
  show "agrees (case x of (cid, ann) \<Rightarrow> WriteHookRequest cid ann) ReadHookRequest
      (case x of (cid, ann) \<Rightarrow> (cid, map_view ann))"
  proof (cases "cid = []")
    case True
    have "ReadHookRequest [] = Inl WRead"
      by (simp add: ReadHookRequest_def ReadRequestHeader_def bindR_def readFull_def)
    moreover have "WriteHookRequest cid ann = failW WNeedId"
      using True by (simp add: WriteHookRequest_def fun_eq_iff)
    ultimately show ?thesis by (simp add: x agrees_fail)
  next
    case False
    have "agrees (thenW (writeU16Bytes cid) (writeStringMap ann)) ReadHookBody (cid, map_view ann)"
      unfolding ReadHookBody_def
      using ok False by (auto simp: hook_fits_def x intro!: agrees_then [OF str16.sound]
          agrees_last [OF string_map.sound] stable_rules)
    then have "agrees (thenW (sink_write [ProtocolVersion, msgHookRequest])
        (thenW (writeU16Bytes cid) (writeStringMap ann))) ReadHookRequest (cid, map_view ann)"
      unfolding ReadHookRequest_def
      by (intro agrees_then [OF agrees_request_header(2)] stable_rules) simp
    then show ?thesis using False by (simp add: x WriteHookRequest_def)
  qed
qed (rule stable_rules)

lemma map_of_map_view: "wf_map m \<Longrightarrow> map_of (map_view m) = map_of m"
proof
  fix k
  have "map_of (map_view m) k = (if k \<in> set (sorted_keys m) then Some (sget m k) else None)"
    unfolding map_view_def by (simp add: map_of_map_restrict restrict_map_def del: set_sorted_keys)
  then show "map_of (map_view m) k = map_of m k" by (cases "map_of m k") (auto simp: sget_def)
qed


section \<open>Bounds\<close>

lemma be_nat_less: "be_nat cs acc < (acc + 1) * 256 ^ length cs"
proof (induction cs arbitrary: acc)
  case (Cons c cs)
  have "be_nat cs (acc * 256 + of_char c) < (acc * 256 + of_char c + 1) * 256 ^ length cs" by (rule Cons)
  also have "\<dots> \<le> ((acc + 1) * 256) * 256 ^ length cs"
  proof (rule mult_right_mono)
    have "(of_char c :: nat) \<le> 255"
      using nat_of_char_less_256 [of c] by (simp del: nat_of_char_less_256)
    then show "acc * 256 + of_char c + 1 \<le> (acc + 1) * 256" by simp
  qed simp
  finally show ?case by (simp add: algebra_simps)
qed simp

lemma readU16String_bound: "readU16String s = Inr (p, r) \<Longrightarrow> length p < 2 ^ 16"
proof -
  assume "readU16String s = Inr (p, r)"
  then obtain buf u where b: "readFull 2 s = Inr (buf, u)" and p: "readFull (be_nat buf 0) u = Inr (p, r)"
    by (auto simp: readU16String_def readU16Bytes_def readU16_def result_simps retR_def)
  have l: "length buf = 2" using b by (auto simp: readFull_def split: if_splits)
  have "be_nat buf 0 < 2 ^ 16"
    using be_nat_less [of buf 0] l by simp
  moreover have "length p = be_nat buf 0" using p by (auto simp: readFull_def split: if_splits)
  ultimately show ?thesis by simp
qed

lemma readU32Plain_bound: "readU32Plain s = Inr (p, r) \<Longrightarrow> payload p"
proof -
  assume "readU32Plain s = Inr (p, r)"
  then obtain n u where n: "\<not> n > maxField" and p: "readFull (unat n) u = Inr (p, r)"
    by (auto simp: readU32Plain_def result_simps failR_def split: if_splits)
  from n have "unat n \<le> 64 * 2 ^ 20" by (simp add: maxField_def word_less_nat_alt)
  then show ?thesis using p by (auto simp: readFull_def payload_def split: if_splits)
qed

lemma repR_all: "repR n m s = Inr (xs, r) \<Longrightarrow> length xs = n \<and> (\<forall>x \<in> set xs. \<exists>u v. m u = Inr (x, v))"
proof (induction n arbitrary: s xs)
  case (Suc n)
  then obtain x u ys where "m s = Inr (x, u)" "repR n m u = Inr (ys, r)" "xs = x # ys"
    by (auto simp: result_simps retR_def)
  with Suc.IH [OF this(2)] show ?case by auto
qed (simp add: retR_def)

definition contents_bounded :: "contents \<Rightarrow> bool" where
  "contents_bounded c \<longleftrightarrow> (case c of (fs, es, ps, m) \<Rightarrow>
     length fs < 2 ^ 32 \<and> length es < 2 ^ 32 \<and> length ps < 2 ^ 32
     \<and> (\<forall>(p, ow, md, d) \<in> set fs. length p < 2 ^ 16 \<and> length ow < 2 ^ 16 \<and> length md < 2 ^ 16 \<and> payload d)
     \<and> (\<forall>(n, v) \<in> set es. length n < 2 ^ 16 \<and> payload v)
     \<and> (\<forall>(n, p) \<in> set ps. length n < 2 ^ 16 \<and> length p < 2 ^ 16) \<and> payload m)"

lemma rd_response_bounded:
  assumes "rd_response inp = Inr (c, rest)"
  shows "contents_bounded c"
proof -
  have lt: "unat (n :: 32 word) < 2 ^ 32" for n using unsigned_less [of n] by simp
  obtain fs es ps m where c: "c = (fs, es, ps, m)" by (cases c)
  from assms obtain u where "rd_body u = Inr ((fs, es, ps, m), rest)"
    by (auto simp: rd_response_def c result_simps failR_def split: if_splits)
  then obtain nf ne np u1 u2 u3 u4 v1 v2 v3 where
    fs: "repR (unat (nf :: 32 word)) rd_file u1 = Inr (fs, v1)" and
    es: "repR (unat (ne :: 32 word)) rd_env u2 = Inr (es, v2)" and
    ps: "repR (unat (np :: 32 word)) rd_pointer u3 = Inr (ps, v3)" and
    m: "readU32Plain u4 = Inr (m, rest)"
    by (auto simp: rd_body_def result_simps retR_def)
  have "\<forall>(p, ow, md, d) \<in> set fs. length p < 2 ^ 16 \<and> length ow < 2 ^ 16 \<and> length md < 2 ^ 16 \<and> payload d"
    using repR_all [OF fs]
    by (fastforce simp: rd_file_def result_simps retR_def dest: readU16String_bound readU32Plain_bound)
  moreover have "\<forall>(n, v) \<in> set es. length n < 2 ^ 16 \<and> payload v"
    using repR_all [OF es]
    by (fastforce simp: rd_env_def result_simps retR_def dest: readU16String_bound readU32Plain_bound)
  moreover have "\<forall>(n, p) \<in> set ps. length n < 2 ^ 16 \<and> length p < 2 ^ 16"
    using repR_all [OF ps]
    by (fastforce simp: rd_pointer_def result_simps retR_def dest: readU16String_bound)
  ultimately show ?thesis
    using repR_all [OF fs] repR_all [OF es] repR_all [OF ps] readU32Plain_bound [OF m] lt
    by (simp add: contents_bounded_def c)
qed


section \<open>When a writer succeeds\<close>

definition flows :: "writer \<Rightarrow> bool" where
  "flows w \<longleftrightarrow> (\<forall>s. sk_room s = None \<longrightarrow> fst (w s) = None \<and> sk_room (snd (w s)) = None)"

lemma flowsD: "flows w \<Longrightarrow> sk_room s = None \<Longrightarrow> fst (w s) = None \<and> sk_room (snd (w s)) = None"
  by (simp add: flows_def)

named_theorems flow_rules

lemma flows_sink [flow_rules]: "flows (sink_write p)"
  by (simp add: flows_def sink_write_def)

lemma flows_then [flow_rules]: "flows a \<Longrightarrow> flows b \<Longrightarrow> flows (thenW a b)"
  by (auto simp: flows_def thenW_def split: prod.splits option.splits) (metis fst_conv option.distinct(1) snd_conv)+

lemma flows_for [flow_rules]: "(\<And>x. x \<in> set xs \<Longrightarrow> flows (f x)) \<Longrightarrow> flows (forW f xs)"
proof (induction xs)
  case Nil
  then show ?case by (simp add: flows_def)
next
  case (Cons x xs)
  then have "flows (thenW (f x) (forW f xs))" by (intro flows_then) simp_all
  then show ?case by (simp add: flows_def)
qed

lemma flows_u16 [flow_rules]: "length p < 2 ^ 16 \<Longrightarrow> flows (writeU16Bytes p)"
proof -
  assume l: "length p < 2 ^ 16"
  then have "unat (word_of_nat (length p) :: 32 word) = length p" by (intro unat_len) simp
  then have "\<not> (word_of_nat (length p) :: 32 word) > 0xffff" using l by (simp add: word_less_nat_alt)
  then show ?thesis by (simp add: writeU16Bytes_def writeU16_def flow_rules)
qed

lemma flows_u32 [flow_rules]: "flows (writeU32 v)" "flows (writeU32Bytes p)"
  by (simp_all add: writeU32_def writeU32Bytes_def flow_rules)

definition short_names :: "wbundle \<Rightarrow> bool" where
  "short_names b \<longleftrightarrow>
     (\<forall>f \<in> set (b_files b). length (wf_path f) < 2 ^ 16 \<and> length (wf_owner f) < 2 ^ 16 \<and> length (wf_mode f) < 2 ^ 16)
     \<and> (\<forall>e \<in> set (b_env b). length (ev_name e) < 2 ^ 16)
     \<and> (\<forall>p \<in> set (b_pointers b). length (pt_name p) < 2 ^ 16 \<and> length (pt_path p) < 2 ^ 16)"

lemma flows_EncodeBundle: "short_names b \<Longrightarrow> flows (EncodeBundle b)"
  unfolding EncodeBundle_def short_names_def
  by (intro flow_rules) (auto simp: write_file_def write_env_def write_pointer_def intro!: flow_rules)

lemma flows_hook:
  assumes "cid \<noteq> []" "length cid < 2 ^ 16" "length (sorted_keys ann) < 2 ^ 16"
    and "\<And>k. k \<in> set (sorted_keys ann) \<Longrightarrow> length k < 2 ^ 16 \<and> length (sget ann k) < 2 ^ 16"
  shows "flows (WriteHookRequest cid ann)"
proof -
  have "unat (word_of_nat (length (sorted_keys ann)) :: 32 word) = length (sorted_keys ann)"
    using assms(3) by (simp add: unsigned_of_nat take_bit_nat_eq_self)
  then have "\<not> (word_of_nat (length (sorted_keys ann)) :: 32 word) > 0xffff"
    using assms(3) by (simp add: word_less_nat_alt)
  then have "flows (writeStringMap ann)"
    using assms(3,4) by (auto simp: writeStringMap_def writeU16_def simp del: set_sorted_keys intro!: flow_rules)
  then have "flows (thenW (sink_write [ProtocolVersion, msgHookRequest]) (thenW (writeU16Bytes cid) (writeStringMap ann)))"
    using assms(2) by (intro flow_rules) simp_all
  then show ?thesis using assms(1) by (simp add: flows_def WriteHookRequest_def)
qed

section \<open>The decoder's loops\<close>



named_theorems cost_rules














section \<open>Properties\<close>

text \<open>A small bundle and its frame, for the witnesses.\<close>

definition sample_bundle :: wbundle where
  "sample_bundle = \<lparr>b_files = [\<lparr>wf_path = ''/run/berm/a'', wf_owner = ''0:0'', wf_mode = ''0400'',
       wf_data = \<lparr>sec_bytes = ''pw'', sec_buf = Some 0\<rparr>\<rparr>],
     b_env = [], b_pointers = [\<lparr>pt_name = ''A_FILE'', pt_path = ''/run/berm/a''\<rparr>],
     b_manifest = ''{}'', b_locked = [0]\<rparr>"

definition open_sink :: sink where "open_sink = \<lparr>sk_sent = [], sk_room = None\<rparr>"
definition fresh_mem :: lockmem where "fresh_mem = \<lparr>lm_next = 0, lm_live = []\<rparr>"

lemma sample_fits: "bundle_fits sample_bundle"
  by (simp add: bundle_fits_def sample_bundle_def file_fits_def pointer_fits_def short_string_def payload_def)

lemma sample_mem_ok: "mem_ok fresh_mem"
  by (simp add: mem_ok_def fresh_mem_def)

definition sample_frame :: string where
  "sample_frame = sk_sent (snd (EncodeBundle sample_bundle open_sink))"

lemma sample_encode: "EncodeBundle sample_bundle open_sink = (None, \<lparr>sk_sent = sample_frame, sk_room = None\<rparr>)"
proof -
  have "fst (EncodeBundle sample_bundle open_sink) = None \<and> sk_room (snd (EncodeBundle sample_bundle open_sink)) = None"
    by (rule flows_EncodeBundle [THEN flowsD]) (simp_all add: short_names_def sample_bundle_def open_sink_def)
  then show ?thesis unfolding sample_frame_def by (cases "EncodeBundle sample_bundle open_sink") simp
qed

lemma sample_read: "rd_response sample_frame = Inr (bundle_view sample_bundle, [])"
  using response.round_trip [OF sample_fits sample_encode, of "[]"] by (auto simp: open_sink_def)

lemma sample_cut:
  "fst (ReadResponse (butlast sample_frame) lm) \<noteq> Inr b" "sample_frame \<noteq> []"
proof -
  show ne: "sample_frame \<noteq> []"
  proof
    assume e: "sample_frame = []"
    show False using sample_read by (simp add: e rd_response_def bindR_def readFull_def)
  qed
  have *: "rd_response (butlast sample_frame) \<noteq> Inr (y, r)" for y r
  proof -
    have "sk_sent (snd (EncodeBundle sample_bundle open_sink)) = sk_sent open_sink @ butlast sample_frame @ [last sample_frame]"
      using ne by (simp add: sample_encode) (simp add: open_sink_def)
    from response.never_misread [OF sample_fits this, of y r] show ?thesis by auto
  qed
  show "fst (ReadResponse (butlast sample_frame) lm) \<noteq> Inr b"
  proof (cases "rd_response (butlast sample_frame)")
    case (Inl e)
    then show ?thesis using ReadResponse_contents [of "butlast sample_frame" lm] by simp
  next
    case (Inr yr)
    then show ?thesis using * [of "fst yr" "snd yr"] by simp
  qed
qed

text \<open>
  C35: round trip of a bundle. When the daemon's encoder succeeds on a bundle within the size caps,
  the client's decoder, given the bytes it sent and whatever follows, returns a bundle with
  the same files, env, pointers and manifest.
\<close>

theorem bundle_round_trip:
  assumes "bundle_fits b" "EncodeBundle b s = (None, s')"
  shows "\<exists>frame. sk_sent s' = sk_sent s @ frame
    \<and> (\<forall>rest lm. \<exists>b'. fst (ReadResponse (frame @ rest) lm) = Inr b' \<and> bundle_view b' = bundle_view b)"
proof -
  from response.sound [OF assms(1)] obtain p where "sk_sent s' = sk_sent s @ p"
    and r: "\<And>rest. rd_response (p @ rest) = Inr (bundle_view b, rest)"
    using assms(2) by (cases rule: agreesE [where s = s]) auto
  moreover have "\<exists>b'. fst (ReadResponse (p @ rest) lm) = Inr b' \<and> bundle_view b' = bundle_view b" for rest lm
    using ReadResponse_contents [of "p @ rest" lm] by (simp add: r)
  ultimately show ?thesis by blast
qed

theorem bundle_round_trip_witness:
  "\<exists>b'. fst (ReadResponse sample_frame fresh_mem) = Inr b' \<and> bundle_view b' = bundle_view sample_bundle"
proof -
  from bundle_round_trip [OF sample_fits sample_encode] obtain frame where f: "sample_frame = frame"
    and "\<forall>rest lm. \<exists>b'. fst (ReadResponse (frame @ rest) lm) = Inr b' \<and> bundle_view b' = bundle_view sample_bundle"
    by (auto simp: open_sink_def)
  then have "\<exists>b'. fst (ReadResponse (frame @ []) fresh_mem) = Inr b' \<and> bundle_view b' = bundle_view sample_bundle"
    by blast
  then show ?thesis by (simp add: f)
qed

text \<open>
  C10: a cut connection never yields a wrong secret. Whatever part of the encoder's output
  reaches the client, because the encoder stopped with an error, the writer broke or the stream was cut,
  the decoder returns a bundle only if the whole frame was encoded and arrived, and then that bundle.
\<close>

theorem bundle_never_misread:
  assumes "bundle_fits b" "sk_sent s = []" "sk_sent (snd (EncodeBundle b s)) = received @ lost"
    and "fst (ReadResponse received lm) = Inr b'"
  shows "fst (EncodeBundle b s) = None \<and> lost = [] \<and> bundle_view b' = bundle_view b"
proof -
  have "\<exists>r. rd_response received = Inr (bundle_view b', r)"
    using ReadResponse_contents [of received lm] assms(4) by (auto split: sum.splits)
  then obtain r where "rd_response received = Inr (bundle_view b', r)" ..
  from response.never_misread [OF assms(1) _ this, of s lost] assms(2,3) show ?thesis by simp
qed

theorem bundle_never_misread_witness:
  "\<not> (\<exists>b'. fst (ReadResponse (butlast sample_frame) fresh_mem) = Inr b')"
proof
  assume "\<exists>b'. fst (ReadResponse (butlast sample_frame) fresh_mem) = Inr b'"
  then obtain b' where b: "fst (ReadResponse (butlast sample_frame) fresh_mem) = Inr b'" ..
  from sample_cut(2) have "sk_sent (snd (EncodeBundle sample_bundle open_sink)) = butlast sample_frame @ [last sample_frame]"
    by (simp add: sample_encode)
  from bundle_never_misread [OF sample_fits _ this b] show False by (simp add: open_sink_def)
qed

text \<open>
  C40: hostile lengths are bounded. Whatever bytes the peer sends, a bundle that comes out has
  names, paths, owners and modes below 64 KiB and payloads and manifest of at most 64 MiB.
\<close>

theorem decoded_bundle_bounded:
  assumes "fst (ReadResponse inp lm) = Inr b"
  shows "contents_bounded (bundle_view b)"
  using ReadResponse_contents [of inp lm] assms
  by (auto split: sum.splits dest: rd_response_bounded)

theorem decoded_bundle_bounded_witness:
  "\<exists>b. fst (ReadResponse sample_frame fresh_mem) = Inr b \<and> contents_bounded (bundle_view b)"
proof -
  obtain b where b: "fst (ReadResponse sample_frame fresh_mem) = Inr b"
    using ReadResponse_contents [of sample_frame fresh_mem] sample_read by auto
  with decoded_bundle_bounded [OF b] show ?thesis by blast
qed

text \<open>
  C27: no stranded secrets. On any input, a decoder that fails leaves exactly the locked buffers
  that were live before it; one that succeeds returns a bundle each of whose secrets is a view of
  a live buffer of its own size that the bundle tracks, and destroying the bundle frees them all.
\<close>

theorem decoder_memory:
  assumes "mem_ok lm" "ReadResponse inp lm = (r, lm')"
  shows "case r of
      Inl e \<Rightarrow> lm_live lm' = lm_live lm
    | Inr b \<Rightarrow> lm_live (snd (Destroy b lm')) = lm_live lm
        \<and> (\<forall>f \<in> set (b_files b). backed lm' (b_locked b) (wf_data f))
        \<and> (\<forall>e \<in> set (b_env b). backed lm' (b_locked b) (ev_value e))"
proof -
  have "(\<exists>e. r = Inl e \<and> lm' = lm) \<or> (\<exists>rest. decodeBundle rest lm = (r, lm'))"
    using assms(2) by (auto simp: ReadResponse_def split: sum.splits if_splits)
  then show ?thesis
  proof
    assume "\<exists>rest. decodeBundle rest lm = (r, lm')"
    then obtain rest where "decodeBundle rest lm = (r, lm')" ..
    from decodeBundle_memory [OF assms(1) this] show ?thesis
      by (cases r) (simp_all add: owns_Destroy, simp add: owns_def)
  qed auto
qed

theorem decoder_memory_witness:
  "lm_live (snd (ReadResponse (butlast sample_frame) fresh_mem)) = []"
proof -
  obtain r lm' where r: "ReadResponse (butlast sample_frame) fresh_mem = (r, lm')"
    by (cases "ReadResponse (butlast sample_frame) fresh_mem")
  with sample_cut(1) [of fresh_mem] obtain e where "r = Inl e" by (cases r) auto
  with decoder_memory [OF sample_mem_ok r] r show ?thesis by (simp add: fresh_mem_def)
qed

text \<open>
  round trip of a hook request. The container id and annotations the hook presents are the
  ones the daemon reads, and an empty id is never sent.
\<close>

theorem hook_request_round_trip:
  assumes "hook_fits (cid, ann)" "WriteHookRequest cid ann s = (None, s')"
  shows "cid \<noteq> [] \<and> (\<exists>frame ann'. sk_sent s' = sk_sent s @ frame \<and> map_of ann' = map_of ann
    \<and> (\<forall>rest. ReadHookRequest (frame @ rest) = Inr ((cid, ann'), rest)))"
proof
  show "cid \<noteq> []" using assms(2) by (auto simp: WriteHookRequest_def failW_def)
  have w: "(case (cid, ann) of (cid, ann) \<Rightarrow> WriteHookRequest cid ann) s = (None, s')" using assms(2) by simp
  from hook_request.sound [OF assms(1)] obtain p where "sk_sent s' = sk_sent s @ p"
    "\<And>rest. ReadHookRequest (p @ rest) = Inr ((cid, map_view ann), rest)"
    using w by (cases rule: agreesE [where s = s]) auto
  moreover have "map_of (map_view ann) = map_of ann" using assms(1) by (intro map_of_map_view) (simp add: hook_fits_def)
  ultimately show "\<exists>frame ann'. sk_sent s' = sk_sent s @ frame \<and> map_of ann' = map_of ann
    \<and> (\<forall>rest. ReadHookRequest (frame @ rest) = Inr ((cid, ann'), rest))" by blast
qed

theorem hook_request_round_trip_witness:
  "\<exists>frame ann'. map_of ann' = map_of [(''berm.enable'', ''true'')]
     \<and> (\<forall>rest. ReadHookRequest (frame @ rest) = Inr ((''abc'', ann'), rest))"
proof -
  have fits: "hook_fits (''abc'', [(''berm.enable'', ''true'')])"
    by (simp add: hook_fits_def short_string_def wf_map_def map_fits_def sget_def)
  have "flows (WriteHookRequest ''abc'' [(''berm.enable'', ''true'')])"
    by (rule flows_hook) (simp_all add: sorted_keys_def sget_def)
  then have "fst (WriteHookRequest ''abc'' [(''berm.enable'', ''true'')] open_sink) = None"
    by (simp add: flows_def open_sink_def)
  then obtain s' where "WriteHookRequest ''abc'' [(''berm.enable'', ''true'')] open_sink = (None, s')"
    by (metis prod.collapse)
  from hook_request_round_trip [OF fits this] show ?thesis by blast
qed

text \<open>
  the dispatch is exact. The daemon takes a header for a fetch or a hook request only if it is
  the two bytes of that request in this protocol version; every other input is an error.
\<close>

theorem request_dispatch_exact:
  "ReadRequestHeader inp = Inr (rt, rest) \<longleftrightarrow>
     inp = [ProtocolVersion, (case rt of RequestFetch \<Rightarrow> msgFetchRequest | RequestHook \<Rightarrow> msgHookRequest)] @ rest"
proof -
  have "ReadRequestHeader inp = Inr (rt, rest) \<longleftrightarrow>
      (\<exists>a b. inp = a # b # rest \<and> a = ProtocolVersion \<and>
        (b = msgFetchRequest \<and> rt = RequestFetch \<or> b = msgHookRequest \<and> rt = RequestHook))"
  proof (cases inp)
    case c: (Cons a inp')
    then show ?thesis
      by (cases inp') (auto simp: ReadRequestHeader_def bindR_def readFull_def retR_def failR_def numeral_2_eq_2)
  qed (simp add: ReadRequestHeader_def bindR_def readFull_def)
  then show ?thesis by (cases rt) auto
qed

text \<open>
  the encoder has no size cap of its own. A bundle whose manifest is longer than the decoder's
  64 MiB (and below 4 GiB) is encoded without an error and refused by every client.
\<close>

theorem oversize_manifest_refused:
  assumes "64 * 2 ^ 20 < length (b_manifest b)" "length (b_manifest b) < 2 ^ 32"
    and "b_files b = []" "b_env b = []" "b_pointers b = []"
  shows "\<exists>frame. EncodeBundle b open_sink = (None, \<lparr>sk_sent = frame, sk_room = None\<rparr>)
    \<and> fst (ReadResponse frame lm) = Inl (WLenCap (word_of_nat (length (b_manifest b))))"
proof -
  let ?m = "b_manifest b"
  let ?n = "word_of_nat (length ?m) :: 32 word"
  let ?frame = "[ProtocolVersion, msgBundleResponse] @ be32 0 @ be32 0 @ be32 0 @ be32 ?n @ ?m"
  have enc: "EncodeBundle b open_sink = (None, \<lparr>sk_sent = ?frame, sk_room = None\<rparr>)"
    by (simp add: EncodeBundle_def assms(3-5) thenW_def sink_write_def open_sink_def writeU32_def writeU32Bytes_def)
  have "?n > maxField"
    using assms(1,2) by (simp add: maxField_def word_less_nat_alt unsigned_of_nat take_bit_nat_eq_self)
  then have "rd_body (be32 0 @ be32 0 @ be32 0 @ be32 ?n @ ?m) = Inl (WLenCap ?n)"
    by (simp add: rd_body_def readU32Plain_def bindR_def readU32_be32 retR_def failR_def)
  then have "rd_response ?frame = Inl (WLenCap ?n)"
    by (simp add: rd_response_def bindR_def readFull_def)
  then have "fst (ReadResponse ?frame lm) = Inl (WLenCap ?n)"
    using ReadResponse_contents [of ?frame lm] by simp
  with enc show ?thesis by blast
qed

theorem oversize_manifest_refused_witness:
  "\<exists>frame. fst (ReadResponse frame fresh_mem) = Inl (WLenCap 67108865)"
proof -
  have *: "\<exists>frame. fst (ReadResponse frame fresh_mem) = Inl (WLenCap (word_of_nat n))"
    if "64 * 2 ^ 20 < n" "n < 2 ^ 32" for n
    using oversize_manifest_refused [of "empty_bundle\<lparr>b_manifest := replicate n (CHR ''x'')\<rparr>" fresh_mem] that
    by (auto simp: empty_bundle_def)
  from * [of 67108865] show ?thesis by simp
qed



end
