(* ===== verification/Daemon_Control.thy ===== *)
theory Daemon_Control
  imports Daemon_Ledger Daemon_Tracker Peer_Auth Resolve_Model Wire_Props
begin

text \<open>
  \<open>internal/daemon/daemon.go\<close>, \<open>loop.go\<close> and \<open>server.go\<close>, and \<open>internal/hookd/hookd.go\<close>: the control plane. A handler
  is a function from the daemon's state to its next state; what the world answers while it runs (the runtime,
  the clock, the sources, the encoders of the standard library) is its environment. Log lines are not part of
  the state; alerts, which go to the operator's sink, are.
\<close>

section \<open>State and environment\<close>

datatype level = LevelInfo | LevelWarning | LevelError

text \<open>Severities are ordered.\<close>

instantiation level :: linorder
begin

fun level_rank :: "level \<Rightarrow> nat" where
  "level_rank LevelInfo = 0"
| "level_rank LevelWarning = 1"
| "level_rank LevelError = 2"

definition less_eq_level :: "level \<Rightarrow> level \<Rightarrow> bool" where
  "less_eq_level a b \<longleftrightarrow> level_rank a \<le> level_rank b"

definition less_level :: "level \<Rightarrow> level \<Rightarrow> bool" where
  "less_level a b \<longleftrightarrow> level_rank a < level_rank b"

instance
proof
  fix a b :: level
  show "a \<le> b \<Longrightarrow> b \<le> a \<Longrightarrow> a = b" by (cases a; cases b) (simp_all add: less_eq_level_def)
qed (auto simp: less_eq_level_def less_level_def)

end

record alert =
  al_level :: level
  al_title :: string
  al_body :: msg
  al_fields :: smap

record sticky_error =
  se_container :: string
  se_service :: string
  se_class :: string
  se_message :: msg
  se_since :: int

type_synonym sticky_store = "(string, sticky_error) gomap"

record daemon =
  dm_world :: world
  dm_ledger :: ledger
  dm_sticky :: sticky_store
  dm_tracker :: tracker
  dm_alerts :: "alert list"

record 'h denv =
  de_cfg :: config
  de_ops :: "'h source_ops"
  de_def :: mechanism
  de_vol_root :: string
  de_inspect :: "string \<Rightarrow> container option"
  de_list :: "container list option"
  de_is_dir :: "string \<Rightarrow> bool"
  de_sink :: bool
  de_now :: int
  de_later :: int
  de_rfc3339 :: "int \<Rightarrow> string"
  de_marshal :: "manifest \<Rightarrow> string"
  de_parse :: "string \<Rightarrow> manifest option"
  de_flush_fails :: "string \<Rightarrow> bool"
  de_json :: "ledger_file \<Rightarrow> string"
  de_render :: "msg \<Rightarrow> string"

definition build_env_of :: "'h denv \<Rightarrow> build_env" where
  "build_env_of env = \<lparr>bd_now = de_rfc3339 env (de_now env), bd_marshal = de_marshal env, bd_flush_fails = de_flush_fails env\<rparr>"

section \<open>Defaults\<close>

definition DefaultSocketPath :: string where "DefaultSocketPath = ''/run/berm/berm.sock''"
definition DefaultLedgerPath :: string where "DefaultLedgerPath = ''/var/lib/berm/ledger.json''"
definition DefaultVolumeMountRoot :: string where "DefaultVolumeMountRoot = ''/run/berm/volumes''"
definition DefaultReconcileInterval :: int where "DefaultReconcileInterval = 2 * nano_second"

definition EffectiveDefaultDelivery :: "config option \<Rightarrow> mechanism" where
  "EffectiveDefaultDelivery co =
     (case co of
        None \<Rightarrow> MechClient
      | Some cfg \<Rightarrow>
          if g_default_delivery (c_globals cfg) \<noteq> [] then g_default_delivery (c_globals cfg)
          else if g_runtime (c_globals cfg) = ''podman'' then MechHook
          else if g_runtime (c_globals cfg) = ''docker'' then MechClient
          else if def_delivery (c_defaults cfg) \<noteq> [] then def_delivery (c_defaults cfg)
          else MechClient)"

section \<open>The sticky-error store\<close>

definition sticky_add :: "int \<Rightarrow> string \<Rightarrow> string \<Rightarrow> label_error \<Rightarrow> sticky_store \<Rightarrow> sticky_store" where
  "sticky_add now cid service le s =
     (case map_of s cid of
        None \<Rightarrow> AList.update cid \<lparr>se_container = cid, se_service = service, se_class = class_string (le_class le),
            se_message = le_message le, se_since = now\<rparr> s
      | Some e \<Rightarrow> AList.update cid (e\<lparr>se_service := service, se_class := class_string (le_class le),
            se_message := le_message le\<rparr>) s)"

definition sticky_clear :: "string \<Rightarrow> sticky_store \<Rightarrow> sticky_store" where
  "sticky_clear cid s = AList.delete cid s"

definition sticky_list :: "sticky_store \<Rightarrow> sticky_error list" where
  "sticky_list s = map snd s"

section \<open>Alerting and recording\<close>

definition validationLevel :: "label_error \<Rightarrow> level" where
  "validationLevel le = (if le_sticky le then LevelError else LevelWarning)"

definition add_alert :: "bool \<Rightarrow> alert \<Rightarrow> daemon \<Rightarrow> daemon" where
  "add_alert sink a dm = (if sink then dm\<lparr>dm_alerts := dm_alerts dm @ [a]\<rparr> else dm)"

definition alert_fields :: "string \<Rightarrow> string \<Rightarrow> label_error \<Rightarrow> smap" where
  "alert_fields cid service le =
     fold (\<lambda>(k, v) m. AList.update k v m) (le_fields le)
       [(''container'', cid), (''service'', service), (''class'', class_string (le_class le))]"

text \<open>The error is \<^term>\<open>Some le\<close> when \<open>label.AsError\<close> finds a classified one in its chain.\<close>

definition alertValidation ::
  "'h denv \<Rightarrow> string \<Rightarrow> string \<Rightarrow> label_error option \<Rightarrow> daemon \<Rightarrow> string \<times> daemon" where
  "alertValidation env cid service err dm =
     (case err of
        Some le \<Rightarrow>
          let dm1 = add_alert (de_sink env) \<lparr>al_level = validationLevel le, al_title = ''berm validation error'',
                al_body = le_message le, al_fields = alert_fields cid service le\<rparr> dm;
              dm2 = (if le_sticky le then dm1\<lparr>dm_sticky := sticky_add (de_later env) cid service le (dm_sticky dm1)\<rparr> else dm1) in
          (de_render env (le_message le), dm2)
      | None \<Rightarrow>
          (''internal error'', add_alert (de_sink env) \<lparr>al_level = LevelError, al_title = ''berm injection failed'',
             al_body = Msg ''a berm injection failed for a container: see the daemon log'' [],
             al_fields = [(''container'', cid), (''service'', service)]\<rparr> dm))"

definition recordInjection :: "'h denv \<Rightarrow> manifest \<Rightarrow> daemon \<Rightarrow> daemon" where
  "recordInjection env m dm =
     (let (e, lg, fs') = RecordManifest (de_json env) (dm_ledger dm) (Some m) (de_later env) (wd_fs (dm_world dm)) in
      dm\<lparr>dm_ledger := lg, dm_world := (dm_world dm)\<lparr>wd_fs := fs'\<rparr>, dm_sticky := sticky_clear (mn_container m) (dm_sticky dm)\<rparr>)"

definition recordFromBundleManifest :: "'h denv \<Rightarrow> wbundle \<Rightarrow> daemon \<Rightarrow> daemon" where
  "recordFromBundleManifest env b dm =
     (case ParseManifest (de_parse env) (b_manifest b) of Inl e \<Rightarrow> dm | Inr m \<Rightarrow> recordInjection env m dm)"

definition daemon_input :: "'h denv \<Rightarrow> smap \<Rightarrow> string \<Rightarrow> string \<Rightarrow> resolve_input" where
  "daemon_input env labels cid service =
     \<lparr>in_labels = labels, in_container_id = cid, in_service = service, in_container_user = [],
      in_config = Some (de_cfg env), in_default_delivery = de_def env\<rparr>"

section \<open>The hook handler\<close>

datatype hook_error =
    HookIdentity auth_error | HookResolve label_error | HookNotEnabled | HookNotHookMode mechanism
  | HookEnvUnsupported | HookBuild bundle_error

definition composeServiceKeys :: "string list" where
  "composeServiceKeys = [''com.docker.compose.service'', ''io.podman.compose.service'']"

definition composeService :: "smap \<Rightarrow> string" where
  "composeService annotations = first_non_empty (map (sget annotations) composeServiceKeys)"

definition hook_Handle ::
  "'h denv \<Rightarrow> string \<Rightarrow> smap \<Rightarrow> lockmem \<Rightarrow> (hook_error + wbundle) \<times> lockmem" where
  "hook_Handle env cid annotations lm =
     (let c = \<lparr>rc_id = cid, rc_name = [], rc_service = composeService annotations, rc_labels = annotations\<rparr> in
      case ServiceName c of
        Inl e \<Rightarrow> (Inl (HookIdentity e), lm)
      | Inr svc \<Rightarrow>
          (case Resolve (daemon_input env annotations cid svc) of
             Inl e \<Rightarrow> (Inl (HookResolve e), lm)
           | Inr None \<Rightarrow> (Inl HookNotEnabled, lm)
           | Inr (Some p) \<Rightarrow>
               if p_mechanism p \<noteq> MechHook then (Inl (HookNotHookMode (p_mechanism p)), lm)
               else if dp_env (ToDelivery p) \<noteq> [] then (Inl HookEnvUnsupported, lm)
               else (case BuildBundle (de_ops env) (build_env_of env) (dp_service (ToDelivery p)) (ToDelivery p) lm of
                       (Inl e, lm') \<Rightarrow> (Inl (HookBuild e), lm') | (Inr b, lm') \<Rightarrow> (Inr b, lm'))))"

text \<open>The classified error in the chain of a hook error, and the two benign skips.\<close>

definition hook_classified :: "hook_error \<Rightarrow> label_error option" where
  "hook_classified e = (case e of HookResolve le \<Rightarrow> Some le | _ \<Rightarrow> None)"

definition hook_skip :: "hook_error \<Rightarrow> bool" where
  "hook_skip e = (case e of HookNotEnabled \<Rightarrow> True | HookNotHookMode m \<Rightarrow> True | _ \<Rightarrow> False)"

section \<open>The socket server\<close>

text \<open>\<open>EncodeBundle\<close>, the record on success, and the deferred \<open>Destroy\<close>.\<close>

definition set_mem :: "lockmem \<Rightarrow> daemon \<Rightarrow> daemon" where
  "set_mem lm dm = dm\<lparr>dm_world := (dm_world dm)\<lparr>wd_mem := lm\<rparr>\<rparr>"

definition send_bundle :: "'h denv \<Rightarrow> wbundle \<Rightarrow> sink \<Rightarrow> daemon \<Rightarrow> sink \<times> daemon" where
  "send_bundle env b s dm =
     (let (e, s') = EncodeBundle b s;
          dm1 = (if e = None then recordFromBundleManifest env b dm else dm) in
      (s', set_mem (snd (Destroy b (wd_mem (dm_world dm1)))) dm1))"

definition refuse :: "string \<Rightarrow> sink \<Rightarrow> sink" where
  "refuse reason s = snd (WriteError reason s)"

definition handleFetch :: "'h denv \<Rightarrow> auth_error + identity \<Rightarrow> sink \<Rightarrow> daemon \<Rightarrow> sink \<times> daemon" where
  "handleFetch env auth s dm =
     (case auth of
        Inl e \<Rightarrow> (refuse ''unauthenticated'' s, dm)
      | Inr i \<Rightarrow>
          let dm1 = dm\<lparr>dm_tracker := arrived (id_container i) (dm_tracker dm)\<rparr> in
          (case Resolve (daemon_input env (id_labels i) (id_container i) (id_service i)) of
             Inl le \<Rightarrow>
               (let (reason, dm2) = alertValidation env (id_container i) (id_service i) (Some le) dm1 in
                (refuse reason s, dm2))
           | Inr None \<Rightarrow> (refuse ''container is not berm-enabled'' s, dm1)
           | Inr (Some p) \<Rightarrow>
               (case BuildBundle (de_ops env) (build_env_of env) (id_service i) (ToDelivery p) (wd_mem (dm_world dm1)) of
                  (Inl e, lm) \<Rightarrow>
                    (let (reason, dm2) = alertValidation env (id_container i) (id_service i) None (set_mem lm dm1) in
                     (refuse reason s, dm2))
                | (Inr b, lm) \<Rightarrow> send_bundle env b s (set_mem lm dm1))))"

definition handleHook :: "'h denv \<Rightarrow> string \<Rightarrow> sink \<Rightarrow> daemon \<Rightarrow> sink \<times> daemon" where
  "handleHook env inp s dm =
     (case ReadHookBody inp of
        Inl e \<Rightarrow> (refuse ''bad hook request'' s, dm)
      | Inr ((cid, annotations), rest) \<Rightarrow>
          (case hook_Handle env cid annotations (wd_mem (dm_world dm)) of
             (Inl e, lm) \<Rightarrow>
               let dm1 = set_mem lm dm in
               if hook_skip e then (refuse ''not a hook-mode berm container'' s, dm1)
               else (let (reason, dm2) = alertValidation env cid [] (hook_classified e) dm1 in (refuse reason s, dm2))
           | (Inr b, lm) \<Rightarrow> send_bundle env b s (set_mem lm dm)))"

text \<open>One connection: the bytes the peer sends, and who the kernel says it is.\<close>

definition server_handle :: "'h denv \<Rightarrow> auth_error + identity \<Rightarrow> string \<Rightarrow> sink \<Rightarrow> daemon \<Rightarrow> sink \<times> daemon" where
  "server_handle env auth inp s dm =
     (case ReadRequestHeader inp of
        Inl e \<Rightarrow> (s, dm)
      | Inr (RequestFetch, rest) \<Rightarrow> handleFetch env auth s dm
      | Inr (RequestHook, rest) \<Rightarrow> handleHook env rest s dm)"

section \<open>The event loop\<close>

definition volumeName :: "container \<Rightarrow> string \<Rightarrow> string" where
  "volumeName c service =
     (if sget (rc_labels c) ''berm.volume'' \<noteq> [] then sget (rc_labels c) ''berm.volume''
      else if sget (rc_labels c) ''tagwright.secret.volume'' \<noteq> [] then sget (rc_labels c) ''tagwright.secret.volume''
      else ''berm-'' @ service)"

definition pushVolume :: "'h denv \<Rightarrow> plan \<Rightarrow> container \<Rightarrow> daemon \<Rightarrow> daemon" where
  "pushVolume env p c dm =
     (let mountPath = path_join (de_vol_root env) (volumeName c (p_service p)); dp = ToDelivery p;
          (e, w) = ApplyVolume (de_ops env) (build_env_of env) dp mountPath (dm_world dm);
          dm1 = dm\<lparr>dm_world := w\<rparr> in
      case e of
        Some x \<Rightarrow> snd (alertValidation env (rc_id c) (p_service p) None dm1)
      | None \<Rightarrow>
          (case BuildManifest (de_ops env) dp (de_rfc3339 env (de_now env)) of
             Inl x \<Rightarrow> dm1
           | Inr m \<Rightarrow> recordInjection env m dm1))"

definition handleStart :: "'h denv \<Rightarrow> string \<Rightarrow> daemon \<Rightarrow> daemon" where
  "handleStart env cid dm =
     (case de_inspect env cid of
        None \<Rightarrow> dm
      | Some c \<Rightarrow>
          (case ServiceName c of
             Inl e \<Rightarrow> dm
           | Inr svc \<Rightarrow>
               (case Resolve (daemon_input env (rc_labels c) (rc_id c) svc) of
                  Inl le \<Rightarrow> snd (alertValidation env (rc_id c) svc (Some le) dm)
                | Inr None \<Rightarrow> dm
                | Inr (Some p) \<Rightarrow>
                    if p_mechanism p = MechVolume then pushVolume env p c dm
                    else if p_mechanism p = MechClient then dm\<lparr>dm_tracker := expect (rc_id c) svc (dm_tracker dm)\<rparr>
                    else dm)))"

datatype event_type = EventStart | EventStop | EventDie | EventDestroy | EventOther

definition handleEvent :: "'h denv \<Rightarrow> event_type \<Rightarrow> string \<Rightarrow> daemon \<Rightarrow> daemon" where
  "handleEvent env ty cid dm =
     (if ty = EventStart then handleStart env cid dm
      else if ty = EventStop \<or> ty = EventDie \<or> ty = EventDestroy then
        let dm1 = dm\<lparr>dm_tracker := cancel cid (dm_tracker dm)\<rparr> in
        if ty = EventDestroy then
          let (e, lg, fs') = Forget (de_json env) (dm_ledger dm1) cid (wd_fs (dm_world dm1)) in
          dm1\<lparr>dm_ledger := lg, dm_world := (dm_world dm1)\<lparr>wd_fs := fs'\<rparr>, dm_sticky := sticky_clear cid (dm_sticky dm1)\<rparr>
        else dm1
      else dm)"

text \<open>\<open>os.Stat\<close> of a directory the operator mounted, and of the manifest in it.\<close>

definition stat_dir :: "'h denv \<Rightarrow> string \<Rightarrow> fs \<Rightarrow> bool \<times> fs" where
  "stat_dir env p w = (let (ok, w') = sys w in (ok \<and> de_is_dir env p, w'))"

definition stat_file :: "string \<Rightarrow> fs \<Rightarrow> bool \<times> fs" where
  "stat_file p w = (let (ok, w') = sys w in (ok \<and> content w' p \<noteq> None, w'))"

definition set_fs :: "fs \<Rightarrow> daemon \<Rightarrow> daemon" where
  "set_fs w dm = dm\<lparr>dm_world := (dm_world dm)\<lparr>wd_fs := w\<rparr>\<rparr>"

definition reconcile_one :: "'h denv \<Rightarrow> container \<Rightarrow> daemon \<Rightarrow> daemon" where
  "reconcile_one env c dm =
     (case ServiceName c of
        Inl e \<Rightarrow> dm
      | Inr svc \<Rightarrow>
          (case Resolve (daemon_input env (rc_labels c) (rc_id c) svc) of
             Inl le \<Rightarrow> dm
           | Inr None \<Rightarrow> dm
           | Inr (Some p) \<Rightarrow>
               if p_mechanism p \<noteq> MechVolume then dm
               else let mountPath = path_join (de_vol_root env) (volumeName c (p_service p));
                        (there, w1) = stat_dir env mountPath (wd_fs (dm_world dm)) in
                 if \<not> there then set_fs w1 dm
                 else let (ready, w2) = stat_file (path_join mountPath (path_base DefaultManifestPath)) w1 in
                   if ready then set_fs w2 dm else pushVolume env p c (set_fs w2 dm)))"

definition reconcileVolumes :: "'h denv \<Rightarrow> daemon \<Rightarrow> daemon" where
  "reconcileVolumes env dm =
     (case de_list env of None \<Rightarrow> dm | Some cs \<Rightarrow> fold (reconcile_one env) cs dm)"

section \<open>Locked memory after a bundle\<close>

lemma mem_ok_Destroy: "owns base b lm \<Longrightarrow> mem_ok (snd (Destroy b lm))"
  by (auto simp: owns_def Destroy_def mem_ok_def lm_live_fold_destroy)

lemma BuildBundle_mem_ok:
  assumes "mem_ok lm" "BuildBundle (config_ops oe) env caller plan lm = (r, lm')"
  shows "mem_ok lm'"
proof (cases "checkScope caller plan = None \<and> checkEnvGate plan = None")
  case False
  then show ?thesis using assms by (auto simp: BuildBundle_def split: option.splits)
next
  case True
  then have c: "checkScope caller plan = None" "checkEnvGate plan = None" by simp_all
  obtain e b lm1 where s: "build_steps (config_ops oe) env plan empty_bundle lm = (e, b, lm1)" by (metis prod.exhaust)
  have o: "owns (lm_live lm) b lm1"
    using cfg.build_steps_adds [OF owns_empty [OF assms(1)] s c] by (rule conjunct1)
  show ?thesis using assms(2) mem_ok_Destroy [OF o] o by (auto simp: BuildBundle_def c s owns_def split: option.splits)
qed

section \<open>What each handler keeps\<close>

definition sticky_ok :: "sticky_store \<Rightarrow> bool" where
  "sticky_ok s \<longleftrightarrow> wf_map s \<and> (\<forall>cid e. map_of s cid = Some e \<longrightarrow> se_container e = cid
     \<and> (\<exists>c. class_sticky c \<and> se_class e = class_string c))"

definition daemon_ok :: "daemon \<Rightarrow> bool" where
  "daemon_ok dm \<longleftrightarrow> mem_ok (wd_mem (dm_world dm)) \<and> lm_live (wd_mem (dm_world dm)) = []
     \<and> ledger_ok (dm_ledger dm) \<and> sticky_ok (dm_sticky dm) \<and> tracker_inv (dm_tracker dm)"

lemma daemon_okI:
  "daemon_ok dm \<Longrightarrow> wd_mem (dm_world dm') = wd_mem (dm_world dm) \<Longrightarrow> ledger_ok (dm_ledger dm') \<Longrightarrow>
     sticky_ok (dm_sticky dm') \<Longrightarrow> tracker_inv (dm_tracker dm') \<Longrightarrow> daemon_ok dm'"
  by (simp add: daemon_ok_def)

lemma sticky_ok_add: "sticky_ok s \<Longrightarrow> le_sticky le \<Longrightarrow> sticky_ok (sticky_add now cid svc le s)"
  by (auto simp: sticky_ok_def sticky_add_def le_sticky_def split: option.splits if_splits)

lemma sticky_ok_clear: "sticky_ok s \<Longrightarrow> sticky_ok (sticky_clear cid s)"
  by (auto simp: sticky_ok_def sticky_clear_def split: if_splits)

lemma add_alert_simps [simp]:
  "dm_world (add_alert b a dm) = dm_world dm" "dm_ledger (add_alert b a dm) = dm_ledger dm"
  "dm_sticky (add_alert b a dm) = dm_sticky dm" "dm_tracker (add_alert b a dm) = dm_tracker dm"
  by (simp_all add: add_alert_def)

lemma alertValidation_simps [simp]:
  "dm_world (snd (alertValidation env cid svc err dm)) = dm_world dm"
  "dm_ledger (snd (alertValidation env cid svc err dm)) = dm_ledger dm"
  "dm_tracker (snd (alertValidation env cid svc err dm)) = dm_tracker dm"
  by (simp_all add: alertValidation_def Let_def split: option.split)

lemma alertValidation_ok: "daemon_ok dm \<Longrightarrow> daemon_ok (snd (alertValidation env cid svc err dm))"
  by (rule daemon_okI [of dm]) (auto simp: daemon_ok_def alertValidation_def Let_def sticky_ok_add split: option.split)

lemma alertValidation_okD: "alertValidation env cid svc err dm = (r, dm') \<Longrightarrow> daemon_ok dm \<Longrightarrow> daemon_ok dm'"
  using alertValidation_ok [of dm env cid svc err] by simp

lemma RecordManifest_ok: "RecordManifest json lg mo now w = (e, lg', w') \<Longrightarrow> ledger_ok lg \<Longrightarrow> ledger_ok lg'"
  by (cases rule: RecordManifest_spec) (auto intro: ledger_ok_update)

lemma recordInjection_ok: "daemon_ok dm \<Longrightarrow> daemon_ok (recordInjection env m dm)"
proof -
  assume ok: "daemon_ok dm"
  obtain e lg fs' where r: "RecordManifest (de_json env) (dm_ledger dm) (Some m) (de_later env) (wd_fs (dm_world dm)) = (e, lg, fs')"
    by (metis prod.exhaust)
  have "ledger_ok lg" using RecordManifest_ok [OF r] ok by (simp add: daemon_ok_def)
  then show ?thesis using ok by (simp add: recordInjection_def r daemon_ok_def sticky_ok_clear)
qed

lemma recordInjection_mem [simp]: "wd_mem (dm_world (recordInjection env m dm)) = wd_mem (dm_world dm)"
  by (simp add: recordInjection_def split: prod.split)

lemma recordFromBundle_mem [simp]: "wd_mem (dm_world (recordFromBundleManifest env b dm)) = wd_mem (dm_world dm)"
  by (simp add: recordFromBundleManifest_def split: sum.split)

text \<open>The parts of a daemon besides memory.\<close>

definition rest_ok :: "daemon \<Rightarrow> bool" where
  "rest_ok dm \<longleftrightarrow> ledger_ok (dm_ledger dm) \<and> sticky_ok (dm_sticky dm) \<and> tracker_inv (dm_tracker dm)"

lemma daemon_ok_iff: "daemon_ok dm \<longleftrightarrow> mem_ok (wd_mem (dm_world dm)) \<and> lm_live (wd_mem (dm_world dm)) = [] \<and> rest_ok dm"
  by (simp add: daemon_ok_def rest_ok_def)

lemma rest_ok_record: "rest_ok dm \<Longrightarrow> rest_ok (recordFromBundleManifest env b dm)"
proof -
  assume ok: "rest_ok dm"
  have "rest_ok (recordInjection env m dm)" for m
  proof -
    obtain e lg fs' where r: "RecordManifest (de_json env) (dm_ledger dm) (Some m) (de_later env) (wd_fs (dm_world dm)) = (e, lg, fs')"
      by (metis prod.exhaust)
    have "ledger_ok lg" using RecordManifest_ok [OF r] ok by (simp add: rest_ok_def)
    then show ?thesis using ok by (simp add: recordInjection_def r rest_ok_def sticky_ok_clear)
  qed
  then show ?thesis using ok by (auto simp: recordFromBundleManifest_def split: sum.split)
qed

lemma set_mem_simps [simp]:
  "wd_mem (dm_world (set_mem lm dm)) = lm" "wd_fs (dm_world (set_mem lm dm)) = wd_fs (dm_world dm)"
  "dm_ledger (set_mem lm dm) = dm_ledger dm" "dm_sticky (set_mem lm dm) = dm_sticky dm"
  "dm_tracker (set_mem lm dm) = dm_tracker dm" "dm_alerts (set_mem lm dm) = dm_alerts dm" "rest_ok (set_mem lm dm) = rest_ok dm"
  by (simp_all add: set_mem_def rest_ok_def)

lemma send_bundle_ok:
  assumes "owns [] b (wd_mem (dm_world dm))" "rest_ok dm" "send_bundle env b s dm = (s', dm')"
  shows "daemon_ok dm'"
proof -
  obtain e s1 where e: "EncodeBundle b s = (e, s1)" by (metis prod.exhaust)
  let ?dm1 = "if e = None then recordFromBundleManifest env b dm else dm"
  have "dm' = set_mem (snd (Destroy b (wd_mem (dm_world ?dm1)))) ?dm1" using assms(3) by (auto simp: send_bundle_def e Let_def)
  moreover have "wd_mem (dm_world ?dm1) = wd_mem (dm_world dm)" by simp
  moreover have "rest_ok ?dm1" using assms(2) by (simp add: rest_ok_record)
  ultimately show ?thesis
    using mem_ok_Destroy [OF assms(1)] owns_Destroy [OF assms(1)] by (simp add: daemon_ok_iff)
qed

lemma BuildBundle_outcome:
  assumes "daemon_ok dm" "BuildBundle (config_ops oe) benv caller dp (wd_mem (dm_world dm)) = (r, lm)"
  shows "case r of Inl e \<Rightarrow> daemon_ok (set_mem lm dm) | Inr b \<Rightarrow> owns [] b lm"
proof -
  have ok: "mem_ok (wd_mem (dm_world dm))" and live: "lm_live (wd_mem (dm_world dm)) = []" using assms(1) by (simp_all add: daemon_ok_def)
  from BuildBundle_config [OF ok assms(2)] BuildBundle_mem_ok [OF ok assms(2)] assms(1) show ?thesis
    by (auto simp: live daemon_ok_iff split: sum.splits)
qed

lemma handleFetch_ok:
  assumes "daemon_ok dm" "de_ops env = config_ops oe" "handleFetch env auth s dm = (s', dm')"
  shows "daemon_ok dm'"
proof (cases auth)
  case (Inl e)
  then show ?thesis using assms by (auto simp: handleFetch_def)
next
  case (Inr i)
  let ?dm1 = "dm\<lparr>dm_tracker := arrived (id_container i) (dm_tracker dm)\<rparr>"
  have ok1: "daemon_ok ?dm1" using assms(1) by (simp add: daemon_ok_def tracker_inv_arrived)
  show ?thesis
  proof (cases "Resolve (daemon_input env (id_labels i) (id_container i) (id_service i))")
    case (Inl le)
    then show ?thesis using assms(3) \<open>auth = _\<close> by (auto simp: handleFetch_def Let_def split: prod.splits intro: alertValidation_okD [OF _ ok1])
  next
    case r: (Inr po)
    show ?thesis
    proof (cases po)
      case None
      then show ?thesis using assms(3) \<open>auth = _\<close> r ok1 by (auto simp: handleFetch_def)
    next
      case (Some p)
      obtain x lm where b: "BuildBundle (config_ops oe) (build_env_of env) (id_service i) (ToDelivery p) (wd_mem (dm_world ?dm1)) = (x, lm)"
        by (metis prod.exhaust)
      note out = BuildBundle_outcome [OF ok1 b]
      show ?thesis
      proof (cases x)
        case (Inl e)
        then show ?thesis using assms(2,3) \<open>auth = _\<close> r Some b out
          by (auto simp: handleFetch_def Let_def split: prod.splits intro: alertValidation_okD)
      next
        case (Inr bb)
        then have "send_bundle env bb s (set_mem lm ?dm1) = (s', dm')"
          using assms(2,3) \<open>auth = _\<close> r Some b by (simp add: handleFetch_def)
        from send_bundle_ok [OF _ _ this] out Inr ok1 show ?thesis by (simp add: daemon_ok_iff)
      qed
    qed
  qed
qed

lemma hook_Handle_cases:
  assumes "hook_Handle env cid ann lm = (r, lm')"
  obtains (early) e where "r = Inl e" "lm' = lm"
  | (built) svc p x where "ServiceName \<lparr>rc_id = cid, rc_name = [], rc_service = composeService ann, rc_labels = ann\<rparr> = Inr svc"
      "Resolve (daemon_input env ann cid svc) = Inr (Some p)" "p_mechanism p = MechHook" "dp_env (ToDelivery p) = []"
      "BuildBundle (de_ops env) (build_env_of env) (dp_service (ToDelivery p)) (ToDelivery p) lm = (x, lm')"
      "r = (case x of Inl e \<Rightarrow> Inl (HookBuild e) | Inr b \<Rightarrow> Inr b)"
proof -
  consider (e) e where "r = Inl e" "lm' = lm"
    | (b) svc p where "ServiceName \<lparr>rc_id = cid, rc_name = [], rc_service = composeService ann, rc_labels = ann\<rparr> = Inr svc"
      "Resolve (daemon_input env ann cid svc) = Inr (Some p)" "p_mechanism p = MechHook" "dp_env (ToDelivery p) = []"
    using assms by (auto simp: hook_Handle_def split: sum.splits option.splits if_splits)
  then show thesis
  proof cases
    case e
    then show thesis by (rule early)
  next
    case b
    obtain x lm1 where x: "BuildBundle (de_ops env) (build_env_of env) (dp_service (ToDelivery p)) (ToDelivery p) lm = (x, lm1)"
      by (metis prod.exhaust)
    then have "lm1 = lm'" "r = (case x of Inl e \<Rightarrow> Inl (HookBuild e) | Inr b \<Rightarrow> Inr b)"
      using assms b by (auto simp: hook_Handle_def split: sum.splits)
    with built [OF b] x show thesis by simp
  qed
qed

lemma handleHook_ok:
  assumes "daemon_ok dm" "de_ops env = config_ops oe" "handleHook env inp s dm = (s', dm')"
  shows "daemon_ok dm'"
proof (cases "ReadHookBody inp")
  case (Inl e)
  then show ?thesis using assms by (auto simp: handleHook_def)
next
  case (Inr x)
  obtain cid ann rest where rd: "ReadHookBody inp = Inr ((cid, ann), rest)" using Inr by (cases x) auto
  obtain r lm where h: "hook_Handle env cid ann (wd_mem (dm_world dm)) = (r, lm)" by (metis prod.exhaust)
  have out: "case r of Inl e \<Rightarrow> daemon_ok (set_mem lm dm) | Inr b \<Rightarrow> owns [] b lm"
    using h
  proof (cases rule: hook_Handle_cases)
    case (early e)
    then show ?thesis using assms(1) by (simp add: daemon_ok_iff)
  next
    case (built svc p x)
    from BuildBundle_outcome [OF assms(1) built(5) [unfolded assms(2)]] built(6) show ?thesis by (auto split: sum.splits)
  qed
  show ?thesis
  proof (cases r)
    case (Inl e)
    then show ?thesis using assms(3) rd h out by (auto simp: handleHook_def Let_def split: prod.splits if_splits intro: alertValidation_okD)
  next
    case (Inr b)
    then have "send_bundle env b s (set_mem lm dm) = (s', dm')" using assms(3) rd h by (simp add: handleHook_def)
    from send_bundle_ok [OF _ _ this] out Inr assms(1) show ?thesis by (simp add: daemon_ok_iff)
  qed
qed

lemma server_handle_ok:
  assumes "daemon_ok dm" "de_ops env = config_ops oe" "server_handle env auth inp s dm = (s', dm')"
  shows "daemon_ok dm'"
  using assms handleFetch_ok [OF assms(1,2)] handleHook_ok [OF assms(1,2)]
  by (auto simp: server_handle_def split: sum.splits request_type.splits)

lemma pushVolume_ok:
  assumes "daemon_ok dm" "de_ops env = config_ops oe"
  shows "daemon_ok (pushVolume env p c dm)"
proof -
  let ?mount = "path_join (de_vol_root env) (volumeName c (p_service p))"
  obtain e w where a: "ApplyVolume (config_ops oe) (build_env_of env) (ToDelivery p) ?mount (dm_world dm) = (e, w)" by (metis prod.exhaust)
  have "mem_ok (wd_mem (dm_world dm))" using assms(1) by (simp add: daemon_ok_def)
  then have m: "mem_same (wd_mem (dm_world dm)) (wd_mem w)"
    using a [unfolded ApplyVolume_def] by (elim cfg.applyVolume_spec) auto
  have ok1: "daemon_ok (dm\<lparr>dm_world := w\<rparr>)" using assms(1) m by (simp add: daemon_ok_def mem_same_def)
  show ?thesis
    unfolding pushVolume_def Let_def assms(2) a prod.case
    using alertValidation_ok [OF ok1] recordInjection_ok [OF ok1] ok1 by (auto split: option.split sum.split)
qed

lemma handleStart_ok: "daemon_ok dm \<Longrightarrow> de_ops env = config_ops oe \<Longrightarrow> daemon_ok (handleStart env cid dm)"
  unfolding handleStart_def
  by (auto simp: pushVolume_ok alertValidation_ok split: option.split sum.split intro: alertValidation_ok)
    (auto simp: daemon_ok_def tracker_inv_expect)

section \<open>Runs of the daemon\<close>

text \<open>
  The goroutines' handlers in any order, each with a world of its own; between them the timers step and
  others change files.
\<close>

lemma handleEvent_ok: "daemon_ok dm \<Longrightarrow> de_ops env = config_ops oe \<Longrightarrow> daemon_ok (handleEvent env ty cid dm)"
proof -
  assume ok: "daemon_ok dm" and e: "de_ops env = config_ops oe"
  let ?dm1 = "dm\<lparr>dm_tracker := cancel cid (dm_tracker dm)\<rparr>"
  have ok1: "daemon_ok ?dm1" using ok by (simp add: daemon_ok_def cancel_def tracker_inv_arrived)
  obtain e1 lg fs' where f: "Forget (de_json env) (dm_ledger dm) cid (wd_fs (dm_world dm)) = (e1, lg, fs')" by (metis prod.exhaust)
  have "ledger_ok lg" using f ok
    by (auto simp: Forget_def daemon_ok_def Let_def ledger_ok_delete split: option.splits prod.splits)
  then show ?thesis
    using ok ok1 handleStart_ok [OF ok e] f by (auto simp: handleEvent_def Let_def daemon_ok_def sticky_ok_clear)
qed

lemma set_fs_ok: "daemon_ok (set_fs w dm) = daemon_ok dm"
  by (simp add: set_fs_def daemon_ok_def)

lemma reconcile_one_ok: "daemon_ok dm \<Longrightarrow> de_ops env = config_ops oe \<Longrightarrow> daemon_ok (reconcile_one env c dm)"
  by (auto simp: reconcile_one_def Let_def set_fs_ok pushVolume_ok split: sum.split option.split prod.split)

lemma reconcileVolumes_ok: "daemon_ok dm \<Longrightarrow> de_ops env = config_ops oe \<Longrightarrow> daemon_ok (reconcileVolumes env dm)"
proof -
  have "daemon_ok dm \<Longrightarrow> de_ops env = config_ops oe \<Longrightarrow> daemon_ok (fold (reconcile_one env) cs dm)" for cs dm
    by (induction cs arbitrary: dm) (auto intro: reconcile_one_ok)
  then show "daemon_ok dm \<Longrightarrow> de_ops env = config_ops oe \<Longrightarrow> daemon_ok (reconcileVolumes env dm)"
    by (auto simp: reconcileVolumes_def split: option.split)
qed

inductive dstep :: "daemon \<Rightarrow> daemon \<Rightarrow> bool" where
  conn: "de_ops env = config_ops oe \<Longrightarrow> server_handle env auth inp s dm = (s', dm') \<Longrightarrow> dstep dm dm'"
| runtime: "de_ops env = config_ops oe \<Longrightarrow> dstep dm (handleEvent env ty cid dm)"
| reconcile: "de_ops env = config_ops oe \<Longrightarrow> dstep dm (reconcileVolumes env dm)"
| timer: "tstep (dm_tracker dm) e tr \<Longrightarrow> dstep dm (dm\<lparr>dm_tracker := tr\<rparr>)"
| outside: "dstep dm (set_fs w dm)"

inductive dreach :: "daemon \<Rightarrow> daemon \<Rightarrow> bool" for dm0 where
  init: "dreach dm0 dm0"
| step: "dreach dm0 dm \<Longrightarrow> dstep dm dm' \<Longrightarrow> dreach dm0 dm'"

lemma dstep_ok: "dstep dm dm' \<Longrightarrow> daemon_ok dm \<Longrightarrow> daemon_ok dm'"
proof (induction rule: dstep.induct)
  case (timer dm e tr)
  then show ?case using tracker_inv_step by (simp add: daemon_ok_def)
qed (auto intro: server_handle_ok handleEvent_ok reconcileVolumes_ok simp: set_fs_ok)

lemma dreach_ok: "dreach dm0 dm \<Longrightarrow> daemon_ok dm0 \<Longrightarrow> daemon_ok dm"
  by (induction rule: dreach.induct) (auto intro: dstep_ok)

text \<open>\<open>New\<close>: the daemon that starts on a loaded ledger.\<close>

definition new_daemon :: "ledger \<Rightarrow> int \<Rightarrow> bool \<Rightarrow> fs \<Rightarrow> daemon" where
  "new_daemon lg timeout sink w = \<lparr>dm_world = \<lparr>wd_fs = w, wd_mem = \<lparr>lm_next = 0, lm_live = []\<rparr>\<rparr>, dm_ledger = lg,
     dm_sticky = [], dm_tracker = newClientTracker timeout sink, dm_alerts = []\<rparr>"

lemma new_daemon_ok: "ledger_ok lg \<Longrightarrow> daemon_ok (new_daemon lg timeout sink w)"
  by (simp add: new_daemon_def daemon_ok_def mem_ok_def sticky_ok_def)

section \<open>The reconcile pass\<close>

lemma manifest_name:
  "path_base DefaultManifestPath = ''manifest''"
  "path_rel volumeContainerRoot (path_clean DefaultManifestPath) = Some ''manifest''"
  by code_simp+

lemma rebase_manifest: "rebaseIntoVolume DefaultManifestPath m = Some (path_join m ''manifest'')"
  by (simp add: rebaseIntoVolume_def manifest_name)

lemma manifest_under:
  assumes "is_abs m"
  shows "\<not> is_temp (path_clean (path_join m ''manifest''))"
proof -
  have "list_all plain_elem [''manifest'']" by (simp add: plain_elem_def)
  from path_join_under(3) [OF assms this]
  have "path_clean (path_join m ''manifest'') = ''/'' @ join_slash (path_elems m @ [''manifest''])" by (simp add: path_of_def)
  moreover obtain p where "join_slash (path_elems m @ [''manifest'']) = p @ ''manifest''" using join_slash_last by blast
  ultimately have "path_clean (path_join m ''manifest'') = (''/'' @ p) @ ''manifest''" by simp
  then have "take 4 (rev (path_clean (path_join m ''manifest''))) \<noteq> rev ''.tmp''" by simp
  then show ?thesis by (auto dest!: is_temp_tmp)
qed

lemma is_abs_join: "is_abs a \<Longrightarrow> is_abs (path_join a b)"
proof -
  assume a: "is_abs a"
  then have "a \<noteq> []" "is_abs (a @ ''/'' @ b)" by (cases a; simp add: is_abs_def)+
  then show ?thesis using a path_clean_abs by (auto simp: path_join_def)
qed

lemma stat_no_faults:
  "fs_faults w = [] \<Longrightarrow> stat_dir env p w = (de_is_dir env p, w)"
  "fs_faults w = [] \<Longrightarrow> stat_file p w = (content w p \<noteq> None, w)"
  by (simp_all add: stat_dir_def stat_file_def sys_def next_fault_def)

lemma set_fs_same [simp]: "set_fs (wd_fs (dm_world dm)) dm = dm"
  by (simp add: set_fs_def)

lemma recordInjection_content:
  assumes "content (wd_fs (dm_world dm)) p \<noteq> None" "\<not> is_temp (path_clean p)"
  shows "content (wd_fs (dm_world (recordInjection env m dm))) p \<noteq> None"
proof -
  obtain e lg fs' where r: "RecordManifest (de_json env) (dm_ledger dm) (Some m) (de_later env) (wd_fs (dm_world dm)) = (e, lg, fs')"
    by (metis prod.exhaust)
  have "content fs' p \<noteq> None"
    using r
  proof (cases rule: RecordManifest_spec)
    case none
    then show ?thesis using assms(1) by simp
  next
    case (recorded m')
    show ?thesis
    proof (cases "lg_path lg = []")
      case True
      then show ?thesis using recorded(4) assms(1) by (simp add: ledger_save_def)
    next
      case False
      note s = ledger_save_spec [OF recorded(4) False]
      show ?thesis using s(1) [OF _ assms(2)] s(2) assms by (cases e; cases "path_clean p = path_clean (lg_path lg)") (auto simp: content_def)
    qed
  qed
  then show ?thesis by (simp add: recordInjection_def r)
qed

definition names_container :: "string \<Rightarrow> alert \<Rightarrow> bool" where
  "names_container cid a \<longleftrightarrow> map_of (al_fields a) ''container'' = Some cid \<and> al_level a = LevelError"

lemma pushVolume_serves:
  assumes "de_ops env = config_ops oe" "mem_ok (wd_mem (dm_world dm))" "is_abs (de_vol_root env)" "de_sink env"
    and man: "man = path_join (path_join (de_vol_root env) (volumeName c (p_service p))) ''manifest''"
  shows "content (wd_fs (dm_world (pushVolume env p c dm))) man \<noteq> None
    \<or> (\<exists>a. dm_alerts (pushVolume env p c dm) = dm_alerts dm @ [a] \<and> names_container (rc_id c) a)"
proof -
  let ?mount = "path_join (de_vol_root env) (volumeName c (p_service p))"
  obtain e w where a: "ApplyVolume (config_ops oe) (build_env_of env) (ToDelivery p) ?mount (dm_world dm) = (e, w)" by (metis prod.exhaust)
  have t: "\<not> is_temp (path_clean man)" unfolding man by (rule manifest_under [OF is_abs_join [OF assms(3)]])
  from a [unfolded ApplyVolume_def] assms(2) show ?thesis
  proof (cases rule: cfg.applyVolume_spec)
    case (failed x)
    then show ?thesis
      using a assms(1,4) by (simp add: pushVolume_def alertValidation_def add_alert_def names_container_def)
  next
    case (delivered w1 w2 m man')
    have "man' = man" using delivered(6) by (simp add: rebase_manifest man)
    then have c: "content (wd_fs w) man \<noteq> None" using delivered(7) by simp
    have c1: "content (wd_fs (dm_world (recordInjection env x (dm\<lparr>dm_world := w\<rparr>)))) man \<noteq> None" for x
      by (rule recordInjection_content) (use c t in simp_all)
    have "pushVolume env p c dm = (case BuildManifest (config_ops oe) (ToDelivery p) (de_rfc3339 env (de_now env)) of
        Inl x \<Rightarrow> dm\<lparr>dm_world := w\<rparr> | Inr m \<Rightarrow> recordInjection env m (dm\<lparr>dm_world := w\<rparr>))"
      by (simp add: pushVolume_def Let_def assms(1) a delivered(1))
    then show ?thesis using c c1 by (auto split: sum.splits)
  qed
qed

section \<open>Properties\<close>

lemma AList_delete_other: "map_of (AList.delete k m) j = (if j = k then None else map_of m j)"
  by (simp add: delete_conv')

text \<open>A fleet of one container that asks for a file and, in volume mode, one that is pushed it.\<close>

definition client_labels :: smap where
  "client_labels = [(''berm.enable'', ''true''), (''berm.file.pw.from'', ''PW''), (''berm.delivery'', ''client'')]"

definition volume_labels :: smap where
  "volume_labels = [(''berm.enable'', ''true''), (''berm.file.pw.from'', ''PW''), (''berm.delivery'', ''volume''), (''berm.volume'', ''vol'')]"

definition sample_container :: container where
  "sample_container = \<lparr>rc_id = ''c1'', rc_name = ''/web'', rc_service = ''webapp'', rc_labels = volume_labels\<rparr>"

definition sample_denv :: "opened denv" where
  "sample_denv = \<lparr>de_cfg = oe_cfg sample_opener, de_ops = config_ops sample_opener, de_def = MechClient, de_vol_root = ''/'',
     de_inspect = (\<lambda>c. Some sample_container), de_list = Some [sample_container], de_is_dir = (\<lambda>p. True), de_sink = True,
     de_now = 1, de_later = 2, de_rfc3339 = (\<lambda>t. ''t''), de_marshal = (\<lambda>m. mn_container m),
     de_parse = (\<lambda>d. Some \<lparr>mn_version = 1, mn_container = d, mn_service = [], mn_mechanism = MechVolume,
        mn_generated = [], mn_files = [], mn_renders = [], mn_env = []\<rparr>),
     de_flush_fails = (\<lambda>s. False), de_json = sample_json, de_render = (\<lambda>m. ''error'')\<rparr>"

definition sample_daemon :: daemon where
  "sample_daemon = new_daemon (NewLedger ''/led'') 30 True (wd_fs sample_world)"

definition sample_client :: identity where
  "sample_client = sample_identity\<lparr>id_labels := client_labels\<rparr>"

lemma sample_ops: "de_ops sample_denv = config_ops sample_opener" by (simp add: sample_denv_def)

text \<open>
  C4: no decrypted value outlives a request. In every state the daemon reaches from its start, by any
  sequence of connections (authenticated or not, well-formed or not, to a peer that takes the whole
  answer or hangs up anywhere), runtime events, reconcile passes, timer steps and changes other programs
  make to files, no locked buffer is live. The sticky errors kept for the operator are of the classes
  that concern secrets, under their own container's id, and the timers' state is consistent.
\<close>

theorem daemon_no_plaintext:
  assumes "ledger_ok lg" "dreach (new_daemon lg timeout sink w) dm"
  shows "lm_live (wd_mem (dm_world dm)) = []
    \<and> (\<forall>cid e. map_of (dm_sticky dm) cid = Some e \<longrightarrow> se_container e = cid \<and> (\<exists>c. class_sticky c \<and> se_class e = class_string c))
    \<and> tracker_inv (dm_tracker dm) \<and> ledger_ok (dm_ledger dm)"
  using dreach_ok [OF assms(2) new_daemon_ok [OF assms(1)]] by (auto simp: daemon_ok_def sticky_ok_def)

theorem daemon_no_plaintext_witness:
  "lm_live (wd_mem (dm_world (handleStart sample_denv ''c1'' (snd (handleFetch sample_denv (Inr sample_client) open_sink sample_daemon))))) = []"
proof -
  have d0: "dreach sample_daemon sample_daemon" by (rule dreach.init)
  have r: "ReadRequestHeader [ProtocolVersion, msgFetchRequest] = Inr (RequestFetch, [])" by code_simp
  obtain s' dm1 where h: "handleFetch sample_denv (Inr sample_client) open_sink sample_daemon = (s', dm1)" by (metis prod.exhaust)
  then have "server_handle sample_denv (Inr sample_client) [ProtocolVersion, msgFetchRequest] open_sink sample_daemon = (s', dm1)"
    by (simp add: server_handle_def r)
  from dreach.step [OF d0 dstep.conn [OF sample_ops this]] have d1: "dreach sample_daemon dm1" .
  have "dreach sample_daemon (handleStart sample_denv ''c1'' dm1)"
    using dreach.step [OF d1 dstep.runtime [OF sample_ops, of dm1 EventStart "''c1''"]] by (simp add: handleEvent_def)
  from daemon_no_plaintext [OF ledger_ok_new this [unfolded sample_daemon_def]] show ?thesis by (simp add: h)
qed

text \<open>
  a destroyed container is forgotten, and only it. Whatever the daemon knew of it (its ledger record, its
  sticky error, its expected fetch) is gone; every other container's is untouched, no alert is
  raised and no secret buffer changes. The expectation of any other container stays, with its timer.
\<close>

theorem destroy_forgets:
  "Record_lookup (dm_ledger (handleEvent env EventDestroy cid dm)) c = (if c = cid then None else Record_lookup (dm_ledger dm) c)
   \<and> map_of (dm_sticky (handleEvent env EventDestroy cid dm)) c = (if c = cid then None else map_of (dm_sticky dm) c)
   \<and> tk_pending (dm_tracker (handleEvent env EventDestroy cid dm)) c = (if c = cid then None else tk_pending (dm_tracker dm) c)
   \<and> dm_alerts (handleEvent env EventDestroy cid dm) = dm_alerts dm
   \<and> wd_mem (dm_world (handleEvent env EventDestroy cid dm)) = wd_mem (dm_world dm)"
proof -
  let ?lg = "dm_ledger dm"
  obtain e lg fs' where f: "Forget (de_json env) ?lg cid (wd_fs (dm_world dm)) = (e, lg, fs')" by (metis prod.exhaust)
  have "lg_records lg = AList.delete cid (lg_records ?lg) \<or> map_of (lg_records ?lg) cid = None \<and> lg = ?lg"
    using f by (auto simp: Forget_def Let_def split: option.splits prod.splits)
  then have "Record_lookup lg c = (if c = cid then None else Record_lookup ?lg c)"
    by (auto simp: Record_lookup_def AList_delete_other)
  moreover have "tk_pending (cancel cid (dm_tracker dm)) c = (if c = cid then None else tk_pending (dm_tracker dm) c)"
    by (simp add: cancel_def arrived_def stop_timer_def split: option.split timer.split)
  ultimately show ?thesis
    by (simp add: handleEvent_def f Let_def sticky_clear_def AList_delete_other)
qed

section \<open>The reconciler\<close>

lemma pushVolume_again:
  assumes "de_ops env = config_ops oe" "mem_ok (wd_mem (dm_world dm))" "is_abs (de_vol_root env)" "de_sink env"
    and mount: "mount = path_join (de_vol_root env) (volumeName c (p_service p))"
  shows "content (wd_fs (dm_world (pushVolume env p c dm))) (path_join mount ''manifest'') \<noteq> None
    \<or> (\<exists>a. dm_alerts (pushVolume env p c dm) = dm_alerts dm @ [a] \<and> names_container (rc_id c) a)
      \<and> (path_clean (path_join mount ''manifest'') \<notin> volume_targets (config_ops oe) (op_keys_of (oe_sops oe)) mount (ToDelivery p) \<longrightarrow>
           content (wd_fs (dm_world (pushVolume env p c dm))) (path_join mount ''manifest'') = content (wd_fs (dm_world dm)) (path_join mount ''manifest''))"
proof -
  let ?man = "path_join mount ''manifest''"
  obtain e w where a: "ApplyVolume (config_ops oe) (build_env_of env) (ToDelivery p) mount (dm_world dm) = (e, w)" by (metis prod.exhaust)
  have t: "\<not> is_temp (path_clean ?man)" unfolding mount by (rule manifest_under [OF is_abs_join [OF assms(3)]])
  show ?thesis
  proof (cases e)
    case None
    then have "\<not> (\<exists>a. dm_alerts (pushVolume env p c dm) = dm_alerts dm @ [a] \<and> names_container (rc_id c) a)"
      using a assms(1) by (auto simp: pushVolume_def mount Let_def recordInjection_def split: sum.split prod.split)
    with pushVolume_serves [OF assms(1-4) refl] show ?thesis unfolding mount by (metis (no_types))
  next
    case (Some x)
    then have p: "pushVolume env p c dm = snd (alertValidation env (rc_id c) (p_service p) None (dm\<lparr>dm_world := w\<rparr>))"
      using a assms(1) by (simp add: pushVolume_def mount)
    have al: "\<exists>a. dm_alerts (pushVolume env p c dm) = dm_alerts dm @ [a] \<and> names_container (rc_id c) a"
      using assms(4) by (simp add: p alertValidation_def add_alert_def names_container_def)
    from a [unfolded ApplyVolume_def] assms(2)
    have "same_outside (volume_targets (config_ops oe) (op_keys_of (oe_sops oe)) mount (ToDelivery p)) (wd_fs (dm_world dm)) (wd_fs w)"
      by (cases rule: cfg.applyVolume_spec) (use Some in auto)
    then show ?thesis using al t by (auto simp: p same_outside_def content_def)
  qed
qed

text \<open>Every container of a pass gets its turn, in order; a step only adds alerts and keeps locked memory in order.\<close>

lemma pushVolume_mem:
  assumes "mem_ok (wd_mem (dm_world dm))" "de_ops env = config_ops oe"
  shows "mem_ok (wd_mem (dm_world (pushVolume env p c dm)))"
proof -
  let ?mount = "path_join (de_vol_root env) (volumeName c (p_service p))"
  obtain e w where a: "ApplyVolume (config_ops oe) (build_env_of env) (ToDelivery p) ?mount (dm_world dm) = (e, w)" by (metis prod.exhaust)
  then have "mem_same (wd_mem (dm_world dm)) (wd_mem w)"
    using assms(1) [THEN cfg.applyVolume_spec [OF a [unfolded ApplyVolume_def]]] by auto
  then show ?thesis
    unfolding pushVolume_def Let_def assms(2) a prod.case using assms(1) by (auto simp: mem_same_def split: option.split sum.split)
qed

lemma alertValidation_alerts: "\<exists>new. dm_alerts (snd (alertValidation env cid svc err dm)) = dm_alerts dm @ new"
  by (simp add: alertValidation_def Let_def add_alert_def split: option.split)

lemma recordInjection_alerts [simp]: "dm_alerts (recordInjection env m dm) = dm_alerts dm"
  by (simp add: recordInjection_def split: prod.split)

lemma pushVolume_alerts: "\<exists>new. dm_alerts (pushVolume env p c dm) = dm_alerts dm @ new"
proof -
  obtain e w where a: "ApplyVolume (de_ops env) (build_env_of env) (ToDelivery p) (path_join (de_vol_root env) (volumeName c (p_service p))) (dm_world dm)
      = (e, w)" by (metis prod.exhaust)
  show ?thesis
    unfolding pushVolume_def Let_def a prod.case
    using alertValidation_alerts [of env "rc_id c" "p_service p" None "dm\<lparr>dm_world := w\<rparr>"] by (auto split: option.split sum.split)
qed

lemma set_fs_simps [simp]: "dm_alerts (set_fs w dm) = dm_alerts dm" "wd_mem (dm_world (set_fs w dm)) = wd_mem (dm_world dm)" "wd_fs (dm_world (set_fs w dm)) = w"
  by (simp_all add: set_fs_def)

text \<open>The containers the reconciler serves: those whose labels resolve to a volume-mode plan.\<close>

definition volume_plan :: "'h denv \<Rightarrow> container \<Rightarrow> plan \<Rightarrow> bool" where
  "volume_plan env c p \<longleftrightarrow> (\<exists>svc. ServiceName c = Inr svc \<and> Resolve (daemon_input env (rc_labels c) (rc_id c) svc) = Inr (Some p)
     \<and> p_mechanism p = MechVolume)"

lemma reconcile_one_other: "(\<And>p. \<not> volume_plan env c p) \<Longrightarrow> reconcile_one env c dm = dm"
  by (auto simp: reconcile_one_def volume_plan_def split: sum.split option.split)

lemma reconcile_one_volume:
  assumes "volume_plan env c p" "mount = path_join (de_vol_root env) (volumeName c (p_service p))"
    and "stat_dir env mount (wd_fs (dm_world dm)) = (there, w1)" "stat_file (path_join mount ''manifest'') w1 = (ready, w2)"
  shows "reconcile_one env c dm = (if \<not> there then set_fs w1 dm else if ready then set_fs w2 dm else pushVolume env p c (set_fs w2 dm))"
  using assms by (auto simp: reconcile_one_def volume_plan_def manifest_name Let_def)

lemma reconcile_one_cases:
  obtains (quiet) w where "reconcile_one env c dm = set_fs w dm" | (push) p w where "reconcile_one env c dm = pushVolume env p c (set_fs w dm)"
proof (cases "\<exists>p. volume_plan env c p")
  case True
  then obtain p where p: "volume_plan env c p" by blast
  let ?mount = "path_join (de_vol_root env) (volumeName c (p_service p))"
  obtain there w1 where d: "stat_dir env ?mount (wd_fs (dm_world dm)) = (there, w1)" by (metis prod.exhaust)
  obtain ready w2 where f: "stat_file (path_join ?mount ''manifest'') w1 = (ready, w2)" by (metis prod.exhaust)
  from reconcile_one_volume [OF p refl d f] quiet push show thesis by (cases there; cases ready) simp_all
next
  case False
  then have "reconcile_one env c dm = set_fs (wd_fs (dm_world dm)) dm" using reconcile_one_other [of env c dm] by simp
  then show thesis by (rule quiet)
qed

lemma reconcile_one_alerts: "\<exists>new. dm_alerts (reconcile_one env c dm) = dm_alerts dm @ new"
proof (cases rule: reconcile_one_cases [of env c dm])
  case (push p w)
  then show ?thesis using pushVolume_alerts [of env p c "set_fs w dm"] by simp
qed simp

lemma reconcile_one_mem:
  assumes "mem_ok (wd_mem (dm_world dm))" "de_ops env = config_ops oe"
  shows "mem_ok (wd_mem (dm_world (reconcile_one env c dm)))"
proof (cases rule: reconcile_one_cases [of env c dm])
  case (push p w)
  then show ?thesis using pushVolume_mem [of "set_fs w dm" env oe p c] assms by simp
qed (simp add: assms(1))

lemma reconcile_fold_alerts: "\<exists>new. dm_alerts (fold (reconcile_one env) cs dm) = dm_alerts dm @ new"
proof (induction cs arbitrary: dm)
  case (Cons c cs)
  show ?case using Cons.IH [of "reconcile_one env c dm"] reconcile_one_alerts [of env c dm] by auto
qed simp

lemma reconcile_fold_mem:
  "mem_ok (wd_mem (dm_world dm)) \<Longrightarrow> de_ops env = config_ops oe \<Longrightarrow> mem_ok (wd_mem (dm_world (fold (reconcile_one env) cs dm)))"
  by (induction cs arbitrary: dm) (simp_all add: reconcile_one_mem)

lemma sys_content: "sys w = (ok, w') \<Longrightarrow> content w' p = content w p"
  by (auto simp: sys_def next_fault_def content_def Let_def split: list.splits)

text \<open>
  C13: what a reconcile pass does for a container. Let \<open>c\<close> be any container of the listing and \<open>dm1\<close> the daemon when its turn comes, whatever the
  containers before it did and whichever system calls fail. If its labels do not resolve to a volume-mode plan, its turn changes nothing and no alert is raised, for
  a validation error neither. If they do: a volume that is not mounted is skipped silently, and so is one whose manifest is there; otherwise, with an alert
  sink configured and an absolute volume root, the turn leaves the manifest in place or raises an error alert that names the container, and then (unless the plan has a file on
  the manifest's path) the manifest is as absent as before, so that the next pass pushes, and alerts, again: the comments that promise no alert on every interval
  hold for validation errors only. The alerts of the turn are among those of the pass.
\<close>

theorem reconcile_serves_or_alerts:
  assumes "de_ops env = config_ops oe" "mem_ok (wd_mem (dm_world dm))" "is_abs (de_vol_root env)" "de_sink env"
    and "de_list env = Some (cs1 @ c # cs2)" "dm1 = fold (reconcile_one env) cs1 dm" "dm2 = reconcile_one env c dm1"
  shows "(\<exists>new. dm_alerts (reconcileVolumes env dm) = dm_alerts dm2 @ new)
    \<and> ((\<forall>p. \<not> volume_plan env c p) \<longrightarrow> dm2 = dm1)
    \<and> (\<forall>p. volume_plan env c p \<longrightarrow>
        (let mount = path_join (de_vol_root env) (volumeName c (p_service p)); man = path_join mount ''manifest'';
             (there, w1) = stat_dir env mount (wd_fs (dm_world dm1)); (ready, w2) = stat_file man w1 in
         if \<not> there then dm2 = set_fs w1 dm1
         else if ready then dm2 = set_fs w2 dm1
         else content (wd_fs (dm_world dm2)) man \<noteq> None
           \<or> (\<exists>a. dm_alerts dm2 = dm_alerts dm1 @ [a] \<and> names_container (rc_id c) a)
             \<and> (path_clean man \<notin> volume_targets (config_ops oe) (op_keys_of (oe_sops oe)) mount (ToDelivery p) \<longrightarrow>
                  content (wd_fs (dm_world dm2)) man = content (wd_fs (dm_world dm1)) man)))"
proof (intro conjI allI impI)
  show "\<exists>new. dm_alerts (reconcileVolumes env dm) = dm_alerts dm2 @ new"
    using reconcile_fold_alerts [of env cs2 dm2] by (simp add: reconcileVolumes_def assms(5-7))
  show "dm2 = dm1" if "\<forall>p. \<not> volume_plan env c p" using reconcile_one_other that assms(7) by blast
next
  fix p assume p: "volume_plan env c p"
  let ?mount = "path_join (de_vol_root env) (volumeName c (p_service p))"
  let ?man = "path_join ?mount ''manifest''"
  obtain there w1 where d: "stat_dir env ?mount (wd_fs (dm_world dm1)) = (there, w1)" by (metis prod.exhaust)
  obtain ready w2 where f: "stat_file ?man w1 = (ready, w2)" by (metis prod.exhaust)
  have w: "content w2 ?man = content (wd_fs (dm_world dm1)) ?man"
    using d f by (auto simp: stat_dir_def stat_file_def sys_content split: prod.splits)
  have "mem_ok (wd_mem (dm_world (set_fs w2 dm1)))"
    using reconcile_fold_mem [OF assms(2,1), of cs1] by (simp add: assms(6))
  from pushVolume_again [OF assms(1) this assms(3,4) refl, where c = c and p = p] w
  have push: "content (wd_fs (dm_world (pushVolume env p c (set_fs w2 dm1)))) ?man \<noteq> None
      \<or> (\<exists>a. dm_alerts (pushVolume env p c (set_fs w2 dm1)) = dm_alerts dm1 @ [a] \<and> names_container (rc_id c) a)
        \<and> (path_clean ?man \<notin> volume_targets (config_ops oe) (op_keys_of (oe_sops oe)) ?mount (ToDelivery p) \<longrightarrow>
             content (wd_fs (dm_world (pushVolume env p c (set_fs w2 dm1)))) ?man = content (wd_fs (dm_world dm1)) ?man)" by simp
  have "dm2 = (if \<not> there then set_fs w1 dm1 else if ready then set_fs w2 dm1 else pushVolume env p c (set_fs w2 dm1))"
    unfolding assms(7) by (rule reconcile_one_volume [OF p refl d f])
  with push show "let mount = ?mount; man = path_join mount ''manifest'';
             (there, w1) = stat_dir env mount (wd_fs (dm_world dm1)); (ready, w2) = stat_file man w1 in
         if \<not> there then dm2 = set_fs w1 dm1
         else if ready then dm2 = set_fs w2 dm1
         else content (wd_fs (dm_world dm2)) man \<noteq> None
           \<or> (\<exists>a. dm_alerts dm2 = dm_alerts dm1 @ [a] \<and> names_container (rc_id c) a)
             \<and> (path_clean man \<notin> volume_targets (config_ops oe) (op_keys_of (oe_sops oe)) mount (ToDelivery p) \<longrightarrow>
                  content (wd_fs (dm_world dm2)) man = content (wd_fs (dm_world dm1)) man)"
    unfolding Let_def d prod.case f by (cases there; cases ready) simp_all
qed

definition failing_daemon :: daemon where
  "failing_daemon = set_fs ((wd_fs sample_world)\<lparr>fs_tmpfs := (\<lambda>d. False)\<rparr>) sample_daemon"

lemma sample_pushes:
  "ServiceName sample_container = Inr ''webapp''"
  "case Resolve (daemon_input sample_denv (rc_labels sample_container) (rc_id sample_container) ''webapp'') of
     Inr (Some p) \<Rightarrow> p_mechanism p = MechVolume \<and> p_service p = ''webapp'' | _ \<Rightarrow> False"
  "volumeName sample_container ''webapp'' = ''vol''" "path_join ''/'' ''vol'' = ''/vol''" "path_join ''/vol'' ''manifest'' = ''/vol/manifest''"
  "content (wd_fs (dm_world (reconcile_one sample_denv sample_container failing_daemon))) ''/vol/manifest'' = None"
  "is_abs ''/''"
  by code_simp+

theorem reconcile_serves_or_alerts_witness:
  "\<exists>a. dm_alerts (reconcileVolumes sample_denv failing_daemon) = [a] \<and> names_container ''c1'' a"
proof -
  obtain p where p: "Resolve (daemon_input sample_denv (rc_labels sample_container) (rc_id sample_container) ''webapp'') = Inr (Some p)"
    "p_mechanism p = MechVolume" "p_service p = ''webapp''"
    using sample_pushes(2) by (auto split: sum.splits option.splits)
  have v: "volume_plan sample_denv sample_container p" using sample_pushes(1) p(1,2) by (auto simp: volume_plan_def)
  have d: "mem_ok (wd_mem (dm_world failing_daemon))" "fs_faults (wd_fs (dm_world failing_daemon)) = []"
    "dm_alerts failing_daemon = []" "content (wd_fs (dm_world failing_daemon)) ''/vol/manifest'' = None"
    by (simp_all add: failing_daemon_def sample_daemon_def new_daemon_def set_fs_def mem_ok_def sample_world_def content_def)
  have e: "is_abs (de_vol_root sample_denv)" "de_sink sample_denv" "de_is_dir sample_denv ''/vol''"
    "de_list sample_denv = Some ([] @ sample_container # [])" "de_vol_root sample_denv = ''/''"
    by (simp_all add: sample_denv_def sample_pushes)
  have all: "reconcileVolumes sample_denv failing_daemon = reconcile_one sample_denv sample_container failing_daemon"
    by (simp add: reconcileVolumes_def e(4))
  let ?dm2 = "reconcile_one sample_denv sample_container (fold (reconcile_one sample_denv) [] failing_daemon)"
  have dm2: "?dm2 = reconcile_one sample_denv sample_container failing_daemon" by simp
  note h = reconcile_serves_or_alerts [OF sample_ops d(1) e(1,2,4) refl refl, THEN conjunct2, THEN conjunct2, rule_format, OF v]
  have mount: "path_join (de_vol_root sample_denv) (volumeName sample_container (p_service p)) = ''/vol''" by (simp add: p(3) e(5) sample_pushes)
  have cid: "rc_id sample_container = ''c1''" by (simp add: sample_container_def)
  show ?thesis
    using h unfolding mount Let_def dm2 all fold_simps stat_no_faults(1) [OF d(2)] prod.case stat_no_faults(2) [OF d(2)] sample_pushes(5,6) d(3,4) cid
    by (simp add: e(3))
qed

end
