(* ===== verification/Daemon_Report.thy ===== *)
theory Daemon_Report
  imports Daemon_Control Wire_File "HOL-Library.Multiset"
begin

text \<open>
  \<open>internal/daemon/heartbeat.go\<close>, \<open>digest.go\<close>, \<open>status.go\<close> and \<open>internal/cli/healthz.go\<close>: what the daemon tells its operator.
  A \<open>time.Time\<close> is its count of nanoseconds since 1970 and a \<open>time.Duration\<close> its count of nanoseconds.
\<close>

section \<open>Decimal numbers\<close>

definition digit_char :: "nat \<Rightarrow> char" where "digit_char n = char_of (48 + n)"

fun dec_nat :: "nat \<Rightarrow> string" where
  "dec_nat n = (if n < 10 then [digit_char n] else dec_nat (n div 10) @ [digit_char (n mod 10)])"

declare dec_nat.simps [simp del]

text \<open>\<open>strconv.Itoa\<close> and \<open>strconv.FormatInt\<close> to base 10.\<close>

definition itoa :: "int \<Rightarrow> string" where
  "itoa i = (if i < 0 then CHR ''-'' # dec_nat (nat (- i)) else dec_nat (nat i))"

lemma digit_char: "n < 10 \<Longrightarrow> is_digit (digit_char n) \<and> digit_val (digit_char n) = int n"
proof -
  assume "n < 10"
  then have "(of_char (digit_char n) :: nat) = 48 + n" by (simp add: digit_char_def)
  then show ?thesis using \<open>n < 10\<close> by (simp add: is_digit_def digit_val_def)
qed

lemma digits_val_append: "digits_val b (xs @ ys) acc = digits_val b ys (digits_val b xs acc)"
  by (induction b xs acc rule: digits_val.induct) simp_all

lemma dec_nat: "list_all is_digit (dec_nat n) \<and> dec_nat n \<noteq> [] \<and> digits_val 10 (dec_nat n) 0 = int n"
proof (induction n rule: dec_nat.induct)
  case (1 n)
  show ?case
  proof (cases "n < 10")
    case True
    then show ?thesis using digit_char by (simp add: dec_nat.simps)
  next
    case False
    then have "dec_nat n = dec_nat (n div 10) @ [digit_char (n mod 10)]" by (subst dec_nat.simps) simp
    moreover have "int (n div 10) * 10 + int (n mod 10) = int n" by (simp add: zdiv_int zmod_int)
    ultimately show ?thesis using 1 False digit_char [of "n mod 10"] by (simp add: digits_val_append)
  qed
qed

lemma dec_nat_digits1: "digits1 (dec_nat n)"
  by (simp add: digits1_def dec_nat)

lemma atoi_itoa: "- (2 ^ 63) \<le> i \<Longrightarrow> i < 2 ^ 63 \<Longrightarrow> atoi (itoa i) = Some i"
proof -
  assume b: "- (2 ^ 63) \<le> i" "i < 2 ^ 63"
  show ?thesis
  proof (cases "i < 0")
    case True
    then show ?thesis using b dec_nat_digits1 dec_nat by (simp add: itoa_def atoi_def)
  next
    case False
    then show ?thesis using b digits1_atoi [OF dec_nat_digits1, of "nat i"] dec_nat by (simp add: itoa_def)
  qed
qed

lemma is_digit_or_sign:
  "c \<in> set (itoa i) \<Longrightarrow> is_digit c \<or> c = CHR ''-''"
  using dec_nat by (auto simp: itoa_def list_all_iff split: if_splits)

lemma itoa_ends: "\<exists>a b xs ys. itoa i = a # xs \<and> itoa i = ys @ [b] \<and> (is_digit a \<or> a = CHR ''-'') \<and> (is_digit b \<or> b = CHR ''-'')"
proof -
  have "itoa i \<noteq> []" using dec_nat by (simp add: itoa_def)
  then obtain a xs where a: "itoa i = a # xs" by (cases "itoa i") auto
  obtain ys b where "itoa i = ys @ [b]" using \<open>itoa i \<noteq> []\<close> by (cases "itoa i" rule: rev_cases) auto
  then have "b \<in> set (itoa i)" by simp
  moreover have "a \<in> set (itoa i)" using a by simp
  ultimately show ?thesis using a \<open>itoa i = ys @ [b]\<close> is_digit_or_sign by metis
qed

lemma not_space:
  assumes "is_digit a \<or> a = CHR ''-''"
  shows "space_len (a # s) = 0" "space_len_rev (a # s) = 0"
proof -
  have "of_char a < (58 :: nat)" "(44 :: nat) < of_char a" using assms by (auto simp: is_digit_def Let_def)
  then have "a \<noteq> CHR 0x09" "a \<noteq> CHR 0x0A" "a \<noteq> CHR 0x0B" "a \<noteq> CHR 0x0C" "a \<noteq> CHR 0x0D" "a \<noteq> CHR '' ''"
    "a \<notin> {CHR 0xC2, CHR 0xE1, CHR 0xE2, CHR 0xE3, CHR 0x85, CHR 0xA0, CHR 0x80, CHR 0xA8, CHR 0xA9, CHR 0xAF, CHR 0x9F,
       CHR 0x81, CHR 0x82, CHR 0x83, CHR 0x84, CHR 0x86, CHR 0x87, CHR 0x88, CHR 0x89, CHR 0x8A}" by auto
  then show "space_len (a # s) = 0" "space_len_rev (a # s) = 0" by (auto simp: space_len_def space_len_rev_def go_spaces_code)
qed

lemma trim_number: "trim_space (itoa i @ [newline]) = itoa i"
proof -
  obtain a b xs ys where i: "itoa i = a # xs" "itoa i = ys @ [b]" "is_digit a \<or> a = CHR ''-''" "is_digit b \<or> b = CHR ''-''"
    using itoa_ends by blast
  let ?t = "itoa i @ [newline]"
  have l: "trim_left_fuel (length ?t) ?t = ?t" using not_space [OF i(3)] by (simp add: i(1))
  have r: "rev ?t = newline # b # rev ys" by (simp add: i(2))
  have "space_len_rev (newline # s) = 1" for s
    by (simp add: space_len_rev_def go_spaces_code newline_def)
  then have "trim_right_fuel (length ?t) (rev ?t) = b # rev ys"
    using not_space [OF i(4)] by (simp add: r) (simp add: i(2))
  then show ?thesis unfolding trim_space_def l Let_def by (simp add: i(2))
qed

section \<open>The heartbeat\<close>

definition DefaultHeartbeatPath :: string where "DefaultHeartbeatPath = ''/run/berm-health/heartbeat''"
definition DefaultHeartbeatStaleAfter :: int where "DefaultHeartbeatStaleAfter = 3 * DefaultReconcileInterval"

definition WriteHeartbeat :: "string \<Rightarrow> int \<Rightarrow> fs \<Rightarrow> file_error option \<times> fs" where
  "WriteHeartbeat path t w =
     (let owner = itoa (fs_uid w) in WriteBytesFile path owner ''0644'' False (itoa t @ [newline]) w)"

datatype heartbeat_error = BeatMissing | BeatUnreadable | BeatMalformed

definition ReadHeartbeat :: "string \<Rightarrow> fs \<Rightarrow> (heartbeat_error + int) \<times> fs" where
  "ReadHeartbeat path w =
     (let (ok, w') = sys w in
      if \<not> ok then (Inl BeatUnreadable, w')
      else (case content w' path of
              None \<Rightarrow> (Inl BeatMissing, w')
            | Some b \<Rightarrow> (case atoi (trim_space b) of None \<Rightarrow> Inl BeatMalformed | Some ns \<Rightarrow> Inr ns, w')))"

text \<open>\<open>Time.Sub\<close> stays within the range of a duration.\<close>

definition time_sub :: "int \<Rightarrow> int \<Rightarrow> int" where
  "time_sub a b = max (- (2 ^ 63)) (min (2 ^ 63 - 1) (a - b))"

definition HeartbeatFresh :: "string \<Rightarrow> int \<Rightarrow> int \<Rightarrow> fs \<Rightarrow> (heartbeat_error + bool \<times> int) \<times> fs" where
  "HeartbeatFresh path now staleAfter w =
     (case ReadHeartbeat path w of
        (Inl e, w') \<Rightarrow> (Inl e, w')
      | (Inr hb, w') \<Rightarrow>
          let age = time_sub now hb; age = (if age < 0 then 0 else age) in (Inr (age \<le> staleAfter, age), w'))"

text \<open>\<open>berm healthz\<close>: what it prints, an error status unless healthy.\<close>

datatype health = NoHeartbeat string | HeartbeatUnreadable string | StaleHeartbeat string int int | Healthy int int

definition Healthz :: "string \<Rightarrow> int \<Rightarrow> int \<Rightarrow> fs \<Rightarrow> health \<times> fs" where
  "Healthz path staleAfter now w =
     (case HeartbeatFresh path now staleAfter w of
        (Inl e, w') \<Rightarrow> (if e = BeatMissing then NoHeartbeat path else HeartbeatUnreadable path, w')
      | (Inr (fresh, age), w') \<Rightarrow> (if \<not> fresh then StaleHeartbeat path age staleAfter else Healthy age staleAfter, w'))"

definition health_ok :: "health \<Rightarrow> bool" where
  "health_ok h = (case h of Healthy age staleAfter \<Rightarrow> True | _ \<Rightarrow> False)"

definition beat :: "string \<Rightarrow> 'h denv \<Rightarrow> daemon \<Rightarrow> daemon" where
  "beat path env dm =
     (if path = [] then dm else set_fs (snd (WriteHeartbeat path (de_now env) (wd_fs (dm_world dm)))) dm)"

text \<open>One turn of \<open>runReconcile\<close>: the pass, then the beat.\<close>

definition reconcile_turn :: "string \<Rightarrow> 'h denv \<Rightarrow> daemon \<Rightarrow> daemon" where
  "reconcile_turn path env dm = beat path env (reconcileVolumes env dm)"

lemma content_faults [simp]: "content (w\<lparr>fs_faults := x\<rparr>) p = content w p"
  by (simp add: content_def)

lemma Healthz_quiet:
  "fs_faults w = [] \<Longrightarrow> fst (Healthz path staleAfter now w) =
     (case content w path of
        None \<Rightarrow> NoHeartbeat path
      | Some b \<Rightarrow> (case atoi (trim_space b) of
           None \<Rightarrow> HeartbeatUnreadable path
         | Some t \<Rightarrow> if max 0 (time_sub now t) \<le> staleAfter then Healthy (max 0 (time_sub now t)) staleAfter
             else StaleHeartbeat path (max 0 (time_sub now t)) staleAfter))"
  by (simp add: Healthz_def HeartbeatFresh_def ReadHeartbeat_def sys_def next_fault_def Let_def max_def split: option.split)

section \<open>Properties of the heartbeat\<close>

text \<open>
  C31: the probe follows the last beat that was written. After a beat at time \<open>t\<close>, the probe is healthy exactly while at most
  \<open>staleAfter\<close> has passed since \<open>t\<close>; a beat that could not be written leaves the previous one in force, so a daemon
  that cannot write, or whose reconcile loop hangs, turns unhealthy by itself.
\<close>

theorem healthz_follows_beats:
  assumes "WriteHeartbeat path t w = (e, w')" "\<not> is_temp (path_clean path)" "0 \<le> t" "t < 2 ^ 63" "0 \<le> now" "now < 2 ^ 63"
    and "0 \<le> staleAfter"
  shows "case e of
      None \<Rightarrow> health_ok (fst (Healthz path staleAfter now (w'\<lparr>fs_faults := []\<rparr>))) = (now - t \<le> staleAfter)
    | Some x \<Rightarrow> fst (Healthz path staleAfter now (w'\<lparr>fs_faults := []\<rparr>)) = fst (Healthz path staleAfter now (w\<lparr>fs_faults := []\<rparr>))"
proof (cases e)
  case None
  have "content w' path = Some (itoa t @ [newline])"
    using bytes.done_ok assms(1) None by (auto simp: WriteHeartbeat_def Let_def)
  moreover have "atoi (itoa t) = Some t" using assms(3,4) by (simp add: atoi_itoa)
  moreover have "time_sub now t = now - t" using assms(3-6) by (simp add: time_sub_def)
  ultimately have "fst (Healthz path staleAfter now (w'\<lparr>fs_faults := []\<rparr>)) =
      (if max 0 (now - t) \<le> staleAfter then Healthy (max 0 (now - t)) staleAfter else StaleHeartbeat path (max 0 (now - t)) staleAfter)"
    by (simp add: Healthz_quiet trim_number)
  then show ?thesis using assms(7) None by (simp add: health_ok_def)
next
  case (Some x)
  have "fs_files w' (path_clean path) = fs_files w (path_clean path)"
    using bytes.done_err [OF _ assms(2)] assms(1) Some by (auto simp: WriteHeartbeat_def Let_def)
  then have "content w' path = content w path" by (simp add: content_def)
  then show ?thesis using Some by (simp add: Healthz_quiet)
qed

definition sample_beat :: "nat option list \<Rightarrow> file_error option \<times> fs" where
  "sample_beat faults = WriteHeartbeat ''/h'' 7 (sample_fs\<lparr>fs_faults := faults\<rparr>)"

theorem healthz_follows_beats_witness:
  "health_ok (fst (Healthz ''/h'' 6 13 ((snd (sample_beat []))\<lparr>fs_faults := []\<rparr>)))
   \<and> \<not> health_ok (fst (Healthz ''/h'' 6 14 ((snd (sample_beat []))\<lparr>fs_faults := []\<rparr>)))"
proof -
  have "fst (sample_beat []) = None" by code_simp
  then obtain w' where r: "sample_beat [] = (None, w')" by (cases "sample_beat []") auto
  have p: "path_clean ''/h'' = ''/h''" by code_simp
  have nt: "\<not> is_temp (path_clean ''/h'')" unfolding p by (rule not_temp) simp
  note h = healthz_follows_beats [OF r [unfolded sample_beat_def] nt]
  from h [of 13 6] h [of 14 6] r show ?thesis by simp
qed

section \<open>The digest\<close>

text \<open>
  \<open>strings.ToLower\<close>, as far as a comparison with an ASCII word can tell: the capitals, and the two
  other characters whose lower case is an ASCII letter (U+0130 and the Kelvin sign).
\<close>

definition lower_char :: "char \<Rightarrow> char" where
  "lower_char c = (let n = of_char c :: nat in if 65 \<le> n \<and> n \<le> 90 then char_of (n + 32) else c)"

fun go_lower :: "string \<Rightarrow> string" where
  "go_lower [] = []"
| "go_lower (c # s) =
     (if has_prefix (c # s) [CHR 0xC4, CHR 0xB0] then CHR ''i'' # go_lower (drop 1 s)
      else if has_prefix (c # s) [CHR 0xE2, CHR 0x84, CHR 0xAA] then CHR ''k'' # go_lower (drop 2 s)
      else lower_char c # go_lower s)"

definition parseSchedule :: "(string \<Rightarrow> int option) \<Rightarrow> string \<Rightarrow> int" where
  "parseSchedule parse_duration s =
     (let t = go_lower (trim_space s) in
      if t = [] \<or> t = ''daily'' then 24 * 3600 * nano_second
      else if t = ''hourly'' then 3600 * nano_second
      else if t = ''weekly'' then 7 * 24 * 3600 * nano_second
      else case parse_duration s of Some d \<Rightarrow> if d > 0 then d else 0 | None \<Rightarrow> 0)"

definition shortID :: "string \<Rightarrow> string" where
  "shortID i = (if length i > 12 then take 12 i else i)"

record notification =
  nt_title :: string
  nt_body :: "msg list"
  nt_level :: level
  nt_fields :: smap

definition drift_line :: "drift \<Rightarrow> msg" where
  "drift_line dr = Msg ''  - %s (%s) source %q: %s'' [shortID (dr_container dr), dr_service dr, dr_source dr,
     if dr_missing dr then ''source now missing'' else ''changed'']"

definition sticky_line :: "('h denv \<Rightarrow> msg \<Rightarrow> string) \<Rightarrow> 'h denv \<Rightarrow> sticky_error \<Rightarrow> msg" where
  "sticky_line render env se = Msg ''  - %s (%s) [%s]: %s''
     [shortID (se_container se), se_service se, se_class se, render env (se_message se)]"

text \<open>The body is its list of lines; \<open>sort.Slice\<close> orders them, entries with equal keys in some order.\<close>

definition composeDigest :: "'h denv \<Rightarrow> drift list \<Rightarrow> sticky_error list \<Rightarrow> int \<Rightarrow> notification" where
  "composeDigest env ds ss now =
     \<lparr>nt_title = ''berm staleness digest'',
      nt_body = Msg ''berm staleness digest %s'' [de_rfc3339 env now]
        # (if ds = [] \<and> ss = [] then [Msg ''no drift, no sticky validation errors: every injected secret is current.'' []] else [])
        @ (if ds \<noteq> [] then Msg ''Drift (%d): sources changed since last injection, recreate to pick up:'' [itoa (int (length ds))]
             # map drift_line (sort_key (\<lambda>d. (dr_service d, dr_source d)) ds) else [])
        @ (if ss \<noteq> [] then Msg ''Sticky validation errors (%d): secrets-affecting, fix and recreate:'' [itoa (int (length ss))]
             # map (sticky_line de_render env) (sort_key (\<lambda>s. (se_service s, se_container s)) ss) else []),
      nt_level = (if ss \<noteq> [] then LevelError else if ds \<noteq> [] then LevelWarning else LevelInfo),
      nt_fields = [(''drift'', itoa (int (length ds))), (''sticky'', itoa (int (length ss)))]\<rparr>"

definition digestSchedule :: "string \<Rightarrow> config option \<Rightarrow> string" where
  "digestSchedule own co =
     (if own \<noteq> [] then own
      else case co of
        Some cfg \<Rightarrow> if g_digest_schedule (c_globals cfg) \<noteq> [] then g_digest_schedule (c_globals cfg) else ''daily''
      | None \<Rightarrow> ''daily'')"

text \<open>\<open>SendDigest\<close>: the notification handed to the sink, none without one.\<close>

definition SendDigest :: "'h denv \<Rightarrow> (string \<Rightarrow> open_error + string) \<Rightarrow> daemon \<Rightarrow> notification option" where
  "SendDigest env hs dm =
     (let ds = Drift hs (dm_ledger dm); ss = sticky_list (dm_sticky dm); n = composeDigest env ds ss (de_now env) in
      if de_sink env then Some n else None)"

section \<open>The status report\<close>

record container_status =
  cs_container :: string
  cs_service :: string
  cs_mechanism :: string
  cs_env_exposure :: bool
  cs_injected :: bool
  cs_last_injected :: "int option"
  cs_drifted :: "string list"
  cs_error_class :: string
  cs_error_message :: "msg option"
  cs_sticky :: bool

text \<open>\<open>driftByContainer\<close>, and one row: the zero time is \<^const>\<open>None\<close>.\<close>

definition drift_by :: "drift list \<Rightarrow> string \<Rightarrow> string list" where
  "drift_by ds cid = map dr_source (filter (\<lambda>d. dr_container d = cid) ds)"

definition status_service :: "container \<Rightarrow> string" where
  "status_service c = (case ServiceName c of Inl e \<Rightarrow> [] | Inr s \<Rightarrow> s)"

definition status_input :: "config \<Rightarrow> mechanism \<Rightarrow> container \<Rightarrow> resolve_input" where
  "status_input cfg def c = \<lparr>in_labels = rc_labels c, in_container_id = rc_id c, in_service = status_service c,
     in_container_user = [], in_config = Some cfg, in_default_delivery = def\<rparr>"

definition status_row :: "config \<Rightarrow> mechanism \<Rightarrow> ledger \<Rightarrow> drift list \<Rightarrow> container \<Rightarrow> container_status option" where
  "status_row cfg def lg ds c =
     (let svc = status_service c; r = Resolve (status_input cfg def c) in
      if r = Inr None then None
      else let st = \<lparr>cs_container = rc_id c, cs_service = svc, cs_mechanism = [], cs_env_exposure = False, cs_injected = False,
                 cs_last_injected = None, cs_drifted = [], cs_error_class = [], cs_error_message = None, cs_sticky = False\<rparr>;
               st = (case Record_lookup lg (rc_id c) of
                       None \<Rightarrow> st
                     | Some rec \<Rightarrow> st\<lparr>cs_injected := True, cs_last_injected := Some (cr_updated rec),
                         cs_service := (if svc = [] then cr_service rec else svc)\<rparr>);
               st = (if drift_by ds (rc_id c) \<noteq> [] then st\<lparr>cs_drifted := sort (drift_by ds (rc_id c))\<rparr> else st) in
        Some (case r of
            Inl le \<Rightarrow> st\<lparr>cs_error_class := class_string (le_class le), cs_error_message := Some (le_message le), cs_sticky := le_sticky le\<rparr>
          | Inr (Some p) \<Rightarrow> st\<lparr>cs_mechanism := p_mechanism p, cs_env_exposure := p_env_exposure p\<rparr>
          | Inr None \<Rightarrow> st))"

definition Status :: "container list option \<Rightarrow> config \<Rightarrow> (string \<Rightarrow> open_error + string) \<Rightarrow> ledger \<Rightarrow> container_status list option" where
  "Status listing cfg hs lg =
     (case listing of
        None \<Rightarrow> None
      | Some cs \<Rightarrow>
          let ds = Drift hs lg; def = EffectiveDefaultDelivery (Some cfg) in
          Some (sort_key (\<lambda>st. (cs_service st, cs_container st)) (List.map_filter (status_row cfg def lg ds) cs)))"

section \<open>Properties of the reports\<close>

lemma status_row_None: "status_row cfg def lg ds c = None \<longleftrightarrow> Resolve (status_input cfg def c) = Inr None"
  by (simp add: status_row_def Let_def)

lemma status_row_Some:
  assumes "status_row cfg def lg ds c = Some st"
  shows "cs_container st = rc_id c" "cs_drifted st = sort (drift_by ds (rc_id c))"
    "cs_injected st \<longleftrightarrow> Record_lookup lg (rc_id c) \<noteq> None" "cs_mechanism st \<noteq> [] \<longrightarrow> cs_error_message st = None"
  using assms by (auto simp: status_row_def Let_def split: option.splits sum.splits if_splits)

lemma set_map_filter: "x \<in> set (List.map_filter f xs) \<longleftrightarrow> (\<exists>y \<in> set xs. f y = Some x)"
  by (induction xs) (auto simp: map_filter_simps split: option.splits)

lemma set_drift_by:
  "s \<in> set (drift_by (Drift hs lg) cid) \<longleftrightarrow> (\<exists>d \<in> set (Drift hs lg). dr_container d = cid \<and> dr_source d = s)"
  by (auto simp: drift_by_def)

text \<open>More to report never lowers the severity.\<close>

lemma digest_level_mono:
  "(ds = [] \<Longrightarrow> ds' = []) \<Longrightarrow> (ss = [] \<Longrightarrow> ss' = []) \<Longrightarrow> nt_level (composeDigest env ds' ss' t) \<le> nt_level (composeDigest env ds ss t)"
  by (auto simp: composeDigest_def less_eq_level_def)

text \<open>
  C32: the digest says all is well exactly when it is. The notification sent is informational if and only if no validation error of the
  secrets' classes stands and every recorded source still has the ciphertext it was injected with; it is an error
  exactly when such a validation error stands. Every drifted source and every standing error has its line, and the counts are those lines'.
\<close>

theorem digest_all_clear:
  assumes "ledger_ok (dm_ledger dm)" "SendDigest env hs dm = Some n"
  shows "(nt_level n = LevelInfo \<longleftrightarrow> dm_sticky dm = [] \<and> (\<forall>cid s. \<not> drifted hs (dm_ledger dm) cid s))
    \<and> (nt_level n = LevelError \<longleftrightarrow> dm_sticky dm \<noteq> [])
    \<and> (\<forall>cid s. drifted hs (dm_ledger dm) cid s \<longrightarrow>
         (\<exists>d. dr_container d = cid \<and> dr_source d = s \<and> drift_line d \<in> set (nt_body n)))
    \<and> (\<forall>(cid, se) \<in> set (dm_sticky dm). sticky_line de_render env se \<in> set (nt_body n))
    \<and> map_of (nt_fields n) ''drift'' = Some (itoa (int (length (Drift hs (dm_ledger dm)))))
    \<and> map_of (nt_fields n) ''sticky'' = Some (itoa (int (length (dm_sticky dm))))"
proof -
  let ?ds = "Drift hs (dm_ledger dm)" and ?ss = "sticky_list (dm_sticky dm)"
  have n: "n = composeDigest env ?ds ?ss (de_now env)" using assms(2) by (simp add: SendDigest_def Let_def split: if_splits)
  have ds: "?ds = [] \<longleftrightarrow> (\<forall>cid s. \<not> drifted hs (dm_ledger dm) cid s)"
    unfolding drifted_iff [OF assms(1), symmetric] by (cases ?ds) auto
  have line: "\<exists>d. dr_container d = cid \<and> dr_source d = s \<and> drift_line d \<in> set (nt_body n)" if "drifted hs (dm_ledger dm) cid s" for cid s
  proof -
    from that obtain d where "d \<in> set ?ds" "dr_container d = cid" "dr_source d = s"
      unfolding drifted_iff [OF assms(1), symmetric] by blast
    then show ?thesis by (auto simp: n composeDigest_def)
  qed
  have sl: "\<forall>(cid, se) \<in> set (dm_sticky dm). sticky_line de_render env se \<in> set (nt_body n)"
  proof clarify
    fix cid se assume "(cid, se) \<in> set (dm_sticky dm)"
    then have "se \<in> set ?ss" by (force simp: sticky_list_def)
    then show "sticky_line de_render env se \<in> set (nt_body n)" by (auto simp: n composeDigest_def)
  qed
  have ss: "?ss = [] \<longleftrightarrow> dm_sticky dm = []" "length ?ss = length (dm_sticky dm)" by (simp_all add: sticky_list_def)
  have "nt_level n = LevelInfo \<longleftrightarrow> ?ss = [] \<and> ?ds = []" "nt_level n = LevelError \<longleftrightarrow> ?ss \<noteq> []"
    by (simp_all add: n composeDigest_def)
  then show ?thesis using line sl ds ss by (simp add: n composeDigest_def)
qed

definition sample_hash :: "string \<Rightarrow> open_error + string" where
  "sample_hash s = (if s = ''webapp'' then Inr ''h9'' else Inr ''h2'')"

lemma sample_ledger_ok: "ledger_ok sample_ledger"
proof -
  have "wf_map [(k, v)]" for k :: string and v :: container_record by (simp add: wf_map_def)
  then show ?thesis by (simp add: sample_ledger_def ledger_ok_def)
qed

theorem digest_all_clear_witness:
  "\<exists>n. SendDigest sample_denv sample_hash (sample_daemon\<lparr>dm_ledger := sample_ledger\<rparr>) = Some n
     \<and> nt_level n = LevelWarning \<and> \<not> (\<forall>cid s. \<not> drifted sample_hash sample_ledger cid s)"
proof -
  let ?dm = "sample_daemon\<lparr>dm_ledger := sample_ledger\<rparr>"
  have "case SendDigest sample_denv sample_hash ?dm of None \<Rightarrow> False | Some n \<Rightarrow> nt_level n = LevelWarning"
    by code_simp
  then obtain n where n: "SendDigest sample_denv sample_hash ?dm = Some n" "nt_level n = LevelWarning"
    by (auto split: option.splits)
  have "ledger_ok (dm_ledger ?dm)" by (simp add: sample_ledger_ok)
  from digest_all_clear [OF this n(1)] n show ?thesis by auto
qed

text \<open>
  the status report shows every berm container and nothing else. When the runtime lists its containers, the report has, in order of service and container,
  one row for each container that is enabled or whose labels are in error, however often listed; the row's
  drifted sources are exactly those whose ciphertext changed or vanished since the recorded injection.
\<close>

theorem Status_complete:
  assumes "ledger_ok lg" "Status (Some cs) cfg hs lg = Some rows"
  shows "mset (map cs_container rows) = mset (map rc_id
          (filter (\<lambda>c. Resolve (status_input cfg (EffectiveDefaultDelivery (Some cfg)) c) \<noteq> Inr None) cs))
    \<and> sorted (map (\<lambda>st. (cs_service st, cs_container st)) rows)
    \<and> (\<forall>st \<in> set rows. (\<forall>s. s \<in> set (cs_drifted st) \<longleftrightarrow> drifted hs lg (cs_container st) s) \<and> sorted (cs_drifted st)
         \<and> (cs_injected st \<longleftrightarrow> Record_lookup lg (cs_container st) \<noteq> None)
         \<and> (cs_mechanism st \<noteq> [] \<longrightarrow> cs_error_message st = None))"
proof -
  let ?row = "status_row cfg (EffectiveDefaultDelivery (Some cfg)) lg (Drift hs lg)"
  let ?k = "\<lambda>st. (cs_service st, cs_container st)"
  have rows: "rows = sort_key ?k (List.map_filter ?row cs)"
    using assms(2) by (simp add: Status_def Let_def)
  have "mset (map cs_container (List.map_filter ?row cs)) = mset (map rc_id
      (filter (\<lambda>c. Resolve (status_input cfg (EffectiveDefaultDelivery (Some cfg)) c) \<noteq> Inr None) cs))"
  proof (induction cs)
    case (Cons c cs)
    have "?row c = None \<longleftrightarrow> Resolve (status_input cfg (EffectiveDefaultDelivery (Some cfg)) c) = Inr None" by (rule status_row_None)
    then show ?case using Cons.IH status_row_Some(1) [of cfg _ lg _ c] by (cases "?row c") (simp_all add: map_filter_simps)
  qed (simp add: map_filter_simps)
  moreover have "(\<forall>s. s \<in> set (cs_drifted st) \<longleftrightarrow> drifted hs lg (cs_container st) s) \<and> sorted (cs_drifted st)
         \<and> (cs_injected st \<longleftrightarrow> Record_lookup lg (cs_container st) \<noteq> None)
         \<and> (cs_mechanism st \<noteq> [] \<longrightarrow> cs_error_message st = None)" if st: "st \<in> set rows" for st
  proof -
    obtain c where c: "?row c = Some st" using st by (auto simp: rows set_map_filter)
    note r = status_row_Some [OF c]
    have "sorted (cs_drifted st)" unfolding r(2) by simp
    moreover have "s \<in> set (cs_drifted st) \<longleftrightarrow> drifted hs lg (cs_container st) s" for s
      unfolding r(1,2) set_sort set_drift_by drifted_iff [OF assms(1)] ..
    ultimately show ?thesis using r(1,3,4) by simp
  qed
  ultimately show ?thesis by (simp add: rows)
qed

definition sample_config_ok :: config where "sample_config_ok = oe_cfg sample_opener"

theorem Status_complete_witness:
  "\<exists>st. Status (Some [sample_container, sample_container\<lparr>rc_id := ''c0'', rc_labels := []\<rparr>]) sample_config_ok sample_hash sample_ledger = Some [st]
     \<and> cs_container st = ''c1'' \<and> (\<forall>s. s \<in> set (cs_drifted st) \<longleftrightarrow> drifted sample_hash sample_ledger ''c1'' s)"
proof -
  let ?cs = "[sample_container, sample_container\<lparr>rc_id := ''c0'', rc_labels := []\<rparr>]"
  have "map cs_container (the (Status (Some ?cs) sample_config_ok sample_hash sample_ledger)) = [''c1'']" by code_simp
  moreover obtain rows where r: "Status (Some ?cs) sample_config_ok sample_hash sample_ledger = Some rows" by (simp add: Status_def Let_def)
  ultimately have "map cs_container rows = [''c1'']" by simp
  moreover from this obtain st where "rows = [st]" "cs_container st = ''c1''" by auto
  ultimately show ?thesis using Status_complete [OF sample_ledger_ok r] r by auto
qed

end
