(* ===== verification/Daemon_Start.thy ===== *)
theory Daemon_Start
  imports Daemon_Report
begin

text \<open>
  The rest of \<open>internal/daemon/daemon.go\<close>, \<open>loop.go\<close> and \<open>server.go\<close>, and \<open>runtimeselect.go\<close>: how the daemon is built from
  its configuration, what it listens on, and the loops that call its handlers.
\<close>

section \<open>Construction\<close>

text \<open>The configuration; a pointer or interface is its being set, where only that is looked at.\<close>

record start_config =
  sc_runtime :: bool
  sc_berm :: "config option"
  sc_opener :: bool
  sc_sink :: bool
  sc_default_delivery :: mechanism
  sc_socket_path :: string
  sc_ledger_path :: string
  sc_volume_root :: string
  sc_client_timeout :: int
  sc_reconcile_interval :: int
  sc_heartbeat_path :: string
  sc_digest_enabled :: bool
  sc_digest_schedule :: string

record wired =
  wi_daemon :: daemon
  wi_config :: start_config
  wi_berm :: config
  wi_def_deliv :: mechanism
  wi_sock_path :: string
  wi_vol_root :: string
  wi_reconcile_every :: int
  wi_heartbeat_path :: string

datatype new_error = NeedsRuntime | NeedsConfig | NeedsOpener | BadLedger ledger_error

definition New :: "(string \<Rightarrow> ledger_file option) \<Rightarrow> start_config \<Rightarrow> fs \<Rightarrow> new_error + wired" where
  "New parse sc w =
     (if \<not> sc_runtime sc then Inl NeedsRuntime
      else case sc_berm sc of
        None \<Rightarrow> Inl NeedsConfig
      | Some berm \<Rightarrow>
          if \<not> sc_opener sc then Inl NeedsOpener
          else
            let defDeliv = (if sc_default_delivery sc = [] then EffectiveDefaultDelivery (Some berm) else sc_default_delivery sc);
                sockPath = (if sc_socket_path sc = [] then DefaultSocketPath else sc_socket_path sc);
                ledgerPath = (if sc_ledger_path sc = [] then DefaultLedgerPath else sc_ledger_path sc);
                volRoot = (if sc_volume_root sc = [] then DefaultVolumeMountRoot else sc_volume_root sc);
                timeout = (if sc_client_timeout sc = 0 then g_client_timeout (c_globals berm) else sc_client_timeout sc);
                reconcileEvery = (if sc_reconcile_interval sc = 0 then DefaultReconcileInterval else sc_reconcile_interval sc);
                heartbeatPath = (if sc_heartbeat_path sc = [] then DefaultHeartbeatPath else sc_heartbeat_path sc) in
            (case LoadLedger parse ledgerPath w of
               (Inl e, w') \<Rightarrow> Inl (BadLedger e)
             | (Inr lg, w') \<Rightarrow>
                 Inr \<lparr>wi_daemon = new_daemon lg timeout (sc_sink sc) w', wi_config = sc, wi_berm = berm, wi_def_deliv = defDeliv,
                      wi_sock_path = sockPath, wi_vol_root = volRoot, wi_reconcile_every = reconcileEvery,
                      wi_heartbeat_path = heartbeatPath\<rparr>))"

text \<open>Which of its optional loops \<open>run\<close> starts, and the interval of the digest.\<close>

definition runs_reconcile :: "wired \<Rightarrow> bool" where
  "runs_reconcile wi \<longleftrightarrow> wi_reconcile_every wi > 0"

definition digest_enabled :: "wired \<Rightarrow> bool" where
  "digest_enabled wi \<longleftrightarrow> sc_digest_enabled (wi_config wi) \<or> g_stale_digest (c_globals (wi_berm wi))"

definition digest_interval :: "(string \<Rightarrow> int option) \<Rightarrow> wired \<Rightarrow> int option" where
  "digest_interval parse_duration wi =
     (let i = parseSchedule parse_duration (digestSchedule (sc_digest_schedule (wi_config wi)) (Some (wi_berm wi))) in
      if digest_enabled wi \<and> 0 < i then Some i else None)"

section \<open>The runtime's socket\<close>

definition DefaultDockerSocket :: string where "DefaultDockerSocket = ''/var/run/docker.sock''"
definition DefaultPodmanSocket :: string where "DefaultPodmanSocket = ''/run/podman/podman.sock''"

definition socketOrDefault :: "string \<Rightarrow> string \<Rightarrow> string" where
  "socketOrDefault runtimeName socket =
     (if socket \<noteq> [] then socket else if runtimeName = ''podman'' then DefaultPodmanSocket else DefaultDockerSocket)"

datatype adapter = NewDocker string | NewPodman string

definition SelectRuntime :: "config option \<Rightarrow> string + adapter" where
  "SelectRuntime co =
     (let (nam, socket) = (case co of None \<Rightarrow> ([], []) | Some cfg \<Rightarrow> (g_runtime (c_globals cfg), g_socket (c_globals cfg))) in
      if nam = [] \<or> nam = ''docker'' then Inr (NewDocker (socketOrDefault nam socket))
      else if nam = ''podman'' then Inr (NewPodman (socketOrDefault nam socket))
      else Inl nam)"

section \<open>The loops\<close>

text \<open>
  What the two channels of \<open>Watch\<close> give, in the order \<open>select\<close> takes it, each with the world the handler
  then sees. An exhausted list is a stream with nothing more to take.
\<close>

datatype 'h watched = Ctx_done | Errs_closed | Watch_err "string option" | Events_closed | Event "'h denv" event_type string

fun watchOnce :: "'h watched list \<Rightarrow> daemon \<Rightarrow> daemon" where
  "watchOnce [] dm = dm"
| "watchOnce (Ctx_done # xs) dm = dm"
| "watchOnce (Errs_closed # xs) dm = dm"
| "watchOnce (Watch_err e # xs) dm = watchOnce xs dm"
| "watchOnce (Events_closed # xs) dm = dm"
| "watchOnce (Event env ty cid # xs) dm = watchOnce xs (handleEvent env ty cid dm)"

text \<open>\<open>runLoop\<close> subscribes again after each end of the stream, until the context is done.\<close>

fun runLoop :: "'h watched list list \<Rightarrow> daemon \<Rightarrow> daemon" where
  "runLoop [] dm = dm"
| "runLoop (xs # rest) dm = runLoop rest (watchOnce xs dm)"

text \<open>\<open>runReconcile\<close>: a turn at once and one per tick.\<close>

definition runReconcile :: "int \<Rightarrow> string \<Rightarrow> 'h denv list \<Rightarrow> daemon \<Rightarrow> daemon" where
  "runReconcile every path ticks dm = (if every \<le> 0 then dm else fold (reconcile_turn path) ticks dm)"

text \<open>The accept loop: connections with what their peers are and send, and errors of \<open>Accept\<close>.\<close>

datatype 'h accepted = Conn "'h denv" "auth_error + identity" string sink | Accept_error

fun serve :: "'h accepted list \<Rightarrow> daemon \<Rightarrow> sink list \<times> daemon" where
  "serve [] dm = ([], dm)"
| "serve (Accept_error # xs) dm = ([], dm)"
| "serve (Conn env auth inp s # xs) dm =
     (let (s', dm1) = server_handle env auth inp s dm; (ss, dm2) = serve xs dm1 in (s' # ss, dm2))"

section \<open>Binding the socket\<close>

datatype listen_error = ListenMkdir | ListenRemove | ListenBind | ListenChmod

text \<open>
  The socket node is a file without data; \<open>bound\<close> is the mode the umask leaves it, before \<open>Chmod\<close> to 0600 (384). Closing a
  listener removes its node. \<open>ResolveUnixAddr\<close> has no error for this network.
\<close>

definition remove_node :: "string \<Rightarrow> fs \<Rightarrow> fs" where
  "remove_node p w = w\<lparr>fs_files := (fs_files w)(path_clean p := None)\<rparr>"

definition bind_node :: "int \<Rightarrow> string \<Rightarrow> fs \<Rightarrow> fs" where
  "bind_node mode p w = w\<lparr>fs_files := (fs_files w)(path_clean p \<mapsto>
     \<lparr>fn_data = [], fn_uid = fs_uid w, fn_gid = fs_gid w, fn_mode = mode\<rparr>)\<rparr>"

definition listen :: "int \<Rightarrow> string \<Rightarrow> fs \<Rightarrow> listen_error option \<times> fs" where
  "listen bound path w =
     (let (ok, w) = sys w in
      if \<not> ok then (Some ListenMkdir, w)
      else let (ok, w) = sys w in
        if \<not> ok then (Some ListenRemove, w)
        else let (ok, w) = sys (remove_node path w) in
          if \<not> ok then (Some ListenBind, w)
          else let (ok, w) = sys (bind_node bound path w) in
            if \<not> ok then (Some ListenChmod, remove_node path w)
            else (None, bind_node 384 path w))"

section \<open>What the loops keep\<close>

definition world_ok :: "opened denv \<Rightarrow> bool" where
  "world_ok env \<longleftrightarrow> (\<exists>oe. de_ops env = config_ops oe)"

fun watched_ok :: "opened watched \<Rightarrow> bool" where
  "watched_ok (Event env ty cid) = world_ok env"
| "watched_ok _ = True"

fun accepted_ok :: "opened accepted \<Rightarrow> bool" where
  "accepted_ok (Conn env auth inp s) = world_ok env"
| "accepted_ok Accept_error = True"

text \<open>A handler turns one reachable state of the daemon into another; so does any sequence of its calls.\<close>

locale handler =
  fixes call :: "'x \<Rightarrow> daemon \<Rightarrow> daemon" and ok :: "'x \<Rightarrow> bool"
  assumes reach: "ok x \<Longrightarrow> dreach dm0 dm \<Longrightarrow> dreach dm0 (call x dm)"
begin

lemma calls_reach: "list_all ok xs \<Longrightarrow> dreach dm0 dm \<Longrightarrow> dreach dm0 (fold call xs dm)"
  by (induction xs arbitrary: dm) (simp_all add: reach)

lemma calls_ok: "list_all ok xs \<Longrightarrow> daemon_ok dm \<Longrightarrow> daemon_ok (fold call xs dm)"
  using calls_reach [of xs dm dm] dreach.init dreach_ok by blast

end

interpretation lifecycle: handler "\<lambda>(env, ty, cid). handleEvent env ty cid" "\<lambda>(env, ty, cid). world_ok env"
  by unfold_locales (auto simp: world_ok_def intro: dreach.step dstep.runtime)

interpretation connection: handler "\<lambda>(env, auth, inp, s) dm. snd (server_handle env auth inp s dm)" "\<lambda>(env, auth, inp, s). world_ok env"
proof
  fix x :: "opened denv \<times> (auth_error + identity) \<times> string \<times> sink" and dm0 dm
  obtain env auth inp s where x: "x = (env, auth, inp, s)" by (cases x)
  assume "case x of (env, auth, inp, s) \<Rightarrow> world_ok env" and r: "dreach dm0 dm"
  then obtain oe where o: "de_ops env = config_ops oe" by (auto simp: x world_ok_def)
  have "server_handle env auth inp s dm = (fst (server_handle env auth inp s dm), snd (server_handle env auth inp s dm))" by simp
  from dreach.step [OF r dstep.conn [OF o this]]
  show "dreach dm0 ((case x of (env, auth, inp, s) \<Rightarrow> \<lambda>dm. snd (server_handle env auth inp s dm)) dm)" by (simp add: x)
qed

lemma beat_reach: "dreach dm0 dm \<Longrightarrow> dreach dm0 (beat path env dm)"
  unfolding beat_def by (auto intro: dreach.step dstep.outside)

interpretation turn: handler "reconcile_turn path" world_ok for path
  by unfold_locales (auto simp: reconcile_turn_def world_ok_def intro!: beat_reach intro: dreach.step dstep.reconcile)

text \<open>The loops are sequences of such calls.\<close>

fun events_of :: "'h watched list \<Rightarrow> ('h denv \<times> event_type \<times> string) list" where
  "events_of (Watch_err e # xs) = events_of xs"
| "events_of (Event env ty cid # xs) = (env, ty, cid) # events_of xs"
| "events_of _ = []"

lemma watchOnce_fold: "watchOnce xs dm = fold (\<lambda>(env, ty, cid). handleEvent env ty cid) (events_of xs) dm"
  by (induction xs dm rule: watchOnce.induct) simp_all

lemma events_ok: "\<forall>x \<in> set xs. watched_ok x \<Longrightarrow> list_all (\<lambda>(env, ty, cid). world_ok env) (events_of xs)"
  by (induction xs rule: events_of.induct) simp_all

interpretation subscription: handler watchOnce "\<lambda>xs. \<forall>x \<in> set xs. watched_ok x"
  by unfold_locales (simp add: watchOnce_fold lifecycle.calls_reach events_ok)

lemma runLoop_fold: "runLoop xss dm = fold watchOnce xss dm"
  by (induction xss arbitrary: dm) simp_all

fun conns_of :: "'h accepted list \<Rightarrow> ('h denv \<times> (auth_error + identity) \<times> string \<times> sink) list" where
  "conns_of (Conn env auth inp s # xs) = (env, auth, inp, s) # conns_of xs"
| "conns_of _ = []"

lemma serve_fold: "snd (serve xs dm) = fold (\<lambda>(env, auth, inp, s) dm. snd (server_handle env auth inp s dm)) (conns_of xs) dm"
proof (induction xs arbitrary: dm)
  case (Cons x xs)
  then show ?case by (cases x) (simp_all add: Let_def case_prod_beta)
qed simp

lemma conns_ok: "\<forall>x \<in> set xs. accepted_ok x \<Longrightarrow> list_all (\<lambda>(env, auth, inp, s). world_ok env) (conns_of xs)"
  by (induction xs rule: conns_of.induct) simp_all

lemma loops_ok:
  assumes "daemon_ok dm"
  shows "\<forall>xs \<in> set xss. \<forall>x \<in> set xs. watched_ok x \<Longrightarrow> daemon_ok (runLoop xss dm)"
    "\<forall>env \<in> set ticks. world_ok env \<Longrightarrow> daemon_ok (runReconcile every path ticks dm)"
    "\<forall>x \<in> set conns. accepted_ok x \<Longrightarrow> daemon_ok (snd (serve conns dm))"
  using assms subscription.calls_ok [of xss dm] turn.calls_ok [of ticks dm path] connection.calls_ok [OF conns_ok assms, of conns]
  by (simp_all add: runLoop_fold runReconcile_def serve_fold list_all_iff)

section \<open>Properties\<close>

lemma LoadLedger_ok:
  "(\<And>d lf p. parse d = Some lf \<Longrightarrow> ledger_ok \<lparr>lg_path = p, lg_records = lf_containers lf\<rparr>) \<Longrightarrow>
     LoadLedger parse p w = (Inr lg, w') \<Longrightarrow> ledger_ok lg"
  by (auto simp: LoadLedger_def split: prod.splits option.splits if_splits)

lemma default_delivery_set: "EffectiveDefaultDelivery co \<noteq> []"
  by (simp add: EffectiveDefaultDelivery_def split: option.split)

text \<open>
  a daemon that is built is ready to run. It has a runtime, a berm.yml and an opener, every path it uses and its default mechanism are set,
  the reconcile loop runs unless it was turned off by a negative interval, and, the ledger read from disk being well formed, it starts in the
  invariant: nothing decrypted, no error standing, no timer pending. An unreadable ledger is an error, a missing one an empty history.
\<close>

theorem New_ready:
  assumes "New parse sc w = Inr wi"
    and "\<And>d lf p. parse d = Some lf \<Longrightarrow> ledger_ok \<lparr>lg_path = p, lg_records = lf_containers lf\<rparr>"
  shows "sc_runtime sc \<and> sc_opener sc \<and> sc_berm sc = Some (wi_berm wi) \<and> wi_sock_path wi \<noteq> [] \<and> wi_vol_root wi \<noteq> []
    \<and> wi_heartbeat_path wi \<noteq> [] \<and> lg_path (dm_ledger (wi_daemon wi)) \<noteq> [] \<and> wi_def_deliv wi \<noteq> []
    \<and> (runs_reconcile wi \<longleftrightarrow> 0 \<le> sc_reconcile_interval sc) \<and> daemon_ok (wi_daemon wi)
    \<and> (content (snd (sys w)) (lg_path (dm_ledger (wi_daemon wi))) = None \<longrightarrow> lg_records (dm_ledger (wi_daemon wi)) = [])"
proof -
  define p where "p = (if sc_ledger_path sc = [] then DefaultLedgerPath else sc_ledger_path sc)"
  obtain lg w' where l: "LoadLedger parse p w = (Inr lg, w')"
    and d: "wi_daemon wi = new_daemon lg (if sc_client_timeout sc = 0 then g_client_timeout (c_globals (wi_berm wi)) else sc_client_timeout sc) (sc_sink sc) w'"
    and b: "sc_runtime sc" "sc_opener sc" "sc_berm sc = Some (wi_berm wi)"
    and n: "wi_sock_path wi = (if sc_socket_path sc = [] then DefaultSocketPath else sc_socket_path sc)"
      "wi_vol_root wi = (if sc_volume_root sc = [] then DefaultVolumeMountRoot else sc_volume_root sc)"
      "wi_heartbeat_path wi = (if sc_heartbeat_path sc = [] then DefaultHeartbeatPath else sc_heartbeat_path sc)"
      "wi_def_deliv wi = (if sc_default_delivery sc = [] then EffectiveDefaultDelivery (Some (wi_berm wi)) else sc_default_delivery sc)"
      "wi_reconcile_every wi = (if sc_reconcile_interval sc = 0 then DefaultReconcileInterval else sc_reconcile_interval sc)"
    using assms(1) by (auto simp: New_def Let_def p_def split: if_splits option.splits sum.splits prod.splits)
  have lg: "lg_path lg = p" "content (snd (sys w)) p = None \<longrightarrow> lg_records lg = []"
    using l by (auto simp: LoadLedger_def NewLedger_def split: prod.splits option.splits if_splits)
  have "p \<noteq> []" by (simp add: p_def DefaultLedgerPath_def)
  moreover have "daemon_ok (wi_daemon wi)" unfolding d by (rule new_daemon_ok) (rule LoadLedger_ok [OF assms(2) l])
  ultimately show ?thesis using b n lg default_delivery_set
    by (auto simp: d new_daemon_def runs_reconcile_def DefaultSocketPath_def DefaultVolumeMountRoot_def DefaultHeartbeatPath_def
        DefaultReconcileInterval_def nano_second_def)
qed

definition sample_start :: start_config where
  "sample_start = \<lparr>sc_runtime = True, sc_berm = Some (oe_cfg sample_opener), sc_opener = True, sc_sink = True, sc_default_delivery = [],
     sc_socket_path = [], sc_ledger_path = [], sc_volume_root = [], sc_client_timeout = 0, sc_reconcile_interval = 0,
     sc_heartbeat_path = [], sc_digest_enabled = False, sc_digest_schedule = []\<rparr>"

theorem New_ready_witness:
  "\<exists>wi. New (\<lambda>d. None) sample_start sample_fs = Inr wi \<and> runs_reconcile wi \<and> daemon_ok (wi_daemon wi)"
proof -
  have "case New (\<lambda>d. None) sample_start sample_fs of Inl e \<Rightarrow> False | Inr wi \<Rightarrow> True" by code_simp
  then obtain wi where n: "New (\<lambda>d. None) sample_start sample_fs = Inr wi" by (auto split: sum.splits)
  from New_ready [OF n] n show ?thesis by (simp add: sample_start_def)
qed

text \<open>
  a daemon that no longer accepts still looks alive. After any error of \<open>Accept\<close>, a passing one included, the server answers none of the
  connections that follow, while the reconcile loop goes on beating: right after a turn the health probe reports the daemon healthy.
\<close>

theorem deaf_but_healthy:
  assumes "WriteHeartbeat path t (wd_fs (dm_world (reconcileVolumes env dm))) = (None, w')" "t = de_now env" "path \<noteq> []"
    and "0 \<le> t" "t < 2 ^ 63" "0 \<le> staleAfter"
  shows "fst (serve (Accept_error # conns) dm) = []
    \<and> health_ok (fst (Healthz path staleAfter t ((wd_fs (dm_world (reconcile_turn path env (snd (serve (Accept_error # conns) dm)))))\<lparr>fs_faults := []\<rparr>)))"
proof -
  have "wd_fs (dm_world (reconcile_turn path env dm)) = w'"
    using assms(1-3) by (simp add: reconcile_turn_def beat_def set_fs_def)
  moreover have "content w' path = Some (itoa t @ [newline])"
    using bytes.done_ok assms(1) by (auto simp: WriteHeartbeat_def Let_def)
  moreover have "atoi (itoa t) = Some t" using assms(4,5) by (simp add: atoi_itoa)
  ultimately show ?thesis using assms(6) by (simp add: Healthz_quiet trim_number health_ok_def time_sub_def)
qed

definition quiet_denv :: "opened denv" where "quiet_denv = sample_denv\<lparr>de_list := None\<rparr>"

theorem deaf_but_healthy_witness:
  "health_ok (fst (Healthz ''/h'' 6 1 ((wd_fs (dm_world (reconcile_turn ''/h'' quiet_denv (snd (serve (Accept_error # conns) sample_daemon)))))\<lparr>fs_faults := []\<rparr>)))"
proof -
  have "fst (WriteHeartbeat ''/h'' 1 (wd_fs (dm_world (reconcileVolumes quiet_denv sample_daemon)))) = None"
    unfolding quiet_denv_def by code_simp
  then obtain w' where r: "WriteHeartbeat ''/h'' 1 (wd_fs (dm_world (reconcileVolumes quiet_denv sample_daemon))) = (None, w')"
    by (metis prod.collapse)
  have "1 = de_now quiet_denv" by (simp add: quiet_denv_def sample_denv_def)
  from deaf_but_healthy [OF r this, of 6 conns] show ?thesis by simp
qed

lemma SelectRuntime_socket:
  "SelectRuntime co = Inr a \<Longrightarrow> (case a of NewDocker s \<Rightarrow> s \<noteq> [] | NewPodman s \<Rightarrow> s \<noteq> [])"
  by (auto simp: SelectRuntime_def socketOrDefault_def DefaultDockerSocket_def DefaultPodmanSocket_def split: option.splits if_splits adapter.splits)

lemma listen_result:
  assumes "listen bound path w = (e, w')"
  shows "case e of
      None \<Rightarrow> map_option fn_mode (fs_files w' (path_clean path)) = Some 384
    | Some x \<Rightarrow> (x = ListenBind \<or> x = ListenChmod \<longrightarrow> fs_files w' (path_clean path) = None)
        \<and> (x = ListenMkdir \<or> x = ListenRemove \<longrightarrow> fs_files w' = fs_files w)"
  using assms
  by (auto simp: listen_def remove_node_def bind_node_def sys_def next_fault_def Let_def split: list.splits if_splits prod.splits)

end
