(* ===== verification/Cli_Report.thy ===== *)
theory Cli_Report
  imports Daemon_Start
begin

text \<open>
  \<open>internal/cli\<close> and the commands of \<open>cmd/berm\<close> over it: what the operator asks for. A report is its list of lines, each a format with
  its arguments (the cells of a table row are those of its format), and the error that makes the command exit nonzero.
\<close>

section \<open>Resolving the fleet\<close>

record resolved =
  rs_id :: string
  rs_service :: string
  rs_plan :: "plan option"
  rs_err :: "label_error option"

definition resolved_row :: "config \<Rightarrow> mechanism \<Rightarrow> container \<Rightarrow> resolved option" where
  "resolved_row cfg defDeliv c =
     (let svc = status_service c in
      case Resolve (status_input cfg defDeliv c) of
        Inr None \<Rightarrow> None
      | Inl le \<Rightarrow> Some \<lparr>rs_id = rc_id c, rs_service = svc, rs_plan = None, rs_err = Some le\<rparr>
      | Inr (Some p) \<Rightarrow> Some \<lparr>rs_id = rc_id c, rs_service = (if svc = [] then p_service p else svc), rs_plan = Some p, rs_err = None\<rparr>)"

definition resolveAll :: "container list option \<Rightarrow> config \<Rightarrow> resolved list option" where
  "resolveAll listing cfg =
     (case listing of
        None \<Rightarrow> None
      | Some cs \<Rightarrow>
          let defDeliv = EffectiveDefaultDelivery (Some cfg) in
          Some (sort_key (\<lambda>r. (rs_service r, rs_id r)) (List.map_filter (resolved_row cfg defDeliv) cs)))"

definition planSummary :: "plan option \<Rightarrow> string" where
  "planSummary po =
     (case po of
        None \<Rightarrow> ''-''
      | Some p \<Rightarrow>
          let parts = map (\<lambda>f. ''file:'' @ fb_path f) (p_files p)
            @ map (\<lambda>e. if eb_all e then ''env:all('' @ eb_source e @ '')'' else ''env:'' @ eb_var e) (p_env p)
            @ map (\<lambda>r. rb_kind r @ '':'' @ rb_path r) (p_renders p) in
          if length parts = 0 then ''-'' else join_with '', '' parts)"

definition envExposureNote :: string where
  "envExposureNote = ''env-delivered secrets are readable via /proc/<pid>/environ inside the container and by host root, '' @
     ''which a file at mode 0400 owned by the app user is not''"

definition mechName :: "string \<Rightarrow> string" where
  "mechName m = (if m = [] then ''-'' else m)"

definition serviceOrDash :: "string \<Rightarrow> string" where
  "serviceOrDash s = (if s = [] then ''-'' else s)"

definition runtimeName :: "config option \<Rightarrow> string" where
  "runtimeName co =
     (case co of
        None \<Rightarrow> ''docker''
      | Some cfg \<Rightarrow> if g_runtime (c_globals cfg) \<noteq> [] then g_runtime (c_globals cfg) else ''docker'')"

definition cli_shortID :: "string \<Rightarrow> string" where
  "cli_shortID i = (if length i > 12 then take 12 i else i)"

datatype cli_error =
    ListFailed | ValidationFailed nat | ServiceRequired | NoSourceFile string | UnknownFormat string
  | SourceUnreadable string | LineWithoutEquals string | LineEmptyKey string | NoSecretKeys string
  | ConfigUnread | ConfigUnparsed | UnknownRuntime string | LedgerFailed ledger_error | Unhealthy health

definition blank :: msg where
  "blank = Msg [] []"

record report =
  rp_lines :: "msg list"
  rp_err :: "cli_error option"

section \<open>validate\<close>

definition printPlan :: "resolved \<Rightarrow> plan \<Rightarrow> msg list" where
  "printPlan r p =
     [Msg ''%s (%s): OK'' [serviceOrDash (rs_service r), cli_shortID (rs_id r)], Msg ''  %s delivery'' [p_mechanism p]]
     @ map (\<lambda>f. Msg ''  file %s source %s %s -> %s owner %s mode %s pointer %s''
         [fb_name f, fb_source f, if fb_whole f then ''whole payload'' else ''key '' @ fb_key f, fb_path f, fb_owner f, fb_mode f,
          if fb_pointer_var f \<noteq> [] then fb_pointer_var f else ''-'']) (p_files p)
     @ map (\<lambda>e. if eb_all e then Msg ''  env all source %s every key -> process environment'' [eb_source e]
         else Msg ''  env %s source %s key %s -> process environment'' [eb_var e, eb_source e, eb_key e]) (p_env p)
     @ map (\<lambda>r. Msg ''  %s source %s whole source -> %s owner %s mode %s''
         [rb_kind r, rb_source r, rb_path r, rb_owner r, rb_mode r]) (p_renders p)
     @ (if p_env_exposure p then [Msg ''  note: %s.'' [envExposureNote]] else [])"

definition validate_row :: "(msg \<Rightarrow> string) \<Rightarrow> resolved \<Rightarrow> msg list" where
  "validate_row render r =
     blank #
     (case rs_err r of
        Some le \<Rightarrow>
          [Msg ''%s (%s): ERROR %s%s'' [serviceOrDash (rs_service r), cli_shortID (rs_id r), class_string (le_class le),
             if le_sticky le then '' (sticky)'' else []],
           Msg ''  %s'' [render (le_message le)]]
      | None \<Rightarrow> (case rs_plan r of None \<Rightarrow> [] | Some p \<Rightarrow> printPlan r p))"

definition fleet_header :: "string \<Rightarrow> config \<Rightarrow> nat \<Rightarrow> msg list" where
  "fleet_header title cfg n =
     [Msg title [], Msg ''runtime: %s   default delivery: %s   %d enabled container(s)''
        [runtimeName (Some cfg), EffectiveDefaultDelivery (Some cfg), itoa (int n)]]"

definition Validate :: "(msg \<Rightarrow> string) \<Rightarrow> container list option \<Rightarrow> config \<Rightarrow> report" where
  "Validate render listing cfg =
     (case resolveAll listing cfg of
        None \<Rightarrow> \<lparr>rp_lines = [], rp_err = Some ListFailed\<rparr>
      | Some rows \<Rightarrow>
          let header = fleet_header ''berm validate'' cfg (length rows) in
          if length rows = 0
          then \<lparr>rp_lines = header @ [blank, Msg ''No berm-enabled containers found. Nothing to validate.'' []], rp_err = None\<rparr>
          else
            let bad = length (filter (\<lambda>r. rs_err r \<noteq> None) rows); ok = length rows - bad in
            \<lparr>rp_lines = header @ concat (map (validate_row render) rows)
               @ [blank, Msg ''Summary: %d ok, %d with errors.'' [itoa (int ok), itoa (int bad)]],
             rp_err = (if bad > 0 then Some (ValidationFailed bad) else None)\<rparr>)"

section \<open>status and stale\<close>

definition status_targets :: "resolved list option \<Rightarrow> (string, string) gomap" where
  "status_targets plans =
     (case plans of None \<Rightarrow> [] | Some rows \<Rightarrow> fold (\<lambda>r. AList.update (rs_id r) (planSummary (rs_plan r))) rows [])"

definition status_line :: "smap \<Rightarrow> container_status \<Rightarrow> msg" where
  "status_line tg r =
     Msg ''%s %s %s %s %s %s %s''
       [cs_service r, cli_shortID (cs_container r), mechName (cs_mechanism r),
        if sget tg (cs_container r) = [] then ''-'' else sget tg (cs_container r),
        if cs_injected r then ''yes'' else ''no'',
        if length (cs_drifted r) > 0 then itoa (int (length (cs_drifted r))) else ''-'',
        if cs_error_class r \<noteq> [] then ''ERROR '' @ cs_error_class r @ (if cs_sticky r then '' (sticky)'' else []) else ''ok'']"

definition error_line :: "(msg \<Rightarrow> string) \<Rightarrow> container_status \<Rightarrow> msg" where
  "error_line render r = Msg ''  %s (%s): %s: %s'' [cs_service r, cli_shortID (cs_container r), cs_error_class r,
     case cs_error_message r of None \<Rightarrow> [] | Some m \<Rightarrow> render m]"

definition titled :: "string \<Rightarrow> msg list \<Rightarrow> msg list" where
  "titled title ls = (if ls = [] then [] else blank # Msg title [] # ls)"

text \<open>The runtime lists its containers twice, once for the states and once for the targets.\<close>

definition cli_Status ::
  "(msg \<Rightarrow> string) \<Rightarrow> container list option \<Rightarrow> container list option \<Rightarrow> config \<Rightarrow> (string \<Rightarrow> open_error + string) \<Rightarrow> ledger \<Rightarrow> report" where
  "cli_Status render listing listing2 cfg hs lg =
     (case Status listing cfg hs lg of
        None \<Rightarrow> \<lparr>rp_lines = [], rp_err = Some ListFailed\<rparr>
      | Some rows \<Rightarrow>
          let tg = status_targets (resolveAll listing2 cfg); header = fleet_header ''berm status'' cfg (length rows) @ [blank] in
          if length rows = 0 then \<lparr>rp_lines = header @ [Msg ''No berm-enabled containers found.'' []], rp_err = None\<rparr>
          else
            \<lparr>rp_lines = header @ [Msg ''SERVICE CONTAINER DELIVERY DELIVERIES INJECTED DRIFT VALIDATION'' []]
               @ map (status_line tg) rows
               @ titled ''env exposure warnings:'' (map (\<lambda>r. Msg ''  %s (%s): %s. berm.env.acknowledge is affirmed.''
                   [cs_service r, cli_shortID (cs_container r), envExposureNote]) (filter cs_env_exposure rows))
               @ titled ''validation errors (sticky, held until fixed):''
                   (map (error_line render) (filter (\<lambda>r. cs_error_class r \<noteq> [] \<and> cs_sticky r) rows))
               @ titled ''validation errors:''
                   (map (error_line render) (filter (\<lambda>r. cs_error_class r \<noteq> [] \<and> \<not> cs_sticky r) rows)),
             rp_err = None\<rparr>)"

definition Stale :: "ledger \<Rightarrow> (string \<Rightarrow> open_error + string) \<Rightarrow> report" where
  "Stale lg hs =
     (let ds = Drift hs lg in
      \<lparr>rp_lines = Msg ''berm stale'' [] #
         (if length ds = 0 then [Msg ''No drift. Every injected source matches the ciphertext on disk.'' []]
          else [Msg ''%d drifted source(s) since last injection. Recreate the affected container to inject the current secret.'' [itoa (int (length ds))],
                blank, Msg ''CONTAINER SERVICE SOURCE STATE'' []]
            @ map (\<lambda>d. Msg ''%s %s %s %s'' [cli_shortID (dr_container d), serviceOrDash (dr_service d), dr_source d,
                if dr_missing d then ''missing (source deleted since injection)'' else ''changed'']) ds
            @ [blank, Msg ''Recreate each affected container (for example: docker compose up -d --no-deps <service>) to pick up the rotated secret.'' []]),
       rp_err = None\<rparr>)"

section \<open>Properties\<close>

lemma class_string_not_Nil [simp]: "class_string c \<noteq> []"
  by (cases c) simp_all

definition refused :: "config \<Rightarrow> container \<Rightarrow> bool" where
  "refused cfg c \<longleftrightarrow> isl (Resolve (status_input cfg (EffectiveDefaultDelivery (Some cfg)) c))"

lemma resolved_row_err:
  "length (filter (\<lambda>r. rs_err r \<noteq> None) (List.map_filter (resolved_row cfg (EffectiveDefaultDelivery (Some cfg))) cs))
     = length (filter (refused cfg) cs)"
  by (induction cs)
    (auto simp: map_filter_simps resolved_row_def refused_def Let_def split: sum.splits option.splits)

lemma filter_sort_key_length: "length (filter P (sort_key k xs)) = length (filter P xs)"
  by (metis filter_sort length_sort)

lemma status_row_err:
  "status_row cfg (EffectiveDefaultDelivery (Some cfg)) lg ds c = Some st \<Longrightarrow> cs_error_class st \<noteq> [] \<longleftrightarrow> refused cfg c"
  by (auto simp: status_row_def refused_def Let_def split: option.splits sum.splits if_splits)

lemma refused_listed:
  "refused cfg c \<Longrightarrow> \<exists>st. status_row cfg (EffectiveDefaultDelivery (Some cfg)) lg ds c = Some st"
  using status_row_None [of cfg _ lg ds c] by (cases "status_row cfg (EffectiveDefaultDelivery (Some cfg)) lg ds c") (auto simp: refused_def)

text \<open>
  C33: the gate. For every fleet the runtime lists, \<open>berm validate\<close> fails exactly when some container's labels
  do not resolve, and reports how many; the containers it fails on are, one for one, those that \<open>berm status\<close> shows with an
  error class, whatever the ledger and the sources hold. So a run that exits 0 leaves no container in error.
\<close>

theorem Validate_gate:
  "rp_err (Validate render (Some cs) cfg)
     = (let n = length (filter (refused cfg) cs) in if n = 0 then None else Some (ValidationFailed n))
   \<and> mset (map cs_container (filter (\<lambda>st. cs_error_class st \<noteq> []) (the (Status (Some cs) cfg hs lg))))
     = mset (map rc_id (filter (refused cfg) cs))"
proof
  let ?rows = "the (resolveAll (Some cs) cfg)"
  have "length (filter (\<lambda>r. rs_err r \<noteq> None) ?rows) = length (filter (refused cfg) cs)"
    by (simp only: resolveAll_def Let_def option.case option.sel filter_sort_key_length resolved_row_err)
  moreover from this have "?rows = [] \<Longrightarrow> length (filter (refused cfg) cs) = 0" by simp
  ultimately show "rp_err (Validate render (Some cs) cfg)
     = (let n = length (filter (refused cfg) cs) in if n = 0 then None else Some (ValidationFailed n))"
    by (auto simp: Validate_def resolveAll_def Let_def)
next
  let ?row = "status_row cfg (EffectiveDefaultDelivery (Some cfg)) lg (Drift hs lg)"
  have "mset (map cs_container (filter (\<lambda>st. cs_error_class st \<noteq> []) (List.map_filter ?row cs)))
     = mset (map rc_id (filter (refused cfg) cs))"
  proof (induction cs)
    case (Cons c cs)
    then show ?case
      using refused_listed [of cfg c lg "Drift hs lg"] status_row_err [of cfg lg "Drift hs lg" c] status_row_Some(1) [of cfg _ lg _ c]
      by (cases "?row c") (auto simp: map_filter_simps)
  qed (simp add: map_filter_simps)
  then show "mset (map cs_container (filter (\<lambda>st. cs_error_class st \<noteq> []) (the (Status (Some cs) cfg hs lg))))
     = mset (map rc_id (filter (refused cfg) cs))"
    by (simp add: Status_def Let_def filter_sort)
qed

end
