(* ===== verification/Cli_Suggest.thy ===== *)
theory Cli_Suggest
  imports Cli_Report
begin

text \<open>
  \<open>internal/cli/suggest.go\<close>: the labels \<open>berm suggest\<close> proposes for a service from the names in its encrypted file, that the report
  does not depend on any value, and that the labels, pasted, resolve to one file per secret.
\<close>

section \<open>suggest\<close>

record suggest_input =
  su_service :: string
  su_file :: string
  su_format :: string
  su_config :: "config option"

definition sourceHasFile :: "config \<Rightarrow> string \<Rightarrow> bool" where
  "sourceHasFile cfg service = (case c_sources cfg service of None \<Rightarrow> False | Some src \<Rightarrow> src_file src \<noteq> [])"

definition resolveUnderRoot :: "config \<Rightarrow> string \<Rightarrow> string" where
  "resolveUnderRoot cfg file =
     (if is_abs file \<or> g_sources_root (c_globals cfg) = [] then file else path_join (g_sources_root (c_globals cfg)) file)"

definition pickFormat :: "string \<Rightarrow> string \<Rightarrow> string \<Rightarrow> source_format" where
  "pickFormat flag cfgFormat file =
     (if flag \<noteq> [] then flag
      else if cfgFormat \<noteq> [] then cfgFormat
      else if has_suffix file ''.bin'' then FormatBinary
      else FormatDotenv)"

definition locateSource :: "suggest_input \<Rightarrow> cli_error + string \<times> source_format" where
  "locateSource inp =
     tryR
       (if su_file inp \<noteq> [] then Inr (su_file inp, [])
        else case su_config inp of
          Some cfg \<Rightarrow>
            if sourceHasFile cfg (su_service inp)
            then (case c_sources cfg (su_service inp) of
                    Some src \<Rightarrow> Inr (resolveUnderRoot cfg (src_file src), src_format src)
                  | None \<Rightarrow> Inl (NoSourceFile (su_service inp)))
            else if g_sources_root (c_globals cfg) = [] then Inl (NoSourceFile (su_service inp))
            else Inr (path_join (g_sources_root (c_globals cfg)) (su_service inp @ ''.sops.env''), [])
        | None \<Rightarrow> Inl (NoSourceFile (su_service inp)))
       (\<lambda>(file, cfgFormat).
          let format = pickFormat (su_format inp) cfgFormat file in
          if \<not> format_valid format then Inl (UnknownFormat format) else Inr (file, format))"

definition carriage :: char where "carriage = CHR 0x0D"

definition trim_right_cr :: "string \<Rightarrow> string" where
  "trim_right_cr s = rev (dropWhile (\<lambda>c. c = carriage) (rev s))"

text \<open>One line of the loop: the keys so far in order, also the set \<open>seen\<close>.\<close>

definition secret_line :: "string \<Rightarrow> string list \<Rightarrow> string \<Rightarrow> cli_error + string list" where
  "secret_line file keys raw =
     (let line = trim_right_cr raw in
      if length line = 0 \<or> line ! 0 = CHR ''#'' then Inr keys
      else case index_byte line CHR ''='' of
        None \<Rightarrow> Inl (LineWithoutEquals file)
      | Some eq \<Rightarrow>
          let key = take eq line in
          if key = [] then Inl (LineEmptyKey file)
          else if has_prefix key ''sops_'' then Inr keys
          else if key \<in> set keys then Inr keys
          else Inr (keys @ [key]))"

definition dotenvSecretKeys :: "string \<Rightarrow> string \<Rightarrow> cli_error + string list" where
  "dotenvSecretKeys file data = foldR (secret_line file) [] (split_byte newline data)"

definition printSourcesStanza :: "string \<Rightarrow> string \<Rightarrow> string \<Rightarrow> msg list" where
  "printSourcesStanza service stanzaFile format =
     [blank, Msg ''Paste into berm.yml (file: resolves under BERM_SOURCES_ROOT):'' [], blank, Msg ''    sources:'' [], Msg ''      %s:'' [service],
      Msg ''        file: %s'' [stanzaFile], Msg ''        format: %s'' [format], Msg ''        owner: %s'' [service]]"

text \<open>\<open>lower\<close> is \<open>strings.ToLower\<close> on all of Unicode.\<close>

definition suggestDotenv :: "(string \<Rightarrow> string) \<Rightarrow> string \<Rightarrow> string \<Rightarrow> string \<Rightarrow> string list \<Rightarrow> msg list" where
  "suggestDotenv lower service file stanzaFile keys =
     [Msg ''source file: %s (sops dotenv, %d secret key(s); values not read, not decrypted)'' [file, itoa (int (length keys))],
      blank, Msg ''Paste into the service's compose labels (file delivery is the secure default):'' [], blank,
      Msg ''    labels:'' [], Msg ''      berm.enable: \"true\"'' []]
     @ map (\<lambda>k. Msg ''      berm.file.%s.from: %q'' [lower k, k]) keys
     @ [Msg ''      # Env-shaped alternative. ENV IS THE EXPOSED PATH:'' [], Msg ''      # %s.'' [envExposureNote],
        Msg ''      # Uncomment only if this app cannot read its secrets from files,'' [],
        Msg ''      # and keep the acknowledgment, which affirms the exposure every time:'' [],
        Msg ''      # berm.delivery: \"client\"'' [], Msg ''      # berm.env: \"all\"'' [], Msg ''      # berm.env.acknowledge: \"true\"'' []]
     @ printSourcesStanza service stanzaFile ''dotenv''"

definition suggestBinary :: "(string \<Rightarrow> string) \<Rightarrow> string \<Rightarrow> string \<Rightarrow> string \<Rightarrow> msg list" where
  "suggestBinary lower service file stanzaFile =
     [Msg ''source file: %s (sops binary, one whole payload; not read, not decrypted)'' [file],
      blank, Msg ''Paste into the service's compose labels (a binary source is delivered whole to a file):'' [], blank,
      Msg ''    labels:'' [], Msg ''      berm.enable: \"true\"'' [],
      Msg ''      berm.file.%s.from: %q   # bare source ref delivers the whole binary payload'' [lower service, service]]
     @ printSourcesStanza service stanzaFile ''binary''"

definition suggest_footer :: "msg list" where
  "suggest_footer = [blank, Msg ''berm proposes, you commit: review the above and paste what you want.'' [],
     Msg ''No secret value was read or printed, and sops was never invoked to decrypt.'' []]"

text \<open>\<open>read\<close> is \<open>os.ReadFile\<close>.\<close>

definition Suggest :: "(string \<Rightarrow> string) \<Rightarrow> (string \<Rightarrow> string option) \<Rightarrow> suggest_input \<Rightarrow> report" where
  "Suggest lower read inp =
     (if su_service inp = [] then \<lparr>rp_lines = [], rp_err = Some ServiceRequired\<rparr>
      else case locateSource inp of
        Inl e \<Rightarrow> \<lparr>rp_lines = [], rp_err = Some e\<rparr>
      | Inr (file, format) \<Rightarrow>
          (case read file of
             None \<Rightarrow> \<lparr>rp_lines = [], rp_err = Some (SourceUnreadable file)\<rparr>
           | Some data \<Rightarrow>
               let header = [Msg ''berm suggest: service %q'' [su_service inp]]; stanzaFile = path_base file in
               if format = FormatBinary
               then \<lparr>rp_lines = header @ suggestBinary lower (su_service inp) file stanzaFile @ suggest_footer, rp_err = None\<rparr>
               else (case dotenvSecretKeys file data of
                       Inl e \<Rightarrow> \<lparr>rp_lines = header, rp_err = Some e\<rparr>
                     | Inr keys \<Rightarrow>
                         if length keys = 0 then \<lparr>rp_lines = header, rp_err = Some (NoSecretKeys file)\<rparr>
                         else \<lparr>rp_lines = header @ suggestDotenv lower (su_service inp) file stanzaFile keys @ suggest_footer, rp_err = None\<rparr>)))"

section \<open>Only names\<close>

text \<open>The part of a file that \<open>suggest\<close> may look at: each line up to its \<open>=\<close>.\<close>

definition name_part :: "string \<Rightarrow> string" where
  "name_part l = (case index_byte l CHR ''='' of None \<Rightarrow> l | Some i \<Rightarrow> take (Suc i) l)"

definition names_only :: "string \<Rightarrow> string list" where
  "names_only data = map name_part (split_byte newline data)"

lemma name_part_eq: "CHR ''='' \<notin> set a \<Longrightarrow> name_part (a @ CHR ''='' # v) = a @ ''=''"
  by (induction a) (auto simp: name_part_def split: option.splits)

lemma name_part_id: "CHR ''='' \<notin> set l \<Longrightarrow> name_part l = l"
  by (simp add: name_part_def iffD2 [OF index_byte_None])

lemma trim_right_cr_eq: "\<exists>v'. trim_right_cr (a @ CHR ''='' # v) = a @ CHR ''='' # v'"
proof -
  have "\<exists>w. dropWhile (\<lambda>c. c = carriage) (rev v @ [CHR ''=''] @ rev a) = w @ [CHR ''=''] @ rev a"
    by (induction "rev v" arbitrary: v) (auto simp: carriage_def dropWhile_append)
  then obtain w where "dropWhile (\<lambda>c. c = carriage) (rev v @ [CHR ''=''] @ rev a) = w @ [CHR ''=''] @ rev a" by blast
  then show ?thesis by (intro exI [of _ "rev w"]) (simp add: trim_right_cr_def)
qed

lemma index_byte_first: "c \<notin> set a \<Longrightarrow> index_byte (a @ c # v) c = Some (length a)"
  by (induction a) auto

lemma secret_line_name: "secret_line file keys (name_part l) = secret_line file keys l"
proof (cases "CHR ''='' \<in> set l")
  case True
  then obtain a v where l: "l = a @ CHR ''='' # v" "CHR ''='' \<notin> set a" by (metis split_list_first)
  obtain v1 v2 where "trim_right_cr l = a @ CHR ''='' # v1" "trim_right_cr (a @ ''='') = a @ CHR ''='' # v2"
    using trim_right_cr_eq [of a v] trim_right_cr_eq [of a "[]"] l(1) by auto
  moreover have "(a @ CHR ''='' # v1) ! 0 = (a @ CHR ''='' # v2) ! 0" by (cases a) simp_all
  ultimately show ?thesis
    using l by (simp add: name_part_eq secret_line_def Let_def index_byte_first)
qed (simp add: name_part_id)

lemma foldR_map_absorb: "(\<And>s x. f s (g x) = f s x) \<Longrightarrow> foldR f s (map g xs) = foldR f s xs"
  by (induction xs arbitrary: s) (auto simp: tryR_def split: sum.splits)

lemma dotenvSecretKeys_names: "names_only d = names_only d' \<Longrightarrow> dotenvSecretKeys file d = dotenvSecretKeys file d'"
  unfolding dotenvSecretKeys_def names_only_def
  using foldR_map_absorb [of "secret_line file" name_part, OF secret_line_name] by metis

text \<open>
  the proposal shows no value. Two file systems whose files agree on the part of each line up to its first
  equals sign give the same report, line for line, and the same error: nothing behind an equals sign reaches the terminal.
\<close>

theorem Suggest_no_values:
  assumes "map_option names_only \<circ> read = map_option names_only \<circ> read'"
  shows "Suggest lower read inp = Suggest lower read' inp"
proof -
  show ?thesis
  proof (cases "locateSource inp")
    case (Inr ff)
    obtain fl fmt where ff: "ff = (fl, fmt)" by (cases ff)
    have "read fl = None \<and> read' fl = None
        \<or> (\<exists>d d'. read fl = Some d \<and> read' fl = Some d' \<and> dotenvSecretKeys fl d = dotenvSecretKeys fl d')"
      using fun_cong [OF assms, of fl] by (cases "read fl"; cases "read' fl") (auto intro: dotenvSecretKeys_names)
    then show ?thesis using Inr ff by (elim disjE exE conjE) (simp_all add: Suggest_def Let_def)
  qed (simp add: Suggest_def)
qed

section \<open>The suggestion, pasted\<close>

text \<open>The labels an operator pastes, read back from the lines of the report; the values are Go-quoted, which is YAML's double quoting on keys.\<close>

definition label_of_line :: "msg \<Rightarrow> (string \<times> string) option" where
  "label_of_line m =
     (if msg_format m = ''      berm.enable: \"true\"'' then Some (''berm.enable'', ''true'')
      else if msg_format m = ''      berm.file.%s.from: %q''
      then Some (''berm.file.'' @ (msg_args m ! 0) @ ''.from'', msg_args m ! 1)
      else None)"

definition pasted_labels :: "report \<Rightarrow> smap" where
  "pasted_labels r = List.map_filter label_of_line (rp_lines r)"

text \<open>The source entry of the stanza, read back the same way: the lines from \<open>sources:\<close> on, each field from the line that prints it.\<close>

definition line_value :: "msg list \<Rightarrow> string \<Rightarrow> string" where
  "line_value ls fmt = (case find (\<lambda>m. msg_format m = fmt) ls of None \<Rightarrow> [] | Some m \<Rightarrow> msg_args m ! 0)"

definition pasted_source :: "report \<Rightarrow> (string \<times> source) option" where
  "pasted_source r =
     (let ls = dropWhile (\<lambda>m. msg_format m \<noteq> ''    sources:'') (rp_lines r) in
      if ls = [] then None
      else Some (line_value ls ''      %s:'',
        \<lparr>src_file = line_value ls ''        file: %s'', src_format = line_value ls ''        format: %s'', src_age_key = [],
         src_owner = line_value ls ''        owner: %s'', src_access = []\<rparr>))"

definition pasted_config :: "config \<Rightarrow> report \<Rightarrow> config" where
  "pasted_config cfg r =
     (case pasted_source r of None \<Rightarrow> cfg | Some (name, src) \<Rightarrow> cfg\<lparr>c_sources := (c_sources cfg)(name \<mapsto> src)\<rparr>)"

definition key_label :: "string \<Rightarrow> string" where
  "key_label k = ''file.'' @ go_lower k @ ''.from''"

definition key_delivery :: "string \<Rightarrow> file_delivery" where
  "key_delivery k = \<lparr>fd_name = go_lower k, fd_from = \<lparr>r_kind = RefKey, r_source = [], r_key = k\<rparr>, fd_path = [], fd_owner = [], fd_mode = []\<rparr>"

lemma map_filter_append: "List.map_filter f (xs @ ys) = List.map_filter f xs @ List.map_filter f ys"
  by (simp add: List.map_filter_def)

lemma pasted_dotenv:
  "List.map_filter label_of_line ([Msg ''berm suggest: service %q'' [svc]] @ suggestDotenv go_lower svc fl st keys @ suggest_footer)
     = (''berm.enable'', ''true'') # map (\<lambda>k. (''berm.'' @ key_label k, k)) keys"
proof -
  have "List.map_filter label_of_line (map (\<lambda>k. Msg ''      berm.file.%s.from: %q'' [go_lower k, k]) keys)
      = map (\<lambda>k. (''berm.'' @ key_label k, k)) keys"
    by (induction keys) (simp_all add: map_filter_simps label_of_line_def key_label_def)
  then show ?thesis
    unfolding suggestDotenv_def suggest_footer_def printSourcesStanza_def blank_def map_filter_append
    by (simp add: map_filter_simps label_of_line_def)
qed

lemma isKey_chars: "isKey k \<Longrightarrow> c \<in> set k \<Longrightarrow> is_AZ c \<or> is_digit c \<or> c = CHR ''_''"
  by (cases k) (auto simp: list_all_iff)

lemma key_char_lower:
  assumes "is_AZ c \<or> is_digit c \<or> c = CHR ''_''"
  shows "is_AZ c \<Longrightarrow> (of_char (lower_char c) :: nat) = of_char c + 32" "\<not> is_AZ c \<Longrightarrow> lower_char c = c"
proof -
  assume "is_AZ c"
  then have "(of_char c :: nat) + 32 < 256" "65 \<le> (of_char c :: nat)" "(of_char c :: nat) \<le> 90" by (auto simp: is_AZ_def Let_def)
  then show "(of_char (lower_char c) :: nat) = of_char c + 32"
    by (simp add: lower_char_def of_char_of take_bit_nat_eq_self)
next
  assume "\<not> is_AZ c"
  then show "lower_char c = c" by (auto simp: lower_char_def is_AZ_def Let_def)
qed

lemma key_char_small: "is_AZ c \<or> is_digit c \<or> c = CHR ''_'' \<Longrightarrow> (of_char c :: nat) < 96"
  by (auto simp: is_AZ_def is_digit_def Let_def)

lemma lower_char_inj:
  assumes "is_AZ c \<or> is_digit c \<or> c = CHR ''_''" "is_AZ d \<or> is_digit d \<or> d = CHR ''_''" "lower_char c = lower_char d"
  shows "c = d"
proof -
  note c = key_char_lower [OF assms(1)] note d = key_char_lower [OF assms(2)]
  have "is_AZ x \<longleftrightarrow> 96 < (of_char (lower_char x) :: nat)" if "is_AZ x \<or> is_digit x \<or> x = CHR ''_''" for x
  proof (cases "is_AZ x")
    case True
    then have "64 < (of_char x :: nat)" by (simp add: is_AZ_def Let_def)
    then show ?thesis using key_char_lower(1) [OF that True] True by linarith
  next
    case False
    then show ?thesis using key_char_lower(2) [OF that False] key_char_small [OF that] by simp
  qed
  from this [OF assms(1)] this [OF assms(2)] have "is_AZ c \<longleftrightarrow> is_AZ d" by (simp only: assms(3))
  then have "(of_char c :: nat) = of_char d"
  proof (cases "is_AZ c")
    case True
    with \<open>is_AZ c \<longleftrightarrow> is_AZ d\<close> have "is_AZ d" by simp
    from c(1) [OF True] d(1) [OF this] show ?thesis unfolding assms(3) by linarith
  next
    case False
    with \<open>is_AZ c \<longleftrightarrow> is_AZ d\<close> have "\<not> is_AZ d" by simp
    from c(2) [OF False] d(2) [OF this] show ?thesis using assms(3) by metis
  qed
  then show ?thesis by simp
qed

lemma key_lower_map: "isKey k \<Longrightarrow> go_lower k = map lower_char k"
proof -
  have m: "list_all (\<lambda>c. is_AZ c \<or> is_digit c \<or> c = CHR ''_'') k \<Longrightarrow> go_lower k = map lower_char k" for k
  proof (induction k)
    case (Cons c s)
    then have "(of_char c :: nat) < 96" using key_char_small by simp
    then have "c \<noteq> CHR 0xC4" "c \<noteq> CHR 0xE2" by auto
    with Cons show ?case by simp
  qed simp
  then show "isKey k \<Longrightarrow> go_lower k = map lower_char k" using isKey_chars by (intro m) (simp add: list_all_iff)
qed

lemma key_lower_inj: "isKey k \<Longrightarrow> isKey k' \<Longrightarrow> go_lower k = go_lower k' \<Longrightarrow> k = k'"
proof -
  assume k: "isKey k" "isKey k'" "go_lower k = go_lower k'"
  have "inj_on lower_char (set k \<union> set k')"
  proof (rule inj_onI)
    fix x y assume xy: "x \<in> set k \<union> set k'" "y \<in> set k \<union> set k'" "lower_char x = lower_char y"
    show "x = y"
      by (rule lower_char_inj [OF _ _ xy(3)]) (use xy(1,2) isKey_chars [OF k(1)] isKey_chars [OF k(2)] in blast)+
  qed
  from inj_on_map_eq_map [OF this] show "k = k'" using k(3) unfolding key_lower_map [OF k(1)] key_lower_map [OF k(2)] by simp
qed

lemma key_lower_name: "isKey k \<Longrightarrow> go_lower k \<noteq> [] \<and> CHR ''/'' \<notin> set (go_lower k)"
proof
  assume k: "isKey k"
  then show "go_lower k \<noteq> []" by (cases k) (simp_all add: key_lower_map)
  have ne: "lower_char c \<noteq> CHR ''/''" if "c \<in> set k" for c
  proof
    assume "lower_char c = CHR ''/''"
    then have "(of_char (lower_char c) :: nat) = 47" by simp
    with key_char_lower [OF isKey_chars [OF k that]] isKey_chars [OF k that] show False
      by (cases "is_AZ c") (auto simp: is_AZ_def is_digit_def Let_def)
  qed
  show "CHR ''/'' \<notin> set (go_lower k)" unfolding key_lower_map [OF k] set_map using ne by (metis imageE)
qed

lemma ParseRef_key: "isKey k \<Longrightarrow> ParseRef k = Inr \<lparr>r_kind = RefKey, r_source = [], r_key = k\<rparr>"
  using ParseRef_complete [of "\<lparr>r_kind = RefKey, r_source = [], r_key = k\<rparr>"] by (simp add: wf_ref_def)

lemma key_label_inj: "isKey k \<Longrightarrow> isKey k' \<Longrightarrow> key_label k = key_label k' \<Longrightarrow> k = k'"
  by (simp add: key_label_def key_lower_inj)

lemma parse_key_label:
  assumes "isKey k" "sget m (key_label k) = k" "file_entry (ps_files st) (go_lower k) \<in> {key_delivery k, file_entry [] (go_lower k)}"
  shows "parse_suffix m st (key_label k) = Inr (st\<lparr>ps_files := AList.update (go_lower k) (key_delivery k) (ps_files st)\<rparr>)"
proof -
  have "last_index_byte (go_lower k @ ''.from'') CHR ''.'' = Some (length (go_lower k))"
    using last_index_byte_split [of "CHR ''.''" "''from''" "go_lower k"] by simp
  moreover have "set_file_attr (file_entry (ps_files st) (go_lower k)) (go_lower k) ''from'' k = Inr (key_delivery k)"
    using assms(1,3) by (auto simp: set_file_attr_def ParseRef_key key_delivery_def file_entry_def result_simps)
  ultimately have "parseFile (ps_files st) (go_lower k @ ''.from'') k = Inr (AList.update (go_lower k) (key_delivery k) (ps_files st))"
    using key_lower_name [OF assms(1)] by (simp add: parseFile_def fileAttrs_def result_simps)
  then show ?thesis
    using assms(2) by (simp add: parse_suffix_simps key_label_def trim_prefix_def)
qed

lemma parse_enable: "parse_suffix m st ''enable'' = Inr st"
  by (simp add: parse_suffix_simps)

lemma parse_keys:
  assumes "list_all isKey ks" "\<forall>k \<in> set ks. sget m (key_label k) = k" "set xs \<subseteq> insert ''enable'' (key_label ` set ks)"
  shows "\<exists>fs. foldR (parse_suffix m) init_parse_state xs = Inr (init_parse_state\<lparr>ps_files := fs\<rparr>) \<and> wf_map fs
    \<and> (\<forall>n fd. map_of fs n = Some fd \<longleftrightarrow> (\<exists>k \<in> set ks. key_label k \<in> set xs \<and> n = go_lower k \<and> fd = key_delivery k))"
  using assms(3)
proof (induction xs rule: rev_induct)
  case Nil
  show ?case by (intro exI [of _ "[]"]) (simp add: init_parse_state_def)
next
  case (snoc x xs)
  then obtain fs where fs: "foldR (parse_suffix m) init_parse_state xs = Inr (init_parse_state\<lparr>ps_files := fs\<rparr>)" "wf_map fs"
    "\<forall>n fd. map_of fs n = Some fd \<longleftrightarrow> (\<exists>k \<in> set ks. key_label k \<in> set xs \<and> n = go_lower k \<and> fd = key_delivery k)" by auto
  show ?case
  proof (cases "x = ''enable''")
    case True
    then have "key_label k \<in> set (xs @ [x]) \<longleftrightarrow> key_label k \<in> set xs" for k by (simp add: key_label_def)
    with fs True show ?thesis by (intro exI [of _ fs]) (simp add: foldR_append result_simps parse_enable)
  next
    case False
    then obtain k where k: "k \<in> set ks" "x = key_label k" using snoc.prems by auto
    have key: "isKey k'" if "k' \<in> set ks" for k' using assms(1) that by (simp add: list_all_iff)
    have "file_entry fs (go_lower k) \<in> {key_delivery k, file_entry [] (go_lower k)}"
    proof (cases "map_of fs (go_lower k)")
      case (Some fd)
      then obtain k' where "k' \<in> set ks" "go_lower k = go_lower k'" "fd = key_delivery k'" using fs(3) by auto
      then show ?thesis using key_lower_inj [OF key [OF k(1)] key] Some by (simp add: file_entry_def)
    qed (simp add: file_entry_def)
    then have "parse_suffix m (init_parse_state\<lparr>ps_files := fs\<rparr>) x
        = Inr (init_parse_state\<lparr>ps_files := AList.update (go_lower k) (key_delivery k) fs\<rparr>)"
      unfolding k(2) using parse_key_label [OF key [OF k(1)], of m "init_parse_state\<lparr>ps_files := fs\<rparr>"] assms(2) k(1) by simp
    then have run: "foldR (parse_suffix m) init_parse_state (xs @ [x]) = Inr (init_parse_state\<lparr>ps_files := AList.update (go_lower k) (key_delivery k) fs\<rparr>)"
      unfolding foldR_append fs(1) by (simp add: tryR_def)
    have upd: "map_of (AList.update (go_lower k) (key_delivery k) fs) n = Some fd
        \<longleftrightarrow> (\<exists>k' \<in> set ks. key_label k' \<in> set (xs @ [x]) \<and> n = go_lower k' \<and> fd = key_delivery k')" for n fd
    proof (cases "n = go_lower k")
      case True
      have lhs: "map_of (AList.update (go_lower k) (key_delivery k) fs) n = Some (key_delivery k)" using True by (simp add: update_conv')
      show ?thesis unfolding lhs option.inject
      proof
        assume "key_delivery k = fd"
        then show "\<exists>k' \<in> set ks. key_label k' \<in> set (xs @ [x]) \<and> n = go_lower k' \<and> fd = key_delivery k'"
          using True k by (intro bexI [of _ k]) simp_all
      next
        assume "\<exists>k' \<in> set ks. key_label k' \<in> set (xs @ [x]) \<and> n = go_lower k' \<and> fd = key_delivery k'"
        then obtain k' where k': "k' \<in> set ks" "n = go_lower k'" "fd = key_delivery k'" by blast
        have "k' = k" by (rule key_lower_inj [OF key [OF k'(1)] key [OF k(1)]]) (simp only: True k'(2) [symmetric])
        then show "key_delivery k = fd" using k'(3) by simp
      qed
    next
      case False
      have ne: "key_label k' \<noteq> x" if "n = go_lower k'" for k' using that False k(2) by (auto simp: key_label_def)
      have lhs: "map_of (AList.update (go_lower k) (key_delivery k) fs) n = map_of fs n" using False by (simp add: update_conv')
      show ?thesis unfolding lhs fs(3) [rule_format] using ne by auto
    qed
    show ?thesis by (rule exI, intro conjI allI, rule run, rule wf_map_update [OF fs(2)], rule upd)
  qed
qed

lemma doorway_berm [simp]: "doorway (''berm.'' @ s) = Some s"
  by (simp add: doorway_def PrimaryPrefix_def trim_prefix_def)

lemma doorway_conflictE:
  assumes "doorway_conflict ls"
  obtains k v k' v' s where "(k, v) \<in> set ls" "(k', v') \<in> set ls" "doorway k = Some s" "doorway k' = Some s" "v \<noteq> v'"
  using assms unfolding doorway_conflict_def by (metis (no_types) not_None_eq prod.collapse)

abbreviation suggested :: "string list \<Rightarrow> smap" where
  "suggested keys \<equiv> (''berm.enable'', ''true'') # map (\<lambda>k. (''berm.'' @ key_label k, k)) keys"

lemma doorway_enable: "doorway ''berm.enable'' = Some ''enable''"
  using doorway_berm [of "''enable''"] by simp

lemma key_label_not_enable: "key_label k \<noteq> ''enable''" "''enable'' \<noteq> key_label k"
  by (simp_all add: key_label_def)

lemma suggested_label:
  "(\<exists>l. (l, v) \<in> set (suggested ks) \<and> doorway l = Some s) \<longleftrightarrow> s = ''enable'' \<and> v = ''true'' \<or> v \<in> set ks \<and> s = key_label v"
  by (auto simp: doorway_enable simp del: append_Cons)

lemma suggested_labelD:
  "(l, v) \<in> set (suggested ks) \<Longrightarrow> doorway l = Some s \<Longrightarrow> s = ''enable'' \<and> v = ''true'' \<or> v \<in> set ks \<and> s = key_label v"
  by (auto simp: doorway_enable simp del: append_Cons)

lemma suggested_merge:
  assumes "list_all isKey ks"
  obtains m where "mergeDoorways (suggested ks) = Inr m" "wf_map m" "sget m ''enable'' = ''true''"
    "\<forall>k \<in> set ks. sget m (key_label k) = k" "set (sorted_keys m) = insert ''enable'' (key_label ` set ks)"
proof -
  have key: "isKey k" if "k \<in> set ks" for k using assms that by (simp add: list_all_iff)
  have one: "v = v'" if "s = ''enable'' \<and> v = ''true'' \<or> v \<in> set ks \<and> s = key_label v"
      "s = ''enable'' \<and> v' = ''true'' \<or> v' \<in> set ks \<and> s = key_label v'" for s v v'
    using that by (auto simp: key_label_not_enable intro: key_label_inj [OF key key])
  have "\<not> doorway_conflict (suggested ks)"
  proof
    assume "doorway_conflict (suggested ks)"
    then obtain l v l' v' s where c: "(l, v) \<in> set (suggested ks)" "(l', v') \<in> set (suggested ks)"
      "doorway l = Some s" "doorway l' = Some s" "v \<noteq> v'"
      by (rule doorway_conflictE)
    have "v = v'"
      by (rule one [OF suggested_labelD [OF c(1,3)] suggested_labelD [OF c(2,4)]])
    with c(5) show False by simp
  qed
  then obtain m where m: "mergeDoorways (suggested ks) = Inr m"
    using mergeDoorways_conflict [of "suggested ks"] by (cases "mergeDoorways (suggested ks)") auto
  note mm = mergeDoorways_Inr [OF m]
  have val: "map_of m s = Some v \<longleftrightarrow> s = ''enable'' \<and> v = ''true'' \<or> v \<in> set ks \<and> s = key_label v" for s v
    unfolding conjunct2 [OF mm, rule_format] by (rule suggested_label)
  have enable: "sget m ''enable'' = ''true''" using val [of "''enable''" "''true''"] by (simp add: sget_def)
  have keys: "\<forall>k \<in> set ks. sget m (key_label k) = k"
  proof
    fix k assume "k \<in> set ks"
    then have "map_of m (key_label k) = Some k" by (simp add: val)
    then show "sget m (key_label k) = k" by (simp add: sget_def)
  qed
  have "set (sorted_keys m) = insert ''enable'' (key_label ` set ks)"
    unfolding set_sorted_keys dom_def by (auto simp: val)
  then show thesis by (rule that [OF m conjunct1 [OF mm] enable keys])
qed

definition key_deliveries :: "string list \<Rightarrow> file_delivery list \<Rightarrow> bool" where
  "key_deliveries ks fds \<longleftrightarrow> set fds = key_delivery ` set ks \<and> distinct (map fd_name fds)"

lemma Parse_suggested:
  assumes "list_all isKey ks"
  obtains fds where "Parse (suggested ks) = Inr (zero_spec\<lparr>sp_enabled := True, sp_files := fds\<rparr>)" "key_deliveries ks fds"
proof -
  from suggested_merge [OF assms] obtain m where m: "mergeDoorways (suggested ks) = Inr m" "wf_map m" "sget m ''enable'' = ''true''"
    "\<forall>k \<in> set ks. sget m (key_label k) = k" "set (sorted_keys m) = insert ''enable'' (key_label ` set ks)" .
  from parse_keys [OF assms m(4), of "sorted_keys m"] m(5) obtain fs where
    fs: "foldR (parse_suffix m) init_parse_state (sorted_keys m) = Inr (init_parse_state\<lparr>ps_files := fs\<rparr>)" "wf_map fs"
    and fs': "\<And>n fd. map_of fs n = Some fd \<longleftrightarrow> (\<exists>k \<in> set ks. key_label k \<in> set (sorted_keys m) \<and> n = go_lower k \<and> fd = key_delivery k)"
    by blast
  have fs3: "map_of fs n = Some fd \<longleftrightarrow> (\<exists>k \<in> set ks. n = go_lower k \<and> fd = key_delivery k)" for n fd
    unfolding fs' m(5) by blast
  let ?fds = "map (\<lambda>n. the (map_of fs n)) (sorted_keys fs)"
  have nm: "the (map_of fs n) \<in> key_delivery ` set ks \<and> fd_name (the (map_of fs n)) = n" if "n \<in> dom (map_of fs)" for n
  proof -
    from that obtain fd where fd: "map_of fs n = Some fd" by blast
    with fs3 obtain k where "k \<in> set ks" "n = go_lower k" "fd = key_delivery k" by blast
    with fd show ?thesis by (simp add: key_delivery_def)
  qed
  have "set ?fds = key_delivery ` set ks"
  proof
    show "set ?fds \<subseteq> key_delivery ` set ks" using nm by auto
    show "key_delivery ` set ks \<subseteq> set ?fds"
    proof
      fix fd assume "fd \<in> key_delivery ` set ks"
      then obtain k where "k \<in> set ks" "fd = key_delivery k" by blast
      then have "map_of fs (go_lower k) = Some fd" using fs3 by blast
      then show "fd \<in> set ?fds" by force
    qed
  qed
  moreover have "map fd_name ?fds = sorted_keys fs" unfolding map_map by (rule map_idI) (use nm in simp)
  ultimately have "key_deliveries ks ?fds" using distinct_sorted_keys [OF fs(2)] by (simp only: key_deliveries_def)
  moreover have "Parse (suggested ks) = Inr (zero_spec\<lparr>sp_enabled := True, sp_files := ?fds\<rparr>)"
    unfolding Parse_def m(1) using fs(1) m(3)
    by (simp add: result_simps parse_merged_def assemble_def init_parse_state_def zero_spec_def)
  ultimately show thesis by (rule that [rotated])
qed

lemma resolve_key:
  assumes "c_sources (rv_cfg r) (rv_default_source r) = Some src" "src_format src = FormatDotenv" "serviceOwns (rv_service r) (rv_default_source r) src"
    "isKey k" "resolveFile r (key_delivery k) = res"
  shows "\<exists>fb. res = Inr fb \<and> fb_source fb = rv_default_source r \<and> fb_key fb = k \<and> fb_path fb = ''/run/berm/'' @ go_lower k
    \<and> \<not> fb_whole fb \<and> fb_pointer_var fb = k @ ''_FILE''"
proof -
  have "k \<noteq> []" using assms(4) by auto
  then show ?thesis
    using assms(1-3) assms(5) [symmetric]
    by (simp add: resolveFile_def key_delivery_def isUnsetRef_def resolveRef_def sourceFormat_def result_simps serviceMayRead_def Let_def
        FormatDotenv_def format_valid_def)
qed

definition suggestion_plan :: "string \<Rightarrow> string list \<Rightarrow> plan \<Rightarrow> bool" where
  "suggestion_plan service ks p \<longleftrightarrow>
     p_service p = service \<and> p_env p = [] \<and> p_renders p = []
     \<and> set (map (\<lambda>f. (fb_source f, fb_key f, fb_path f)) (p_files p)) = (\<lambda>k. (service, k, ''/run/berm/'' @ go_lower k)) ` set ks
     \<and> distinct (map fb_path (p_files p))"

lemma Suggest_dotenv:
  assumes "locateSource inp = Inr (fl, FormatDotenv)" "read fl = Some data" "dotenvSecretKeys fl data = Inr ks" "ks \<noteq> []" "su_service inp \<noteq> []"
  shows "pasted_labels (Suggest go_lower read inp) = suggested ks"
  using assms by (simp add: Suggest_def Let_def pasted_labels_def pasted_dotenv [simplified])

lemma Suggest_dotenv_source:
  assumes "locateSource inp = Inr (fl, FormatDotenv)" "read fl = Some data" "dotenvSecretKeys fl data = Inr ks" "ks \<noteq> []" "su_service inp \<noteq> []"
  shows "pasted_source (Suggest go_lower read inp) = Some (su_service inp,
    \<lparr>src_file = path_base fl, src_format = FormatDotenv, src_age_key = [], src_owner = su_service inp, src_access = []\<rparr>)"
proof -
  let ?P = "\<lambda>m. msg_format m \<noteq> ''    sources:''"
  obtain pre where pre: "rp_lines (Suggest go_lower read inp) = pre @ printSourcesStanza (su_service inp) (path_base fl) ''dotenv'' @ suggest_footer"
    "\<forall>m \<in> set pre. ?P m"
    using assms by (simp add: Suggest_def Let_def suggestDotenv_def FormatDotenv_def FormatBinary_def blank_def)
  show ?thesis
    unfolding pasted_source_def Let_def pre(1) dropWhile_append2 [OF pre(2) [rule_format]] using pre(2)
    by (simp add: printSourcesStanza_def blank_def suggest_footer_def line_value_def FormatDotenv_def)
qed

lemma resolve_keys:
  assumes "c_sources (rv_cfg r) (rv_default_source r) = Some src" "src_format src = FormatDotenv" "serviceOwns (rv_service r) (rv_default_source r) src"
    "list_all isKey ks" "set fds \<subseteq> key_delivery ` set ks"
  shows "\<exists>fbs. mapR (resolveFile r) fds = Inr fbs
    \<and> map (\<lambda>f. (fb_source f, fb_key f, fb_path f)) fbs
      = map (\<lambda>fd. (rv_default_source r, r_key (fd_from fd), ''/run/berm/'' @ fd_name fd)) fds"
  using assms(5)
proof (induction fds)
  case (Cons fd fds)
  then obtain k where k: "k \<in> set ks" "fd = key_delivery k" by auto
  with assms(4) have "isKey k" by (simp add: list_all_iff)
  from resolve_key [OF assms(1-3) this refl] obtain fb where
    fb: "resolveFile r fd = Inr fb" "fb_source fb = rv_default_source r" "fb_key fb = k" "fb_path fb = ''/run/berm/'' @ go_lower k"
    unfolding k(2) by blast
  from Cons obtain fbs where "mapR (resolveFile r) fds = Inr fbs" "map (\<lambda>f. (fb_source f, fb_key f, fb_path f)) fbs
      = map (\<lambda>fd. (rv_default_source r, r_key (fd_from fd), ''/run/berm/'' @ fd_name fd)) fds" by auto
  then show ?case using fb by (simp add: result_simps k(2) key_delivery_def)
qed simp

text \<open>
  C28: the proposal works when pasted. When the keys of the dotenv source are legal berm keys, the labels that the
  report prints, put on the container, with the stanza it prints put in berm.yml and any valid default mechanism, resolve to a plan that delivers each key of the file,
  once, to its own file under /run/berm, from the source of the stanza, and nothing to the environment. That source is the service's own, with the base name of the
  file that was read. The labels are lower-cased and none collide.
\<close>

theorem Suggest_resolves:
  assumes "locateSource inp = Inr (fl, FormatDotenv)" "read fl = Some data" "dotenvSecretKeys fl data = Inr ks"
    "ks \<noteq> []" "su_service inp \<noteq> []" "list_all isKey ks" "mech_valid m" "r = Suggest go_lower read inp"
  shows "(\<exists>p. Resolve \<lparr>in_labels = pasted_labels r, in_container_id = cid, in_service = su_service inp,
      in_container_user = u, in_config = Some (pasted_config cfg r), in_default_delivery = m\<rparr> = Inr (Some p)
    \<and> suggestion_plan (su_service inp) ks p)
    \<and> map_option src_file (c_sources (pasted_config cfg r) (su_service inp)) = Some (path_base fl)"
proof -
  let ?svc = "su_service inp" and ?cfg = "pasted_config cfg r"
  have src: "c_sources ?cfg ?svc = Some \<lparr>src_file = path_base fl, src_format = FormatDotenv, src_age_key = [], src_owner = ?svc, src_access = []\<rparr>"
    unfolding assms(8) pasted_config_def Suggest_dotenv_source [of inp fl read data ks, OF assms(1-5)] by simp
  from Parse_suggested [OF assms(6)] obtain fds where
    p: "Parse (suggested ks) = Inr (zero_spec\<lparr>sp_enabled := True, sp_files := fds\<rparr>)" "key_deliveries ks fds" .
  let ?r = "\<lparr>rv_cfg = ?cfg, rv_service = ?svc, rv_default_source = ?svc, rv_container_user = u, rv_container_owner = [], rv_container_mode = []\<rparr>"
  from p(2) have fds: "set fds = key_delivery ` set ks" "distinct (map fd_name fds)" by (simp_all add: key_deliveries_def)
  obtain fbs where fbs: "mapR (resolveFile ?r) fds = Inr fbs"
    "map (\<lambda>f. (fb_source f, fb_key f, fb_path f)) fbs = map (\<lambda>fd. (?svc, r_key (fd_from fd), ''/run/berm/'' @ fd_name fd)) fds"
    using resolve_keys [of ?r _ ks fds] assms(5,6) fds(1) src by (auto simp: serviceOwns_def)
  have m: "m \<noteq> []" using assms(7) by (auto simp: mech_valid_def MechClient_def MechHook_def MechVolume_def)
  have "map fb_path fbs = map (snd \<circ> snd) (map (\<lambda>f. (fb_source f, fb_key f, fb_path f)) fbs)" by simp
  also have "\<dots> = map (\<lambda>n. ''/run/berm/'' @ n) (map fd_name fds)" unfolding fbs(2) by simp
  finally have "distinct (map fb_path fbs)" using fds(2) by (simp add: distinct_map inj_on_def)
  moreover have "set (map (\<lambda>f. (fb_source f, fb_key f, fb_path f)) fbs) = (\<lambda>k. (?svc, k, ''/run/berm/'' @ go_lower k)) ` set ks"
    unfolding fbs(2) set_map fds(1) image_image by (simp add: key_delivery_def)
  moreover have "Resolve \<lparr>in_labels = suggested ks, in_container_id = cid, in_service = ?svc,
      in_container_user = u, in_config = Some ?cfg, in_default_delivery = m\<rparr>
    = Inr (Some \<lparr>p_container = cid, p_service = ?svc, p_mechanism = m, p_env = [], p_files = fbs, p_renders = [], p_env_exposure = False\<rparr>)"
    using p(1) assms(5,7) m fbs(1)
    by (simp add: Resolve_def result_simps resolve_spec_def Let_def choose_mechanism_def resolve_renders_def zero_spec_def)
  moreover have "pasted_labels r = suggested ks"
    unfolding assms(8) by (rule Suggest_dotenv [of inp fl read data ks, OF assms(1-5)])
  ultimately show ?thesis
    unfolding suggestion_plan_def by (auto simp: src)
qed

definition sample_suggest :: suggest_input where
  "sample_suggest = \<lparr>su_service = ''web'', su_file = ''/s/web.sops.env'', su_format = [], su_config = None\<rparr>"

definition sample_sops_file :: "string \<Rightarrow> string \<Rightarrow> string option" where
  "sample_sops_file v p = (if p = ''/s/web.sops.env''
     then Some (''DB_URL=ENC['' @ v @ '']'' @ [newline] @ ''TOKEN=ENC[x]'' @ [carriage, newline] @ ''sops_mac=ENC[z]'' @ [newline]) else None)"

lemma sample_suggest_su_service: "su_service sample_suggest = ''web''"
  by (simp add: sample_suggest_def)

lemma sample_keys:
  "sample_sops_file ''a'' ''/s/web.sops.env'' = Some (the (sample_sops_file ''a'' ''/s/web.sops.env''))"
  "dotenvSecretKeys ''/s/web.sops.env'' (the (sample_sops_file ''a'' ''/s/web.sops.env'')) = Inr [''DB_URL'', ''TOKEN'']"
  "locateSource sample_suggest = Inr (''/s/web.sops.env'', FormatDotenv)" "list_all isKey [''DB_URL'', ''TOKEN'']"
  by (simp add: sample_sops_file_def) (code_simp, code_simp, code_simp)

theorem Suggest_resolves_witness:
  "\<exists>p. Resolve \<lparr>in_labels = pasted_labels (Suggest go_lower (sample_sops_file ''a'') sample_suggest), in_container_id = ''c'', in_service = ''web'',
      in_container_user = [], in_config = Some (pasted_config sample_config (Suggest go_lower (sample_sops_file ''a'') sample_suggest)), in_default_delivery = MechClient\<rparr> = Inr (Some p)
    \<and> suggestion_plan ''web'' [''DB_URL'', ''TOKEN''] p"
  using Suggest_resolves [of sample_suggest "''/s/web.sops.env''" "sample_sops_file ''a''" "the (sample_sops_file ''a'' ''/s/web.sops.env'')"
    "[''DB_URL'', ''TOKEN'']" MechClient "Suggest go_lower (sample_sops_file ''a'') sample_suggest" "''c''" "[]" sample_config,
    OF sample_keys(3,1,2) _ _ sample_keys(4)]
  unfolding sample_suggest_su_service by simp

theorem Suggest_no_values_witness:
  "Suggest go_lower (sample_sops_file ''hunter2'') sample_suggest = Suggest go_lower (sample_sops_file ''hunter3'') sample_suggest
   \<and> rp_err (Suggest go_lower (sample_sops_file ''hunter2'') sample_suggest) = None"
proof
  have "map_option names_only (sample_sops_file ''hunter2'' p) = map_option names_only (sample_sops_file ''hunter3'' p)" for p
  proof (cases "p = ''/s/web.sops.env''")
    case True
    show ?thesis unfolding True by code_simp
  qed (simp add: sample_sops_file_def)
  then show "Suggest go_lower (sample_sops_file ''hunter2'') sample_suggest = Suggest go_lower (sample_sops_file ''hunter3'') sample_suggest"
    by (intro Suggest_no_values) (simp add: fun_eq_iff)
  show "rp_err (Suggest go_lower (sample_sops_file ''hunter2'') sample_suggest) = None" by code_simp
qed

text \<open>
  Keys that are not legal berm keys are proposed all the same: a file with the secret \<open>api_key\<close> yields a label that the label parser refuses.
\<close>

theorem Suggest_lower_case_refused:
  "rp_err (Suggest go_lower (\<lambda>p. Some ''api_key=ENC[x]'') sample_suggest) = None
   \<and> isl (Parse (pasted_labels (Suggest go_lower (\<lambda>p. Some ''api_key=ENC[x]'') sample_suggest)))"
  by code_simp

end
