(* ===== verification/Daemon_Locks.thy ===== *)
theory Daemon_Locks
  imports Daemon_Start
begin

text \<open>
  What the goroutines of \<open>internal/daemon\<close> share under mutexes: the mutex per container that orders the pushes to its volume, and the
  ledger with its saves. Every mutex operation is a step of its own, so the interleavings inside a handler are covered. The locale \<open>machine\<close> is the
  common shape: a relation of steps, where it begins, and what every step keeps.
\<close>

section \<open>Machines with an invariant\<close>

text \<open>The states that a relation of steps reaches, and what is kept on the way.\<close>

locale machine =
  fixes step :: "'s \<Rightarrow> 's \<Rightarrow> bool" and begins :: "'s \<Rightarrow> bool" and inv :: "'s \<Rightarrow> bool"
  assumes begins_inv: "begins s \<Longrightarrow> inv s" and step_inv: "inv s \<Longrightarrow> step s s' \<Longrightarrow> inv s'"
begin

lemma steps_inv: "rtranclp step s s' \<Longrightarrow> inv s \<Longrightarrow> inv s'"
  by (induction rule: rtranclp_induct) (auto intro: step_inv)

lemma reached_inv: "rtranclp step s s' \<Longrightarrow> begins s \<Longrightarrow> inv s'"
  using steps_inv begins_inv by blast

end

text \<open>A run that stops only where no step is possible.\<close>

definition maximal_run :: "('s \<Rightarrow> 's \<Rightarrow> bool) \<Rightarrow> (nat \<Rightarrow> 's) \<Rightarrow> bool" where
  "maximal_run step f \<longleftrightarrow> (\<forall>i. step (f i) (f (Suc i)) \<or> f (Suc i) = f i \<and> (\<forall>s. \<not> step (f i) s))"

section \<open>The mutex per container\<close>

text \<open>
  \<open>keyedMutex\<close>: the map \<open>held\<close>, guarded by \<open>mu\<close>, to mutexes that are never removed. A mutex is a number; \<open>km_owner\<close> is who holds it. Goroutines are
  numbered too; each is somewhere in \<open>lock\<close>, or holds what \<open>lock\<close> returned.
\<close>

record keyed_mutex =
  km_mu :: "nat option"
  km_held :: "string \<Rightarrow> nat option"
  km_owner :: "nat \<Rightarrow> nat option"
  km_next :: nat

definition newKeyedMutex :: keyed_mutex where
  "newKeyedMutex = \<lparr>km_mu = None, km_held = Map.empty, km_owner = Map.empty, km_next = 0\<rparr>"

text \<open>The lookup under \<open>mu\<close>: the mutex of the key, made when absent.\<close>

definition lookup_mutex :: "string \<Rightarrow> keyed_mutex \<Rightarrow> nat \<times> keyed_mutex" where
  "lookup_mutex key k =
     (case km_held k key of
        Some m \<Rightarrow> (m, k)
      | None \<Rightarrow> (km_next k, k\<lparr>km_held := (km_held k)(key \<mapsto> km_next k), km_next := Suc (km_next k)\<rparr>))"

text \<open>
  A push of \<open>pushVolume\<close> to a container's volume: by the event loop for a started container, or by the reconcile loop, which has seen the volume without its manifest
  before it asks for the lock. \<open>At_mu\<close> is before \<open>k.mu.Lock\<close>, \<open>Has_mu\<close> before the lookup, \<open>Found\<close> before \<open>k.mu.Unlock\<close>, \<open>At_mutex\<close> before
  \<open>m.Lock\<close>. \<open>Pushing c m ds ws\<close> is in the critical section, with the files \<open>ds\<close> written and \<open>ws\<close> to write, the manifest last; \<open>Pushed\<close> is before
  the deferred unlock.
\<close>

type_synonym file_write = "string \<times> string"

datatype push_pc = Away | At_mu string | Has_mu string | Found string nat | At_mutex string nat
  | Pushing string nat "file_write list" "file_write list" | Pushed string nat

text \<open>\<open>pu_vols\<close> is what is in each volume; \<open>pu_log\<close>, for the statements only, what each push has written of which container, in the order they ended.\<close>

record pushes =
  pu_locks :: keyed_mutex
  pu_pc :: "nat \<Rightarrow> push_pc"
  pu_vols :: "string \<Rightarrow> string \<Rightarrow> string option"
  pu_log :: "(string \<times> file_write list) list"

definition push_start :: "pushes \<Rightarrow> bool" where
  "push_start s \<longleftrightarrow> pu_locks s = newKeyedMutex \<and> pu_pc s = (\<lambda>_. Away) \<and> pu_log s = []"

abbreviation at_pc :: "nat \<Rightarrow> push_pc \<Rightarrow> pushes \<Rightarrow> pushes" where
  "at_pc t pc s \<equiv> s\<lparr>pu_pc := (pu_pc s)(t := pc)\<rparr>"

abbreviation with_locks :: "keyed_mutex \<Rightarrow> pushes \<Rightarrow> pushes" where
  "with_locks k s \<equiv> s\<lparr>pu_locks := k\<rparr>"

definition write_file :: "string \<Rightarrow> file_write \<Rightarrow> pushes \<Rightarrow> pushes" where
  "write_file v w s = s\<lparr>pu_vols := (pu_vols s)(v := (pu_vols s v)(fst w \<mapsto> snd w))\<rparr>"

definition volume_ready :: "pushes \<Rightarrow> string \<Rightarrow> bool" where
  "volume_ready s v \<longleftrightarrow> pu_vols s v (path_base DefaultManifestPath) \<noteq> None"

text \<open>\<open>vol\<close> is the volume of a container; each file is written whole (\<open>WriteTmpfsFile_atomic\<close>), and a push may end early, on an error.\<close>

inductive lock_step :: "(string \<Rightarrow> string) \<Rightarrow> pushes \<Rightarrow> pushes \<Rightarrow> bool" for vol where
  take_mu: "pu_pc s t = At_mu c \<Longrightarrow> km_mu (pu_locks s) = None \<Longrightarrow>
     lock_step vol s (at_pc t (Has_mu c) (with_locks (pu_locks s\<lparr>km_mu := Some t\<rparr>) s))"
| look_up: "pu_pc s t = Has_mu c \<Longrightarrow> lookup_mutex c (pu_locks s) = (m, k) \<Longrightarrow>
     lock_step vol s (at_pc t (Found c m) (with_locks k s))"
| give_mu: "pu_pc s t = Found c m \<Longrightarrow>
     lock_step vol s (at_pc t (At_mutex c m) (with_locks (pu_locks s\<lparr>km_mu := None\<rparr>) s))"
| take_mutex: "pu_pc s t = At_mutex c m \<Longrightarrow> km_owner (pu_locks s) m = None \<Longrightarrow>
     lock_step vol s (at_pc t (Pushing c m [] ws) (with_locks (pu_locks s\<lparr>km_owner := (km_owner (pu_locks s))(m \<mapsto> t)\<rparr>) s))"
| wrote: "pu_pc s t = Pushing c m ds (w # ws) \<Longrightarrow>
     lock_step vol s (at_pc t (Pushing c m (ds @ [w]) ws) (write_file (vol c) w s))"
| ended: "pu_pc s t = Pushing c m ds ws \<Longrightarrow>
     lock_step vol s (at_pc t (Pushed c m) (s\<lparr>pu_log := pu_log s @ [(c, ds)]\<rparr>))"
| give_mutex: "pu_pc s t = Pushed c m \<Longrightarrow>
     lock_step vol s (at_pc t Away (with_locks (pu_locks s\<lparr>km_owner := (km_owner (pu_locks s))(m := None)\<rparr>) s))"

inductive push_step :: "(string \<Rightarrow> string) \<Rightarrow> pushes \<Rightarrow> pushes \<Rightarrow> bool" for vol where
  started: "pu_pc s t = Away \<Longrightarrow> push_step vol s (at_pc t (At_mu c) s)"
| reconciled: "pu_pc s t = Away \<Longrightarrow> \<not> volume_ready s (vol c) \<Longrightarrow> push_step vol s (at_pc t (At_mu c) s)"
| goes_on: "lock_step vol s s' \<Longrightarrow> push_step vol s s'"

text \<open>The mutex a goroutine has looked up, and the one it holds.\<close>

fun knows :: "push_pc \<Rightarrow> (string \<times> nat) option" where
  "knows (Found c m) = Some (c, m)"
| "knows (At_mutex c m) = Some (c, m)"
| "knows (Pushing c m ds ws) = Some (c, m)"
| "knows (Pushed c m) = Some (c, m)"
| "knows _ = None"

fun holds :: "push_pc \<Rightarrow> nat option" where
  "holds (Pushing c m ds ws) = Some m"
| "holds (Pushed c m) = Some m"
| "holds _ = None"

fun has_mu :: "push_pc \<Rightarrow> bool" where
  "has_mu (Has_mu c) = True"
| "has_mu (Found c m) = True"
| "has_mu _ = False"

definition locks_inv :: "pushes \<Rightarrow> bool" where
  "locks_inv s \<longleftrightarrow>
     (\<forall>t. has_mu (pu_pc s t) \<longleftrightarrow> km_mu (pu_locks s) = Some t)
     \<and> (\<forall>t c m. knows (pu_pc s t) = Some (c, m) \<longrightarrow> km_held (pu_locks s) c = Some m)
     \<and> (\<forall>c m. km_held (pu_locks s) c = Some m \<longrightarrow> m < km_next (pu_locks s))
     \<and> (\<forall>c c' m. km_held (pu_locks s) c = Some m \<longrightarrow> km_held (pu_locks s) c' = Some m \<longrightarrow> c = c')
     \<and> (\<forall>t m. holds (pu_pc s t) = Some m \<longleftrightarrow> km_owner (pu_locks s) m = Some t)"

lemma locks_inv_start: "push_start s \<Longrightarrow> locks_inv s"
  by (simp add: push_start_def locks_inv_def newKeyedMutex_def)

lemma inv_owner: "locks_inv s \<Longrightarrow> km_owner (pu_locks s) m = Some t \<longleftrightarrow> holds (pu_pc s t) = Some m"
  by (simp add: locks_inv_def)

lemma inv_mu: "locks_inv s \<Longrightarrow> km_mu (pu_locks s) = Some t \<longleftrightarrow> has_mu (pu_pc s t)"
  by (simp add: locks_inv_def)

lemma inv_knows: "locks_inv s \<Longrightarrow> knows (pu_pc s t) = Some (c, m) \<Longrightarrow> km_held (pu_locks s) c = Some m"
  by (simp add: locks_inv_def)

lemma inv_one_mutex: "locks_inv s \<Longrightarrow> km_held (pu_locks s) c = Some m \<Longrightarrow> km_held (pu_locks s) c' = Some m \<Longrightarrow> c = c'"
  by (simp add: locks_inv_def)

lemma lock_step_inv: "lock_step vol s s' \<Longrightarrow> locks_inv s \<Longrightarrow> locks_inv s'"
proof (induction rule: lock_step.induct)
  case (take_mu s t c)
  then have "\<not> has_mu (pu_pc s t')" for t' unfolding locks_inv_def by simp
  moreover have "km_owner (pu_locks s) m \<noteq> Some t" for m using take_mu(1) by (simp add: inv_owner [OF take_mu(3)])
  ultimately show ?case using take_mu unfolding locks_inv_def by (intro conjI) auto
next
  case (look_up s t c m k)
  have own: "km_owner (pu_locks s) m' \<noteq> Some t" for m' using look_up(1) by (simp add: inv_owner [OF look_up(3)])
  show ?case
  proof (cases "km_held (pu_locks s) c")
    case None
    then have k: "k = pu_locks s\<lparr>km_held := (km_held (pu_locks s))(c \<mapsto> m), km_next := Suc m\<rparr>" "m = km_next (pu_locks s)"
      using look_up(2) by (auto simp: lookup_mutex_def)
    have "km_held (pu_locks s) c' \<noteq> Some m" for c' using look_up(3) k(2) unfolding locks_inv_def by blast
    moreover have "knows (pu_pc s t') \<noteq> Some (c, m')" for t' m' using look_up(3) None unfolding locks_inv_def by auto
    ultimately show ?thesis using look_up(1,3) own unfolding locks_inv_def k(1) by (intro conjI) (auto simp: k(2) less_SucI)
  next
    case (Some m')
    then have "k = pu_locks s" "m = m'" using look_up(2) by (auto simp: lookup_mutex_def)
    then show ?thesis using look_up(1,3) Some own unfolding locks_inv_def by (intro conjI) auto
  qed
next
  case (give_mu s t c m)
  then have "km_mu (pu_locks s) = Some t" unfolding locks_inv_def by (metis has_mu.simps(2))
  then have "has_mu (pu_pc s t') \<longleftrightarrow> t' = t" for t' using give_mu(2) unfolding locks_inv_def by auto
  moreover have "km_owner (pu_locks s) m' \<noteq> Some t" for m' using give_mu(1) by (simp add: inv_owner [OF give_mu(2)])
  moreover have "km_held (pu_locks s) c = Some m" using inv_knows [OF give_mu(2), of t c m] give_mu(1) by simp
  ultimately show ?case using give_mu unfolding locks_inv_def by (intro conjI) auto
next
  case (take_mutex s t c m ws)
  have own: "km_owner (pu_locks s) m' \<noteq> Some t" if "m' \<noteq> m" for m' using take_mutex(1) that by (simp add: inv_owner [OF take_mutex(3)])
  have mu: "km_mu (pu_locks s) \<noteq> Some t" using take_mutex(1) by (simp add: inv_mu [OF take_mutex(3)])
  have held: "km_held (pu_locks s) c = Some m" using inv_knows [OF take_mutex(3), of t c m] take_mutex(1) by simp
  from take_mutex have "holds (pu_pc s t') \<noteq> Some m" for t' unfolding locks_inv_def by simp
  with own mu held show ?case using take_mutex unfolding locks_inv_def by (intro conjI) auto
next
  case (wrote s t c m ds w ws)
  have "km_mu (pu_locks s) \<noteq> Some t" using wrote(1) by (simp add: inv_mu [OF wrote(2)])
  moreover have "km_owner (pu_locks s) m' = Some t \<longleftrightarrow> m' = m" for m' using wrote(1) by (auto simp: inv_owner [OF wrote(2)])
  moreover have "km_held (pu_locks s) c = Some m" using inv_knows [OF wrote(2), of t c m] wrote(1) by simp
  ultimately show ?case using wrote unfolding locks_inv_def write_file_def by (intro conjI) auto
next
  case (ended s t c m ds ws)
  have "km_mu (pu_locks s) \<noteq> Some t" using ended(1) by (simp add: inv_mu [OF ended(2)])
  moreover have "km_owner (pu_locks s) m' = Some t \<longleftrightarrow> m' = m" for m' using ended(1) by (auto simp: inv_owner [OF ended(2)])
  moreover have "km_held (pu_locks s) c = Some m" using inv_knows [OF ended(2), of t c m] ended(1) by simp
  ultimately show ?case using ended unfolding locks_inv_def by (intro conjI) auto
next
  case (give_mutex s t c m)
  have own: "km_owner (pu_locks s) m' \<noteq> Some t" if "m' \<noteq> m" for m' using give_mutex(1) that by (simp add: inv_owner [OF give_mutex(2)])
  have mu: "km_mu (pu_locks s) \<noteq> Some t" using give_mutex(1) by (simp add: inv_mu [OF give_mutex(2)])
  have held: "km_held (pu_locks s) c = Some m" using inv_knows [OF give_mutex(2), of t c m] give_mutex(1) by simp
  from give_mutex have "km_owner (pu_locks s) m = Some t" unfolding locks_inv_def by (metis holds.simps(2))
  then have "holds (pu_pc s t') = Some m \<longleftrightarrow> t' = t" for t' using give_mutex(2) unfolding locks_inv_def by auto
  then show ?case using give_mutex own mu held unfolding locks_inv_def by (intro conjI) auto
qed

lemma push_step_inv: "push_step vol s s' \<Longrightarrow> locks_inv s \<Longrightarrow> locks_inv s'"
proof (induction rule: push_step.induct)
  case (started s t c)
  then show ?case using inv_owner [OF started(2)] inv_mu [OF started(2)] unfolding locks_inv_def by (intro conjI) auto
next
  case (reconciled s t c)
  then show ?case using inv_owner [OF reconciled(3)] inv_mu [OF reconciled(3)] unfolding locks_inv_def by (intro conjI) auto
next
  case (goes_on s s')
  then show ?case by (auto intro: lock_step_inv)
qed

interpretation push: machine "push_step vol" push_start locks_inv for vol
  by unfold_locales (auto intro: locks_inv_start push_step_inv)

text \<open>How far a goroutine is from the end of its push: the operation it is at, and the files it still writes.\<close>

fun phase :: "push_pc \<Rightarrow> nat" where
  "phase Away = 0"
| "phase (Pushed c m) = 1"
| "phase (Pushing c m ds ws) = 2"
| "phase (At_mutex c m) = 3"
| "phase (Found c m) = 4"
| "phase (Has_mu c) = 5"
| "phase (At_mu c) = 6"

fun to_write :: "push_pc \<Rightarrow> nat" where
  "to_write (Pushing c m ds ws) = length ws"
| "to_write _ = 0"

definition nearer :: "push_pc \<Rightarrow> push_pc \<Rightarrow> bool" where
  "nearer pc' pc \<longleftrightarrow> phase pc' < phase pc \<or> phase pc' = phase pc \<and> to_write pc' < to_write pc"

fun in_push :: "string \<Rightarrow> push_pc \<Rightarrow> bool" where
  "in_push c (Pushing c' m ds ws) = (c = c')"
| "in_push c (Pushed c' m) = (c = c')"
| "in_push c _ = False"

lemma in_push_knows: "in_push c pc \<Longrightarrow> \<exists>m. knows pc = Some (c, m) \<and> holds pc = Some m"
  by (cases pc) auto

lemma one_pusher:
  assumes "locks_inv s" "in_push c (pu_pc s t)" "in_push c (pu_pc s t')"
  shows "t = t'"
proof -
  obtain m m' where m: "knows (pu_pc s t) = Some (c, m)" "holds (pu_pc s t) = Some m"
    "knows (pu_pc s t') = Some (c, m')" "holds (pu_pc s t') = Some m'"
    using assms(2,3) in_push_knows by metis
  have "m = m'" using inv_knows [OF assms(1) m(1)] inv_knows [OF assms(1) m(3)] by simp
  then show ?thesis using m(2,4) inv_owner [OF assms(1)] by (metis option.inject)
qed

text \<open>Who is waited for is never stuck: the holder of \<open>mu\<close> or of a mutex has a step, and each goroutine can be waited out.\<close>

definition moves :: "(string \<Rightarrow> string) \<Rightarrow> nat \<Rightarrow> pushes \<Rightarrow> bool" where
  "moves vol t s \<longleftrightarrow> (\<exists>s'. lock_step vol s s' \<and> nearer (pu_pc s' t) (pu_pc s t) \<and> (\<forall>t'. t' \<noteq> t \<longrightarrow> pu_pc s' t' = pu_pc s t'))"

lemma moves_free:
  assumes "pu_pc s t = Has_mu c \<or> pu_pc s t = Found c m \<or> pu_pc s t = Pushing c m ds ws \<or> pu_pc s t = Pushed c m"
  shows "moves vol t s"
  using assms
proof (elim disjE)
  assume a: "pu_pc s t = Has_mu c"
  obtain m' k where "lookup_mutex c (pu_locks s) = (m', k)" by (metis prod.exhaust)
  from lock_step.look_up [OF a this] show ?thesis unfolding moves_def using a by (intro exI conjI) (auto simp: nearer_def)
next
  assume a: "pu_pc s t = Found c m"
  from lock_step.give_mu [OF a] show ?thesis unfolding moves_def using a by (intro exI conjI) (auto simp: nearer_def)
next
  assume a: "pu_pc s t = Pushing c m ds ws"
  show ?thesis
  proof (cases ws)
    case Nil
    from lock_step.ended [OF a] show ?thesis unfolding moves_def using a by (intro exI conjI) (auto simp: nearer_def)
  next
    case (Cons w ws')
    from lock_step.wrote [OF a [unfolded Cons]] show ?thesis
      unfolding moves_def using a Cons by (intro exI conjI) (auto simp: nearer_def write_file_def)
  qed
next
  assume a: "pu_pc s t = Pushed c m"
  from lock_step.give_mutex [OF a] show ?thesis unfolding moves_def using a by (intro exI conjI) (auto simp: nearer_def)
qed

lemma someone_moves:
  assumes "locks_inv s" "pu_pc s t \<noteq> Away"
  shows "\<exists>t'. moves vol t' s \<and> (t' = t \<or> has_mu (pu_pc s t') \<or> (\<exists>c m. pu_pc s t = At_mutex c m \<and> in_push c (pu_pc s t')))"
proof (cases "pu_pc s t")
  case (At_mu c)
  show ?thesis
  proof (cases "km_mu (pu_locks s)")
    case None
    from lock_step.take_mu [OF At_mu None] At_mu have "moves vol t s" unfolding moves_def by (intro exI conjI) (auto simp: nearer_def)
    then show ?thesis by blast
  next
    case (Some t')
    then have h: "has_mu (pu_pc s t')" using inv_mu [OF assms(1)] by simp
    then have "moves vol t' s" using moves_free by (cases "pu_pc s t'") auto
    then show ?thesis using h by blast
  qed
next
  case (At_mutex c m)
  show ?thesis
  proof (cases "km_owner (pu_locks s) m")
    case None
    from lock_step.take_mutex [OF At_mutex None] At_mutex have "moves vol t s"
      unfolding moves_def by (intro exI conjI) (auto simp: nearer_def)
    then show ?thesis by blast
  next
    case (Some t')
    then have h: "holds (pu_pc s t') = Some m" using inv_owner [OF assms(1)] by simp
    then obtain c' where k: "knows (pu_pc s t') = Some (c', m)" "in_push c' (pu_pc s t')" by (cases "pu_pc s t'") auto
    have "c' = c" using inv_one_mutex [OF assms(1) inv_knows [OF assms(1) k(1)] inv_knows [OF assms(1), of t c m]] At_mutex by simp
    moreover have "moves vol t' s" using h moves_free by (cases "pu_pc s t'") auto
    ultimately show ?thesis using k(2) At_mutex by blast
  qed
qed (use assms(2) moves_free in blast)+

text \<open>
  C16: one push per container, and no deadlock. However the event loop and the reconcile loop interleave, and however often a
  container restarts, at most one goroutine is inside the push of a container; so, when no two containers have the same volume, at most one is writing a
  volume (the lock is per container: containers that share a volume are not kept apart, see \<open>shared_volume_mixes\<close>). And whoever waits in \<open>lock\<close> waits for a
  goroutine that has a next step: itself, the one inside the short lookup, or the one in the push of the same container. So a slow push never holds up
  another container's.
\<close>

theorem pushes_exclusive:
  assumes "push_start s0" "rtranclp (push_step vol) s0 s"
  shows "(in_push c (pu_pc s t) \<and> in_push c' (pu_pc s t') \<and> (c = c' \<or> inj vol \<and> vol c = vol c') \<longrightarrow> t = t')
    \<and> (pu_pc s t \<noteq> Away \<longrightarrow>
        (\<exists>t'. moves vol t' s \<and> (t' = t \<or> has_mu (pu_pc s t') \<or> (\<exists>c m. pu_pc s t = At_mutex c m \<and> in_push c (pu_pc s t')))))"
proof (intro conjI impI)
  assume p: "in_push c (pu_pc s t) \<and> in_push c' (pu_pc s t') \<and> (c = c' \<or> inj vol \<and> vol c = vol c')"
  then have "c = c'" by (auto dest: injD)
  then show "t = t'" using one_pusher [OF push.reached_inv [OF assms(2,1)]] p by blast
qed (rule someone_moves [OF push.reached_inv [OF assms(2,1)]])

definition sample_pushes :: pushes where
  "sample_pushes = \<lparr>pu_locks = newKeyedMutex, pu_pc = (\<lambda>_. Away), pu_vols = (\<lambda>_. Map.empty), pu_log = []\<rparr>"

lemma sample_pushes_start: "push_start sample_pushes"
  by (simp add: push_start_def sample_pushes_def)

theorem pushes_exclusive_witness:
  "\<exists>t'. moves id t' (at_pc 0 (At_mu ''c'') sample_pushes)"
proof -
  have "rtranclp (push_step id) sample_pushes (at_pc 0 (At_mu ''c'') sample_pushes)"
    by (intro r_into_rtranclp push_step.started) (simp add: sample_pushes_def)
  from pushes_exclusive [OF sample_pushes_start this, of "''c''" 0 "''c''" 0] show ?thesis by auto
qed

section \<open>Pushes happen one after the other\<close>

definition write_all :: "(string \<Rightarrow> string option) \<Rightarrow> file_write list \<Rightarrow> string \<Rightarrow> string option" where
  "write_all m ws = foldl (\<lambda>m w. m(fst w \<mapsto> snd w)) m ws"

definition logged :: "string \<Rightarrow> pushes \<Rightarrow> file_write list" where
  "logged c s = concat (map snd (filter (\<lambda>e. fst e = c) (pu_log s)))"

text \<open>What a volume holds: the logged pushes to its container, in order, and what the goroutine that has its mutex has written so far.\<close>

definition serial_inv :: "(string \<Rightarrow> string) \<Rightarrow> (string \<Rightarrow> string \<Rightarrow> string option) \<Rightarrow> pushes \<Rightarrow> bool" where
  "serial_inv vol v0 s \<longleftrightarrow> locks_inv s
     \<and> (\<forall>t c m ds ws. pu_pc s t = Pushing c m ds ws \<longrightarrow> pu_vols s (vol c) = write_all (v0 (vol c)) (logged c s @ ds))
     \<and> (\<forall>c. (\<forall>t m ds ws. pu_pc s t \<noteq> Pushing c m ds ws) \<longrightarrow> pu_vols s (vol c) = write_all (v0 (vol c)) (logged c s))"

lemma write_all_snoc: "write_all m (ws @ [w]) = (write_all m ws)(fst w \<mapsto> snd w)"
  by (simp add: write_all_def)

lemma serial_frame:
  assumes "serial_inv vol v0 s" "locks_inv s'" "pu_vols s' = pu_vols s" "pu_log s' = pu_log s"
    and "\<And>t' c m ds ws. pu_pc s' t' = Pushing c m ds ws \<longleftrightarrow> pu_pc s t' = Pushing c m ds ws"
  shows "serial_inv vol v0 s'"
  using assms unfolding serial_inv_def logged_def by simp

lemma serial_pushing: "serial_inv vol v0 s \<Longrightarrow> pu_pc s t = Pushing c m ds ws \<Longrightarrow> pu_vols s (vol c) = write_all (v0 (vol c)) (logged c s @ ds)"
  unfolding serial_inv_def by blast

lemma serial_idle: "serial_inv vol v0 s \<Longrightarrow> (\<And>t m ds ws. pu_pc s t \<noteq> Pushing c m ds ws) \<Longrightarrow> pu_vols s (vol c) = write_all (v0 (vol c)) (logged c s)"
  unfolding serial_inv_def by blast

lemma serial_invI:
  assumes "locks_inv s"
    and "\<And>t c m ds ws. pu_pc s t = Pushing c m ds ws \<Longrightarrow> pu_vols s (vol c) = write_all (v0 (vol c)) (logged c s @ ds)"
    and "\<And>c. (\<And>t m ds ws. pu_pc s t \<noteq> Pushing c m ds ws) \<Longrightarrow> pu_vols s (vol c) = write_all (v0 (vol c)) (logged c s)"
  shows "serial_inv vol v0 s"
  unfolding serial_inv_def using assms by blast

lemma sole_pusher: "locks_inv s \<Longrightarrow> pu_pc s t = Pushing c m ds ws \<Longrightarrow> pu_pc s t' = Pushing c m' ds' ws' \<Longrightarrow> t' = t"
  using one_pusher [of s c t t'] by simp

lemma serial_take:
  assumes "serial_inv vol v0 s" "locks_inv s'" "pu_pc s t = At_mutex c m" "km_owner (pu_locks s) m = None"
    and s': "s' = at_pc t (Pushing c m [] ws) (with_locks (pu_locks s\<lparr>km_owner := (km_owner (pu_locks s))(m \<mapsto> t)\<rparr>) s)"
  shows "serial_inv vol v0 s'"
proof (rule serial_invI [OF assms(2)])
  have inv: "locks_inv s" using assms(1) by (simp add: serial_inv_def)
  have l: "logged d s' = logged d s" for d by (simp add: logged_def s')
  have v: "pu_vols s' = pu_vols s" by (simp add: s')
  have none: "pu_pc s t' \<noteq> Pushing c m' ds' ws'" for t' m' ds' ws'
  proof
    assume a: "pu_pc s t' = Pushing c m' ds' ws'"
    have "m' = m" using inv_knows [OF inv, of t' c m'] inv_knows [OF inv, of t c m] a assms(3) by simp
    then show False using inv_owner [OF inv, of m t'] a assms(4) by simp
  qed
  show "pu_vols s' (vol d) = write_all (v0 (vol d)) (logged d s' @ ds)" if "pu_pc s' t' = Pushing d m' ds ws'" for t' d m' ds ws'
  proof (cases "t' = t")
    case True
    then have "d = c" "ds = []" using that by (simp_all add: s')
    then show ?thesis using serial_idle [OF assms(1) none] unfolding l v by simp
  next
    case False
    then have "pu_pc s t' = Pushing d m' ds ws'" using that by (simp add: s')
    from serial_pushing [OF assms(1) this] show ?thesis unfolding l v .
  qed
  show "pu_vols s' (vol d) = write_all (v0 (vol d)) (logged d s')" if n: "\<And>t' m ds ws. pu_pc s' t' \<noteq> Pushing d m ds ws" for d
  proof -
    have "pu_pc s t' \<noteq> Pushing d m' ds' ws'" for t' m' ds' ws' using n [of t' m' ds' ws'] assms(3) by (cases "t' = t") (simp_all add: s')
    from serial_idle [OF assms(1) this] show ?thesis unfolding l v .
  qed
qed

lemma serial_wrote:
  assumes "serial_inv vol v0 s" "locks_inv s'" "inj vol" "pu_pc s t = Pushing c m ds (w # ws)"
    and s': "s' = at_pc t (Pushing c m (ds @ [w]) ws) (write_file (vol c) w s)"
  shows "serial_inv vol v0 s'"
proof (rule serial_invI [OF assms(2)])
  have inv: "locks_inv s" using assms(1) by (simp add: serial_inv_def)
  have l: "logged d s' = logged d s" for d by (simp add: logged_def s' write_file_def)
  have v: "pu_vols s' (vol d) = (if d = c then (pu_vols s (vol c))(fst w \<mapsto> snd w) else pu_vols s (vol d))" for d
    using assms(3) by (auto simp: s' write_file_def inj_def)
  show "pu_vols s' (vol d) = write_all (v0 (vol d)) (logged d s' @ ds')" if "pu_pc s' t' = Pushing d m' ds' ws'" for t' d m' ds' ws'
  proof (cases "t' = t")
    case True
    then have "d = c" "ds' = ds @ [w]" using that by (simp_all add: s' write_file_def)
    then show ?thesis
      using serial_pushing [OF assms(1,4)] unfolding l v by (simp add: write_all_snoc flip: append_assoc)
  next
    case False
    then have a: "pu_pc s t' = Pushing d m' ds' ws'" using that by (simp add: s' write_file_def)
    then have "d \<noteq> c" using False sole_pusher [OF inv assms(4)] by blast
    then show ?thesis using serial_pushing [OF assms(1) a] unfolding l v by simp
  qed
  show "pu_vols s' (vol d) = write_all (v0 (vol d)) (logged d s')" if n: "\<And>t' m ds ws. pu_pc s' t' \<noteq> Pushing d m ds ws" for d
  proof -
    have d: "d \<noteq> c" using n [of t] by (auto simp: s')
    have "pu_pc s t' \<noteq> Pushing d m' ds' ws'" for t' m' ds' ws'
      using n [of t' m' ds' ws'] assms(4) d by (cases "t' = t") (simp_all add: s' write_file_def)
    from serial_idle [OF assms(1) this] show ?thesis using d unfolding l v by simp
  qed
qed

lemma serial_ended:
  assumes "serial_inv vol v0 s" "locks_inv s'" "pu_pc s t = Pushing c m ds ws"
    and s': "s' = at_pc t (Pushed c m) (s\<lparr>pu_log := pu_log s @ [(c, ds)]\<rparr>)"
  shows "serial_inv vol v0 s'"
proof (rule serial_invI [OF assms(2)])
  have inv: "locks_inv s" using assms(1) by (simp add: serial_inv_def)
  have l: "logged d s' = (if d = c then logged c s @ ds else logged d s)" for d by (auto simp: logged_def s')
  have v: "pu_vols s' = pu_vols s" by (simp add: s')
  show "pu_vols s' (vol d) = write_all (v0 (vol d)) (logged d s' @ ds')" if "pu_pc s' t' = Pushing d m' ds' ws'" for t' d m' ds' ws'
  proof -
    have ne: "t' \<noteq> t" using that by (auto simp: s')
    then have a: "pu_pc s t' = Pushing d m' ds' ws'" using that by (simp add: s')
    then have "d \<noteq> c" using ne sole_pusher [OF inv assms(3)] by blast
    then show ?thesis using serial_pushing [OF assms(1) a] unfolding l v by simp
  qed
  show "pu_vols s' (vol d) = write_all (v0 (vol d)) (logged d s')" if n: "\<And>t' m ds ws. pu_pc s' t' \<noteq> Pushing d m ds ws" for d
  proof (cases "d = c")
    case True
    then show ?thesis using serial_pushing [OF assms(1,3)] unfolding l v by simp
  next
    case False
    have "pu_pc s t' \<noteq> Pushing d m' ds' ws'" for t' m' ds' ws'
      using n [of t' m' ds' ws'] assms(3) False by (cases "t' = t") (simp_all add: s')
    from serial_idle [OF assms(1) this] show ?thesis using False unfolding l v by simp
  qed
qed

lemma lock_step_serial:
  assumes "inj vol" "lock_step vol s s'" "serial_inv vol v0 s"
  shows "serial_inv vol v0 s'"
proof -
  have inv: "locks_inv s'" using assms(3) lock_step_inv [OF assms(2)] by (simp add: serial_inv_def)
  from assms(2) show ?thesis
  proof (cases rule: lock_step.cases)
    case (take_mutex t c m ws)
    then show ?thesis by (intro serial_take [OF assms(3) inv])
  next
    case (wrote t c m ds w ws)
    then show ?thesis by (intro serial_wrote [OF assms(3) inv assms(1)])
  next
    case (ended t c m ds ws)
    then show ?thesis by (intro serial_ended [OF assms(3) inv])
  qed (rule serial_frame [OF assms(3) inv]; auto)+
qed

lemma push_step_serial:
  assumes "inj vol" "push_step vol s s'" "serial_inv vol v0 s"
  shows "serial_inv vol v0 s'"
proof -
  have inv: "locks_inv s'" using assms(3) push_step_inv [OF assms(2)] by (simp add: serial_inv_def)
  from assms(2) show ?thesis
  proof (cases rule: push_step.cases)
    case goes_on
    then show ?thesis by (rule lock_step_serial [OF assms(1) _ assms(3)])
  qed (rule serial_frame [OF assms(3) inv]; auto)+
qed

text \<open>
  C17: pushes are serial. Each file of a push is a step of its own, pushes of all containers interleave and may fail half way; still, when
  no two containers have the same volume, and nobody is pushing to a container, its volume is what the pushes to it, one after the other in the order
  they ended, made of what was there before. So a push may be taken as one step, as the model of the daemon's handlers does.
\<close>

theorem pushes_serial:
  assumes "inj vol" "push_start s0" "rtranclp (push_step vol) s0 s" "\<And>t. \<not> in_push c (pu_pc s t)"
  shows "pu_vols s (vol c) = foldl write_all (pu_vols s0 (vol c)) (map snd (filter (\<lambda>e. fst e = c) (pu_log s)))"
proof -
  have "serial_inv vol (pu_vols s0) s0"
    using locks_inv_start [OF assms(2)] assms(2) by (simp add: serial_inv_def push_start_def logged_def write_all_def)
  from assms(3) this have "serial_inv vol (pu_vols s0) s"
  proof (induction rule: rtranclp_induct)
    case (step s1 s2)
    from push_step_serial [OF assms(1) step(2)] step.IH step.prems show ?case by simp
  qed
  moreover have "pu_pc s t \<noteq> Pushing c m ds ws" for t m ds ws using assms(4) [of t] by auto
  ultimately have "pu_vols s (vol c) = write_all (pu_vols s0 (vol c)) (logged c s)" by (rule serial_idle)
  moreover have "write_all v (concat wss) = foldl write_all v wss" for v wss
    by (induction wss arbitrary: v) (simp_all add: write_all_def)
  ultimately show ?thesis by (simp add: logged_def)
qed

text \<open>Runs of one goroutine: into the critical section, through its writes, and out.\<close>

lemma enters:
  assumes "pu_pc s t = At_mu c" "km_mu (pu_locks s) = None" "lookup_mutex c (pu_locks s\<lparr>km_mu := Some t\<rparr>) = (m, k)" "km_owner k m = None"
  shows "rtranclp (push_step vol) s
    (at_pc t (Pushing c m [] ws) (with_locks (k\<lparr>km_mu := None, km_owner := (km_owner k)(m \<mapsto> t)\<rparr>) s))"
proof -
  let ?s1 = "at_pc t (Has_mu c) (with_locks (pu_locks s\<lparr>km_mu := Some t\<rparr>) s)"
  let ?s2 = "at_pc t (Found c m) (with_locks k ?s1)"
  let ?s3 = "at_pc t (At_mutex c m) (with_locks (pu_locks ?s2\<lparr>km_mu := None\<rparr>) ?s2)"
  let ?s4 = "at_pc t (Pushing c m [] ws) (with_locks (pu_locks ?s3\<lparr>km_owner := (km_owner (pu_locks ?s3))(m \<mapsto> t)\<rparr>) ?s3)"
  have "push_step vol s ?s1" by (intro push_step.goes_on lock_step.take_mu assms(1,2))
  moreover have "push_step vol ?s1 ?s2" by (intro push_step.goes_on lock_step.look_up) (simp_all add: assms(3))
  moreover have "push_step vol ?s2 ?s3" by (intro push_step.goes_on lock_step.give_mu) simp
  moreover have "push_step vol ?s3 ?s4" by (intro push_step.goes_on lock_step.take_mutex) (simp_all add: assms(4))
  ultimately have "rtranclp (push_step vol) s ?s4" by (meson rtranclp.rtrancl_into_rtrancl rtranclp.rtrancl_refl)
  then show ?thesis by simp
qed

lemma writes:
  "pu_pc s t = Pushing c m ds (us @ ws) \<Longrightarrow>
     rtranclp (push_step vol) s (at_pc t (Pushing c m (ds @ us) ws) (s\<lparr>pu_vols := (pu_vols s)(vol c := write_all (pu_vols s (vol c)) us)\<rparr>))"
proof (induction us arbitrary: s ds)
  case Nil
  then have "at_pc t (Pushing c m (ds @ []) ws) (s\<lparr>pu_vols := (pu_vols s)(vol c := write_all (pu_vols s (vol c)) [])\<rparr>) = s"
    by (cases s) (simp add: write_all_def fun_upd_idem)
  then show ?case by (simp only: rtranclp.rtrancl_refl)
next
  case (Cons w us)
  let ?s1 = "at_pc t (Pushing c m (ds @ [w]) (us @ ws)) (write_file (vol c) w s)"
  have "push_step vol s ?s1" using Cons.prems by (intro push_step.goes_on lock_step.wrote) simp
  moreover have "rtranclp (push_step vol) ?s1
      (at_pc t (Pushing c m ((ds @ [w]) @ us) ws) (?s1\<lparr>pu_vols := (pu_vols ?s1)(vol c := write_all (pu_vols ?s1 (vol c)) us)\<rparr>))"
    by (rule Cons.IH) simp
  ultimately have "rtranclp (push_step vol) s
      (at_pc t (Pushing c m ((ds @ [w]) @ us) ws) (?s1\<lparr>pu_vols := (pu_vols ?s1)(vol c := write_all (pu_vols ?s1 (vol c)) us)\<rparr>))"
    by (rule converse_rtranclp_into_rtranclp)
  then show ?case by (simp add: write_file_def write_all_def fun_upd_def cong: if_cong)
qed

lemma leaves:
  assumes "pu_pc s t = Pushing c m ds ws"
  shows "rtranclp (push_step vol) s
    (at_pc t Away (with_locks (pu_locks s\<lparr>km_owner := (km_owner (pu_locks s))(m := None)\<rparr>) (s\<lparr>pu_log := pu_log s @ [(c, ds)]\<rparr>)))"
proof -
  let ?s1 = "at_pc t (Pushed c m) (s\<lparr>pu_log := pu_log s @ [(c, ds)]\<rparr>)"
  let ?s2 = "at_pc t Away (with_locks (pu_locks ?s1\<lparr>km_owner := (km_owner (pu_locks ?s1))(m := None)\<rparr>) ?s1)"
  have "push_step vol s ?s1" by (rule push_step.goes_on, rule lock_step.ended, rule assms)
  moreover have "push_step vol ?s1 ?s2" by (intro push_step.goes_on lock_step.give_mutex) simp
  ultimately have "rtranclp (push_step vol) s ?s2" by (meson rtranclp.rtrancl_into_rtrancl rtranclp.rtrancl_refl)
  then show ?thesis by simp
qed

text \<open>A push with nobody else in the locks.\<close>

lemma push_alone:
  assumes "pu_pc s t = At_mu c" "km_mu (pu_locks s) = None" "km_owner (pu_locks s) = Map.empty"
  shows "\<exists>s'. rtranclp (push_step vol) s s' \<and> pu_pc s' = (pu_pc s)(t := Away) \<and> km_mu (pu_locks s') = None
    \<and> km_owner (pu_locks s') = Map.empty \<and> pu_vols s' = (pu_vols s)(vol c := write_all (pu_vols s (vol c)) ws) \<and> pu_log s' = pu_log s @ [(c, ws)]"
proof -
  obtain m k where mk: "lookup_mutex c (pu_locks s\<lparr>km_mu := Some t\<rparr>) = (m, k)" by (metis prod.exhaust)
  have own: "km_owner k = Map.empty" using mk assms(3) by (auto simp: lookup_mutex_def split: option.splits)
  let ?s1 = "at_pc t (Pushing c m [] ws) (with_locks (k\<lparr>km_mu := None, km_owner := (km_owner k)(m \<mapsto> t)\<rparr>) s)"
  let ?s2 = "at_pc t (Pushing c m ws []) (?s1\<lparr>pu_vols := (pu_vols s)(vol c := write_all (pu_vols s (vol c)) ws)\<rparr>)"
  let ?s3 = "at_pc t Away (with_locks (pu_locks ?s2\<lparr>km_owner := (km_owner (pu_locks ?s2))(m := None)\<rparr>) (?s2\<lparr>pu_log := pu_log ?s2 @ [(c, ws)]\<rparr>))"
  have "rtranclp (push_step vol) s ?s1" by (rule enters [OF assms(1,2) mk]) (simp add: own)
  moreover have "rtranclp (push_step vol) ?s1 ?s2" using writes [of ?s1 t c m "[]" ws "[]" vol] by simp
  moreover have "rtranclp (push_step vol) ?s2 ?s3" by (rule leaves) simp
  ultimately have "rtranclp (push_step vol) s ?s3" by (meson rtranclp_trans)
  then show ?thesis by (intro exI [of _ ?s3] conjI) (simp_all add: own fun_eq_iff)
qed

theorem pushes_serial_witness:
  "\<exists>s. rtranclp (push_step id) sample_pushes s \<and> pu_log s = [(''c'', [(''x'', ''1'')])] \<and> pu_vols s ''c'' = [''x'' \<mapsto> ''1'']"
proof -
  let ?a = "at_pc 0 (At_mu ''c'') sample_pushes"
  have a: "push_step id sample_pushes ?a" by (intro push_step.started) (simp add: sample_pushes_def)
  obtain s where s: "rtranclp (push_step id) ?a s" "pu_pc s = (pu_pc ?a)(0 := Away)" "pu_log s = [(''c'', [(''x'', ''1'')])]"
    using push_alone [of ?a 0 "''c''" id "[(''x'', ''1'')]"] by (auto simp: sample_pushes_def newKeyedMutex_def)
  have r: "rtranclp (push_step id) sample_pushes s" using a s(1) by (rule converse_rtranclp_into_rtranclp)
  have "\<not> in_push ''c'' (pu_pc s t)" for t using s(2) by (simp add: sample_pushes_def)
  from pushes_serial [OF _ sample_pushes_start r this] s(3) have "pu_vols s ''c'' = [''x'' \<mapsto> ''1'']"
    by (simp add: write_all_def sample_pushes_def)
  with r s(3) show ?thesis by blast
qed

text \<open>
  The lock is the container's, not the volume's. Containers with the same volume, such as the replicas of one service under the default name, are not
  excluded: the volume can end with the manifest of one push over the file of the other, which no order of the two pushes gives.
\<close>

theorem shared_volume_mixes:
  assumes "a \<noteq> b" "vol a = vol b" "x \<noteq> y"
  shows "\<exists>s. rtranclp (push_step vol) sample_pushes s \<and> pu_pc s = (\<lambda>_. Away) \<and> pu_log s = [(b, [(x, u), (y, u)]), (a, [(x, w), (y, w)])]
    \<and> pu_vols s (vol a) = [x \<mapsto> u, y \<mapsto> w]"
proof -
  let ?a = "at_pc 0 (At_mu a) sample_pushes"
  let ?b = "at_pc 1 (At_mu b) ?a"
  let ?k1 = "\<lparr>km_mu = None, km_held = [a \<mapsto> 0], km_owner = [0 \<mapsto> 0], km_next = 1\<rparr>"
  let ?k2 = "\<lparr>km_mu = None, km_held = [a \<mapsto> 0, b \<mapsto> 1], km_owner = [0 \<mapsto> 0, 1 \<mapsto> 1], km_next = 2\<rparr>"
  let ?v = "vol a"
  let ?c1 = "at_pc 0 (Pushing a 0 [] [(x, w), (y, w)]) (with_locks ?k1 ?b)"
  let ?c2 = "at_pc 1 (Pushing b 1 [] [(x, u), (y, u)]) (with_locks ?k2 ?c1)"
  let ?c3 = "at_pc 0 (Pushing a 0 [(x, w)] [(y, w)]) (?c2\<lparr>pu_vols := (pu_vols ?c2)(?v := [x \<mapsto> w])\<rparr>)"
  let ?c4 = "at_pc 1 (Pushing b 1 [(x, u), (y, u)] []) (?c3\<lparr>pu_vols := (pu_vols ?c3)(?v := [x \<mapsto> u, y \<mapsto> u])\<rparr>)"
  let ?c5 = "at_pc 1 Away (with_locks (?k2\<lparr>km_owner := [0 \<mapsto> 0]\<rparr>) (?c4\<lparr>pu_log := [(b, [(x, u), (y, u)])]\<rparr>))"
  let ?c6 = "at_pc 0 (Pushing a 0 [(x, w), (y, w)] []) (?c5\<lparr>pu_vols := (pu_vols ?c5)(?v := [x \<mapsto> u, y \<mapsto> w])\<rparr>)"
  let ?c7 = "at_pc 0 Away (with_locks (?k2\<lparr>km_owner := Map.empty\<rparr>) (?c6\<lparr>pu_log := [(b, [(x, u), (y, u)]), (a, [(x, w), (y, w)])]\<rparr>))"
  have "push_step vol sample_pushes ?a" by (intro push_step.started) (simp add: sample_pushes_def)
  moreover have "push_step vol ?a ?b" by (intro push_step.reconciled) (simp_all add: sample_pushes_def volume_ready_def)
  ultimately have 0: "rtranclp (push_step vol) sample_pushes ?b" by (meson rtranclp.rtrancl_into_rtrancl rtranclp.rtrancl_refl)
  have 1: "rtranclp (push_step vol) ?b ?c1"
    using enters [of ?b 0 a 0 "\<lparr>km_mu = Some 0, km_held = [a \<mapsto> 0], km_owner = Map.empty, km_next = 1\<rparr>" vol "[(x, w), (y, w)]"]
    by (simp add: sample_pushes_def newKeyedMutex_def lookup_mutex_def)
  have 2: "rtranclp (push_step vol) ?c1 ?c2"
    using enters [of ?c1 1 b 1 "\<lparr>km_mu = Some 1, km_held = [a \<mapsto> 0, b \<mapsto> 1], km_owner = [0 \<mapsto> 0], km_next = 2\<rparr>" vol "[(x, u), (y, u)]"] assms(1)
    by (simp add: lookup_mutex_def)
  have 3: "rtranclp (push_step vol) ?c2 ?c3"
    using writes [of ?c2 0 a 0 "[]" "[(x, w)]" "[(y, w)]" vol] by (simp add: write_all_def sample_pushes_def)
  have 4: "rtranclp (push_step vol) ?c3 ?c4"
    using writes [of ?c3 1 b 1 "[]" "[(x, u), (y, u)]" "[]" vol] by (simp add: write_all_def sample_pushes_def flip: assms(2))
  have 5: "rtranclp (push_step vol) ?c4 ?c5"
    using leaves [of ?c4 1 b 1 "[(x, u), (y, u)]" "[]" vol] by (simp add: sample_pushes_def)
  have 6: "rtranclp (push_step vol) ?c5 ?c6"
    using writes [of ?c5 0 a 0 "[(x, w)]" "[(y, w)]" "[]" vol] by (simp add: write_all_def)
  have 7: "rtranclp (push_step vol) ?c6 ?c7"
    using leaves [of ?c6 0 a 0 "[(x, w), (y, w)]" "[]" vol] by (simp add: sample_pushes_def)
  have "rtranclp (push_step vol) sample_pushes ?c7" using 0 1 2 3 4 5 6 7 by (meson rtranclp_trans)
  then show ?thesis by (intro exI [of _ ?c7] conjI) (simp_all add: sample_pushes_def fun_eq_iff)
qed

text \<open>The reconcile loop decides before it has the lock and does not look again: it rewrites a volume that a start event has made ready meanwhile.\<close>

theorem reconcile_rewrites_ready:
  "\<not> volume_ready sample_pushes (vol c) \<and> push_step vol sample_pushes (at_pc 1 (At_mu c) sample_pushes)
   \<and> (\<exists>s. rtranclp (push_step vol) (at_pc 1 (At_mu c) sample_pushes) s \<and> pu_pc s = (\<lambda>_. Away) \<and> pu_log s = [(c, ws), (c, us)])"
proof (intro conjI)
  let ?a = "at_pc 1 (At_mu c) sample_pushes"
  let ?b = "at_pc 0 (At_mu c) ?a"
  show "\<not> volume_ready sample_pushes (vol c)" by (simp add: sample_pushes_def volume_ready_def)
  then show "push_step vol sample_pushes ?a" by (intro push_step.reconciled) (simp_all add: sample_pushes_def)
  have ab: "push_step vol ?a ?b" by (intro push_step.started) (simp add: sample_pushes_def)
  have b: "pu_pc ?b 0 = At_mu c" "km_mu (pu_locks ?b) = None" "km_owner (pu_locks ?b) = Map.empty" "pu_pc ?b 1 = At_mu c" "pu_log ?b = []"
    by (simp_all add: sample_pushes_def newKeyedMutex_def)
  from push_alone [OF b(1-3), of vol ws] obtain s1 where s1: "rtranclp (push_step vol) ?b s1" "pu_pc s1 = (pu_pc ?b)(0 := Away)" "km_mu (pu_locks s1) = None"
    "km_owner (pu_locks s1) = Map.empty" "pu_log s1 = [(c, ws)]" using b(5) by auto
  have "pu_pc s1 1 = At_mu c" using s1(2) b(4) by simp
  from push_alone [OF this s1(3,4), of vol us] obtain s2 where s2: "rtranclp (push_step vol) s1 s2" "pu_pc s2 = (pu_pc s1)(1 := Away)" "pu_log s2 = [(c, ws), (c, us)]"
    using s1(5) by auto
  have "pu_pc s2 = (\<lambda>_. Away)" using s1(2) s2(2) by (auto simp: sample_pushes_def)
  moreover have "rtranclp (push_step vol) ?a s2" using ab s1(1) s2(1) by (meson converse_rtranclp_into_rtranclp rtranclp_trans)
  ultimately show "\<exists>s. rtranclp (push_step vol) ?a s \<and> pu_pc s = (\<lambda>_. Away) \<and> pu_log s = [(c, ws), (c, us)]" using s2(3) by blast
qed

section \<open>Saves of the ledger\<close>

text \<open>
  \<open>RecordManifest\<close> and \<open>Forget\<close> change the records under \<open>l.mu\<close>, let go of it, and \<open>save\<close> takes it again for the snapshot it then writes without it. Between
  these three any goroutine runs. A save replaces the file whole or not at all (\<open>ledger_save_spec\<close>). \<open>sv_past\<close> is what the records have been, for the statements only.
\<close>

type_synonym records = "(string, container_record) gomap"

datatype change = Recorded manifest int | Forgotten string

fun change_records :: "change \<Rightarrow> records \<Rightarrow> records option" where
  "change_records (Recorded m now) rs =
     (if mn_container m = [] then None else Some (AList.update (mn_container m) (record_of m now) rs))"
| "change_records (Forgotten cid) rs = (case map_of rs cid of None \<Rightarrow> None | Some _ \<Rightarrow> Some (AList.delete cid rs))"

text \<open>The memory of one undisturbed call is that of the sequential model.\<close>

lemma change_is_RecordManifest:
  "RecordManifest json lg (Some m) now w = (e, lg', w') \<Longrightarrow>
     lg_records lg' = (case change_records (Recorded m now) (lg_records lg) of None \<Rightarrow> lg_records lg | Some rs \<Rightarrow> rs)"
  by (auto simp: RecordManifest_def Let_def split: if_splits prod.splits)

lemma change_is_Forget:
  "Forget json lg cid w = (e, lg', w') \<Longrightarrow>
     lg_records lg' = (case change_records (Forgotten cid) (lg_records lg) of None \<Rightarrow> lg_records lg | Some rs \<Rightarrow> rs)"
  by (auto simp: Forget_def Let_def split: option.splits prod.splits)

datatype save_pc = Not_saving | To_snapshot | Has_snapshot records

record saves =
  sv_mem :: records
  sv_disk :: "records option"
  sv_past :: "records set"
  sv_pc :: "nat \<Rightarrow> save_pc"

definition saves_start :: "saves \<Rightarrow> bool" where
  "saves_start s \<longleftrightarrow> (sv_disk s = None \<or> sv_disk s = Some (sv_mem s)) \<and> sv_past s = {sv_mem s} \<and> sv_pc s = (\<lambda>_. Not_saving)"

abbreviation save_at :: "nat \<Rightarrow> save_pc \<Rightarrow> saves \<Rightarrow> saves" where
  "save_at t pc s \<equiv> s\<lparr>sv_pc := (sv_pc s)(t := pc)\<rparr>"

inductive save_step :: "saves \<Rightarrow> saves \<Rightarrow> bool" where
  changed: "sv_pc s t = Not_saving \<Longrightarrow> change_records ch (sv_mem s) = Some rs \<Longrightarrow>
     save_step s (save_at t To_snapshot (s\<lparr>sv_mem := rs, sv_past := insert rs (sv_past s)\<rparr>))"
| snapshot: "sv_pc s t = To_snapshot \<Longrightarrow> save_step s (save_at t (Has_snapshot (sv_mem s)) s)"
| published: "sv_pc s t = Has_snapshot rs \<Longrightarrow> save_step s (save_at t Not_saving (s\<lparr>sv_disk := Some rs\<rparr>))"
| failed: "sv_pc s t \<noteq> Not_saving \<Longrightarrow> save_step s (save_at t Not_saving s)"

definition saves_inv :: "saves \<Rightarrow> bool" where
  "saves_inv s \<longleftrightarrow> sv_mem s \<in> sv_past s \<and> set_option (sv_disk s) \<subseteq> sv_past s
     \<and> (\<forall>t rs. sv_pc s t = Has_snapshot rs \<longrightarrow> rs \<in> sv_past s)"

lemma save_step_inv: "save_step s s' \<Longrightarrow> saves_inv s \<Longrightarrow> saves_inv s'"
proof (induction rule: save_step.induct)
  case (changed s t ch rs)
  then show ?case by (auto simp: saves_inv_def split: if_split_asm)
next
  case (snapshot s t)
  then show ?case by (simp add: saves_inv_def)
next
  case (published s t rs)
  then show ?case by (simp add: saves_inv_def)
next
  case (failed s t)
  then show ?case by (simp add: saves_inv_def)
qed

interpretation saves: machine save_step saves_start saves_inv
proof
  show "saves_start s \<Longrightarrow> saves_inv s" for s
    unfolding saves_start_def saves_inv_def by (elim conjE disjE) simp_all
  show "saves_inv s \<Longrightarrow> save_step s s' \<Longrightarrow> saves_inv s'" for s s' by (rule save_step_inv)
qed

text \<open>Two saves may publish in the other order: what a save that came later had written is lost, with no error anywhere.\<close>

lemma saves_overtake:
  assumes "change_records a r0 = Some r1" "change_records b r1 = Some r2"
    and "saves_start s0" "sv_mem s0 = r0"
  shows "\<exists>s. rtranclp save_step s0 s \<and> sv_pc s = (\<lambda>_. Not_saving) \<and> sv_mem s = r2 \<and> sv_disk s = Some r1"
proof -
  let ?s1 = "save_at 0 To_snapshot (s0\<lparr>sv_mem := r1, sv_past := insert r1 (sv_past s0)\<rparr>)"
  let ?s2 = "save_at 0 (Has_snapshot r1) ?s1"
  let ?s3 = "save_at 1 To_snapshot (?s2\<lparr>sv_mem := r2, sv_past := insert r2 (sv_past ?s2)\<rparr>)"
  let ?s4 = "save_at 1 (Has_snapshot r2) ?s3"
  let ?s5 = "save_at 1 Not_saving (?s4\<lparr>sv_disk := Some r2\<rparr>)"
  let ?s6 = "save_at 0 Not_saving (?s5\<lparr>sv_disk := Some r1\<rparr>)"
  have n: "sv_pc s0 = (\<lambda>_. Not_saving)" using assms(3) by (simp add: saves_start_def)
  have "save_step s0 ?s1" by (rule save_step.changed [of _ _ a]) (simp_all add: n assms(1,4))
  moreover have "save_step ?s1 ?s2" using save_step.snapshot [of ?s1 0] by simp
  moreover have "save_step ?s2 ?s3" by (rule save_step.changed [of _ _ b]) (simp_all add: n assms(2))
  moreover have "save_step ?s3 ?s4" using save_step.snapshot [of ?s3 1] by simp
  moreover have "save_step ?s4 ?s5" by (rule save_step.published) simp
  moreover have "save_step ?s5 ?s6" by (rule save_step.published) simp
  ultimately have "rtranclp save_step s0 ?s6" by (meson rtranclp.rtrancl_into_rtrancl rtranclp.rtrancl_refl)
  then show ?thesis by (intro exI [of _ ?s6] conjI) (simp_all add: n fun_eq_iff)
qed

text \<open>
  the ledger file never holds an invented history. Whatever changes and saves of the goroutines overlap, and whichever saves
  fail, the file is as it was found or holds, whole, the records as they were in memory at some moment.
\<close>

theorem ledger_saves:
  assumes "saves_start s0" "rtranclp save_step s0 s"
  shows "set_option (sv_disk s) \<subseteq> sv_past s \<and> sv_mem s \<in> sv_past s"
  using saves.reached_inv [OF assms(2,1)] by (simp add: saves_inv_def)

text \<open>
  But not the latest moment: when a container is destroyed while its injection is still being saved, the file can keep the record of a container that memory
  has forgotten, with no save left to run and none having failed. A restarted daemon, and \<open>berm stale\<close>, then report on it.
\<close>

theorem forgotten_comes_back:
  assumes "saves_start s0" "mn_container m \<noteq> []" "map_of (sv_mem s0) (mn_container m) = None"
  shows "\<exists>s. rtranclp save_step s0 s \<and> sv_pc s = (\<lambda>_. Not_saving) \<and> map_of (sv_mem s) (mn_container m) = None
    \<and> map_of (the (sv_disk s)) (mn_container m) = Some (record_of m now)"
proof -
  let ?r1 = "AList.update (mn_container m) (record_of m now) (sv_mem s0)"
  have "change_records (Recorded m now) (sv_mem s0) = Some ?r1" using assms(2) by simp
  moreover have "change_records (Forgotten (mn_container m)) ?r1 = Some (AList.delete (mn_container m) ?r1)" by (simp add: update_conv')
  ultimately obtain s where s: "rtranclp save_step s0 s" "sv_pc s = (\<lambda>_. Not_saving)" "sv_mem s = AList.delete (mn_container m) ?r1" "sv_disk s = Some ?r1"
    using saves_overtake [OF _ _ assms(1) refl] by blast
  then show ?thesis by (intro exI [of _ s]) (simp add: update_conv' delete_conv')
qed

end
