(* ===== verification/Daemon_Shutdown.thy ===== *)
theory Daemon_Shutdown
  imports Daemon_Locks
begin

text \<open>
  \<open>Run\<close> and the goroutines it starts: the accept loop with its handlers and the table of open connections, and the shutdown that waits for them all.
\<close>

section \<open>Run\<close>

datatype run_failure = New_failed new_error | Listen_failed listen_error

text \<open>A daemon that is up has its socket bound; \<open>bound\<close> is the mode the umask leaves on it.\<close>

definition Run :: "(string \<Rightarrow> ledger_file option) \<Rightarrow> int \<Rightarrow> start_config \<Rightarrow> fs \<Rightarrow> run_failure + wired" where
  "Run parse bound sc w =
     (case New parse sc w of
        Inl e \<Rightarrow> Inl (New_failed e)
      | Inr wi \<Rightarrow>
          (case listen bound (wi_sock_path wi) (wd_fs (dm_world (wi_daemon wi))) of
             (Some e, w') \<Rightarrow> Inl (Listen_failed e)
           | (None, w') \<Rightarrow> Inr (wi\<lparr>wi_daemon := set_fs w' (wi_daemon wi)\<rparr>)))"

text \<open>\<open>runDigest\<close>: one digest per tick, each of the daemon as it then is; an interval that does not parse disables it.\<close>

definition runDigest :: "(string \<Rightarrow> int option) \<Rightarrow> wired \<Rightarrow> ('h denv \<times> (string \<Rightarrow> open_error + string) \<times> daemon) list \<Rightarrow> notification option list" where
  "runDigest parse_duration wi ticks =
     (case digest_interval parse_duration wi of
        None \<Rightarrow> []
      | Some i \<Rightarrow> map (\<lambda>(env, hs, dm). SendDigest env hs dm) ticks)"

section \<open>The goroutines of run, and shutdown\<close>

text \<open>
  \<open>run\<close> starts the accept loop, the event loop and, as configured, the reconcile and the digest loop. When the context is done it closes the
  listener and every connection in the table, stops the tracker and waits for all of them; the accept loop itself waits for its handlers.
  Connections are numbered. \<open>In_hand\<close> is a connection that \<open>AcceptUnix\<close> has returned and \<open>track\<close> has not stored, \<open>Tracked\<close> one without its goroutine yet,
  \<open>Draining\<close> the \<open>wg.Wait\<close> of \<open>serve\<close>. \<open>answers\<close> are the connections whose peer sends and reads enough for their handler to return; the handler of
  another returns only when its connection is closed, since no deadline is set. The loops over the context return once it is done.
\<close>

datatype accept_pc = Accepting | In_hand nat | Tracked nat | Draining | Served
datatype run_pc = Running | Closing | Sweeping | Stopping | Joining | Exited

record goroutines =
  go_run :: run_pc
  go_accept :: accept_pc
  go_listening :: bool
  go_conns :: "nat set"
  go_open :: "nat set"
  go_handlers :: "nat set"
  go_next :: nat
  go_loops :: nat

definition srv_track :: "nat \<Rightarrow> goroutines \<Rightarrow> goroutines" where
  "srv_track c s = s\<lparr>go_conns := insert c (go_conns s)\<rparr>"

definition srv_untrack :: "nat \<Rightarrow> goroutines \<Rightarrow> goroutines" where
  "srv_untrack c s = s\<lparr>go_conns := go_conns s - {c}\<rparr>"

text \<open>The two halves of \<open>close\<close>: the listener, and the sweep over the table under its mutex.\<close>

definition close_listener :: "goroutines \<Rightarrow> goroutines" where
  "close_listener s = s\<lparr>go_listening := False\<rparr>"

definition close_conns :: "goroutines \<Rightarrow> goroutines" where
  "close_conns s = s\<lparr>go_open := go_open s - go_conns s\<rparr>"

text \<open>The deferred calls of a handler's goroutine.\<close>

definition handler_done :: "nat \<Rightarrow> goroutines \<Rightarrow> goroutines" where
  "handler_done c s = srv_untrack c (s\<lparr>go_open := go_open s - {c}, go_handlers := go_handlers s - {c}\<rparr>)"

definition run_start :: "wired \<Rightarrow> goroutines" where
  "run_start wi = \<lparr>go_run = Running, go_accept = Accepting, go_listening = True, go_conns = {}, go_open = {}, go_handlers = {}, go_next = 0,
     go_loops = 1 + (if runs_reconcile wi then 1 else 0) + (if digest_enabled wi then 1 else 0)\<rparr>"

inductive run_step :: "nat set \<Rightarrow> goroutines \<Rightarrow> goroutines \<Rightarrow> bool" for answers where
  accept: "go_accept s = Accepting \<Longrightarrow> go_listening s \<Longrightarrow>
     run_step answers s (s\<lparr>go_accept := In_hand (go_next s), go_open := insert (go_next s) (go_open s), go_next := Suc (go_next s)\<rparr>)"
| accept_fails: "go_accept s = Accepting \<Longrightarrow> run_step answers s (s\<lparr>go_accept := Draining\<rparr>)"
| track: "go_accept s = In_hand c \<Longrightarrow> run_step answers s (srv_track c (s\<lparr>go_accept := Tracked c\<rparr>))"
| spawn: "go_accept s = Tracked c \<Longrightarrow> run_step answers s (s\<lparr>go_accept := Accepting, go_handlers := insert c (go_handlers s)\<rparr>)"
| handled: "c \<in> go_handlers s \<Longrightarrow> c \<in> answers \<or> c \<notin> go_open s \<Longrightarrow> run_step answers s (handler_done c s)"
| drained: "go_accept s = Draining \<Longrightarrow> go_handlers s = {} \<Longrightarrow> run_step answers s (s\<lparr>go_accept := Served\<rparr>)"
| cancelled: "go_run s = Running \<Longrightarrow> run_step answers s (s\<lparr>go_run := Closing\<rparr>)"
| closed: "go_run s = Closing \<Longrightarrow> run_step answers s (close_listener (s\<lparr>go_run := Sweeping\<rparr>))"
| swept: "go_run s = Sweeping \<Longrightarrow> run_step answers s (close_conns (s\<lparr>go_run := Stopping\<rparr>))"
| stopped: "go_run s = Stopping \<Longrightarrow> run_step answers s (s\<lparr>go_run := Joining\<rparr>)"
| loop_ends: "go_run s \<noteq> Running \<Longrightarrow> 0 < go_loops s \<Longrightarrow> run_step answers s (s\<lparr>go_loops := go_loops s - 1\<rparr>)"
| joined: "go_run s = Joining \<Longrightarrow> go_accept s = Served \<Longrightarrow> go_loops s = 0 \<Longrightarrow> run_step answers s (s\<lparr>go_run := Exited\<rparr>)"

fun pending :: "accept_pc \<Rightarrow> nat set" where
  "pending (In_hand c) = {c}"
| "pending (Tracked c) = {c}"
| "pending _ = {}"

definition swept_already :: "run_pc \<Rightarrow> bool" where
  "swept_already pc \<longleftrightarrow> pc \<in> {Stopping, Joining, Exited}"

definition go_inv :: "goroutines \<Rightarrow> bool" where
  "go_inv s \<longleftrightarrow> finite (go_handlers s)
     \<and> go_open s \<subseteq> go_handlers s \<union> pending (go_accept s)
     \<and> go_handlers s \<subseteq> go_conns s \<and> go_conns s \<subseteq> go_handlers s \<union> pending (go_accept s)
     \<and> (\<forall>c \<in> go_handlers s \<union> pending (go_accept s). c < go_next s)
     \<and> (go_accept s = Served \<longrightarrow> go_handlers s = {})
     \<and> (go_run s \<notin> {Running, Closing} \<longrightarrow> \<not> go_listening s)
     \<and> (go_run s = Exited \<longrightarrow> go_accept s = Served \<and> go_loops s = 0)
     \<and> (\<forall>c. go_accept s = Tracked c \<longrightarrow> c \<in> go_conns s)
     \<and> pending (go_accept s) \<inter> go_handlers s = {}"

lemmas go_defs = srv_track_def srv_untrack_def close_listener_def close_conns_def handler_done_def

lemma run_step_inv: "run_step answers s s' \<Longrightarrow> go_inv s \<Longrightarrow> go_inv s'"
proof (induction rule: run_step.induct)
  case (accept s)
  then show ?case unfolding go_inv_def by (auto simp: less_Suc_eq)
next
  case (accept_fails s)
  then show ?case unfolding go_inv_def by auto
next
  case (track s c)
  then show ?case unfolding go_inv_def go_defs by auto
next
  case (spawn s c)
  then show ?case unfolding go_inv_def by auto
next
  case (handled c s)
  then show ?case unfolding go_inv_def go_defs by (cases "go_accept s") auto
next
  case (drained s)
  then show ?case unfolding go_inv_def by auto
next
  case (cancelled s)
  then show ?case unfolding go_inv_def by auto
next
  case (closed s)
  then show ?case unfolding go_inv_def go_defs by auto
next
  case (swept s)
  then show ?case unfolding go_inv_def go_defs by auto
next
  case (stopped s)
  then show ?case unfolding go_inv_def by auto
next
  case (loop_ends s)
  then show ?case unfolding go_inv_def by auto
next
  case (joined s)
  then show ?case unfolding go_inv_def by auto
qed

interpretation run: machine "run_step answers" "\<lambda>s. \<exists>wi. s = run_start wi" go_inv for answers
proof
  show "\<exists>wi. s = run_start wi \<Longrightarrow> go_inv s" for s by (auto simp: run_start_def go_inv_def)
  show "go_inv s \<Longrightarrow> run_step answers s s' \<Longrightarrow> go_inv s'" for s s' by (rule run_step_inv)
qed

text \<open>What is left to do once the listener is closed.\<close>

fun accept_left :: "accept_pc \<Rightarrow> nat" where
  "accept_left (In_hand c) = 5"
| "accept_left (Tracked c) = 4"
| "accept_left Accepting = 2"
| "accept_left Draining = 1"
| "accept_left Served = 0"

fun run_left :: "run_pc \<Rightarrow> nat" where
  "run_left Running = 5"
| "run_left Closing = 4"
| "run_left Sweeping = 3"
| "run_left Stopping = 2"
| "run_left Joining = 1"
| "run_left Exited = 0"

definition left_to_do :: "goroutines \<Rightarrow> nat" where
  "left_to_do s = accept_left (go_accept s) + card (go_handlers s) + go_loops s + run_left (go_run s)"

lemma run_step_left: "run_step answers s s' \<Longrightarrow> go_inv s \<Longrightarrow> \<not> go_listening s \<Longrightarrow> left_to_do s' < left_to_do s \<and> \<not> go_listening s'"
proof (induction rule: run_step.induct)
  case (spawn s c)
  then have "finite (go_handlers s)" by (simp add: go_inv_def)
  then have "card (insert c (go_handlers s)) \<le> Suc (card (go_handlers s))" by (simp add: card_insert_le_m1 card_insert_if)
  with spawn show ?case by (simp add: left_to_do_def)
next
  case (handled c s)
  then have "card (go_handlers s - {c}) < card (go_handlers s)" by (intro card_Diff1_less) (auto simp: go_inv_def)
  with handled show ?case by (simp add: left_to_do_def go_defs)
qed (simp_all add: left_to_do_def go_defs)

definition shutting :: "nat set \<Rightarrow> goroutines \<Rightarrow> bool" where
  "shutting answers s \<longleftrightarrow> go_inv s \<and> (go_run s = Sweeping \<and> pending (go_accept s) \<subseteq> answers \<or> swept_already (go_run s) \<and> go_open s \<subseteq> answers)"

lemma shutting_listening: "shutting answers s \<Longrightarrow> \<not> go_listening s"
  by (auto simp: shutting_def go_inv_def swept_already_def)

lemma shutting_step: "run_step answers s s' \<Longrightarrow> shutting answers s \<Longrightarrow> shutting answers s'"
proof -
  assume st: "run_step answers s s'" and sh: "shutting answers s"
  have inv: "go_inv s'" using run_step_inv [OF st] sh by (simp add: shutting_def)
  have "go_run s' = Sweeping \<and> pending (go_accept s') \<subseteq> answers \<or> swept_already (go_run s') \<and> go_open s' \<subseteq> answers"
    using st sh
  proof (induction rule: run_step.induct)
    case (swept s)
    then show ?case unfolding shutting_def go_inv_def swept_already_def go_defs by auto
  qed (auto simp: shutting_def swept_already_def go_defs go_inv_def)
  then show ?thesis using inv by (simp add: shutting_def)
qed

lemma shutting_progress:
  assumes "shutting answers s" "go_run s \<noteq> Exited"
  shows "\<exists>s'. run_step answers s s'"
proof (cases "go_run s")
  case Joining
  have open_ans: "go_open s \<subseteq> answers" using assms(1) Joining by (auto simp: shutting_def)
  show ?thesis
  proof (cases "go_loops s = 0")
    case False
    then show ?thesis using run_step.loop_ends [of s answers] Joining by auto
  next
    case True
    show ?thesis
    proof (cases "go_accept s")
      case Draining
      show ?thesis
      proof (cases "go_handlers s = {}")
        case False
        then obtain c where "c \<in> go_handlers s" by blast
        then show ?thesis using run_step.handled [of c s answers] open_ans by blast
      qed (use Draining run_step.drained in blast)
    qed (use True Joining run_step.accept_fails run_step.track run_step.spawn run_step.joined in blast)+
  qed
qed (use assms run_step.cancelled run_step.closed run_step.swept run_step.stopped in blast)+

lemma shutting_ends:
  assumes "maximal_run (run_step answers) f" "shutting answers (f n)"
  shows "\<exists>k. go_run (f k) = Exited \<and> shutting answers (f k)"
  using assms(2)
proof (induction "left_to_do (f n)" arbitrary: n rule: less_induct)
  case less
  show ?case
  proof (cases "go_run (f n) = Exited")
    case False
    then have "run_step answers (f n) (f (Suc n))"
      using shutting_progress [OF less.prems] assms(1) unfolding maximal_run_def by blast
    moreover from this have "left_to_do (f (Suc n)) < left_to_do (f n)"
      using run_step_left [OF _ _ shutting_listening [OF less.prems]] less.prems by (simp add: shutting_def)
    ultimately show ?thesis using less.hyps [of "Suc n"] shutting_step less.prems by blast
  qed (use less.prems in blast)
qed

text \<open>
  C18: the daemon shuts down. From the moment the listener is closed, every run of the goroutines that goes on as
  long as it can ends with \<open>run\<close> returned, no handler running and no connection open, provided a connection the accept loop has in hand at that
  moment is one whose peer completes its request. Silent peers with a connection in the table do not matter: the sweep closes them.
\<close>

theorem shutdown_ends:
  assumes "rtranclp (run_step answers) (run_start wi) s" "go_run s = Sweeping" "pending (go_accept s) \<subseteq> answers"
    and "maximal_run (run_step answers) f" "f 0 = s"
  shows "\<exists>n. go_run (f n) = Exited \<and> go_handlers (f n) = {} \<and> go_open (f n) = {}"
proof -
  have "go_inv s" using run.reached_inv [OF assms(1)] by blast
  then have "shutting answers (f 0)" using assms(2,3,5) by (simp add: shutting_def)
  from shutting_ends [OF assms(4) this] obtain n where n: "go_run (f n) = Exited" "go_inv (f n)" by (auto simp: shutting_def)
  then have "go_handlers (f n) = {} \<and> go_open (f n) = {}" unfolding go_inv_def by auto
  with n(1) show ?thesis by blast
qed

lemma maximal_run_exists: "\<exists>f. maximal_run step f \<and> f 0 = s"
proof -
  define nx where "nx u = (if \<exists>v. step u v then SOME v. step u v else u)" for u
  define f where "f n = (nx ^^ n) s" for n
  have "step u (nx u) \<or> nx u = u \<and> (\<forall>v. \<not> step u v)" for u unfolding nx_def by (auto intro: someI)
  then have "maximal_run step f" unfolding maximal_run_def f_def by simp
  moreover have "f 0 = s" by (simp add: f_def)
  ultimately show ?thesis by blast
qed

theorem shutdown_ends_witness:
  "\<forall>wi. \<exists>f n. f 0 = close_listener ((run_start wi)\<lparr>go_run := Sweeping\<rparr>) \<and> maximal_run (run_step {}) f \<and> go_run (f n) = Exited"
proof
  fix wi
  let ?a = "(run_start wi)\<lparr>go_run := Closing\<rparr>" and ?s = "close_listener ((run_start wi)\<lparr>go_run := Sweeping\<rparr>)"
  have "run_step {} (run_start wi) ?a" by (rule run_step.cancelled) (simp add: run_start_def)
  moreover have "run_step {} ?a ?s" using run_step.closed [of ?a "{}"] by (simp add: run_start_def)
  ultimately have r: "rtranclp (run_step {}) (run_start wi) ?s" by (meson rtranclp.rtrancl_into_rtrancl rtranclp.rtrancl_refl)
  obtain f where f: "maximal_run (run_step {}) f" "f 0 = ?s" using maximal_run_exists [of "run_step {}" ?s] by (elim exE conjE)
  have "go_run ?s = Sweeping" "pending (go_accept ?s) \<subseteq> {}" by (simp_all add: run_start_def close_listener_def)
  from shutdown_ends [OF r this f] f show "\<exists>f n. f 0 = ?s \<and> maximal_run (run_step {}) f \<and> go_run (f n) = Exited" by blast
qed

text \<open>A connection that \<open>AcceptUnix\<close> returned before the listener was closed, and \<open>track\<close> stores after the sweep, is never closed: \<open>run\<close> waits for a silent peer.\<close>

lemma loops_end:
  "go_run s \<noteq> Running \<Longrightarrow> go_loops s = n \<Longrightarrow> rtranclp (run_step answers) s (s\<lparr>go_loops := 0\<rparr>)"
proof (induction n arbitrary: s)
  case (Suc n)
  have "run_step answers s (s\<lparr>go_loops := n\<rparr>)" using run_step.loop_ends [of s answers] Suc.prems by simp
  moreover have "rtranclp (run_step answers) (s\<lparr>go_loops := n\<rparr>) (s\<lparr>go_loops := 0\<rparr>)" using Suc.IH [of "s\<lparr>go_loops := n\<rparr>"] Suc.prems by simp
  ultimately show ?case by (rule converse_rtranclp_into_rtranclp)
next
  case 0
  then have "s\<lparr>go_loops := 0\<rparr> = s" by (cases s) simp
  then show ?case by simp
qed

theorem shutdown_waits_for_silent_peer:
  "\<exists>s. rtranclp (run_step {}) (run_start wi) s \<and> go_run s = Joining \<and> (\<forall>s'. \<not> run_step {} s s')"
proof -
  let ?s0 = "run_start wi"
  let ?s1 = "?s0\<lparr>go_accept := In_hand 0, go_open := {0}, go_next := 1\<rparr>"
  let ?s2 = "?s1\<lparr>go_run := Closing\<rparr>"
  let ?s3 = "close_listener (?s1\<lparr>go_run := Sweeping\<rparr>)"
  let ?s4 = "close_listener (?s1\<lparr>go_run := Stopping\<rparr>)"
  let ?s5 = "srv_track 0 (?s4\<lparr>go_accept := Tracked 0\<rparr>)"
  let ?s6 = "?s5\<lparr>go_accept := Accepting, go_handlers := {0}\<rparr>"
  let ?s7 = "?s6\<lparr>go_accept := Draining\<rparr>"
  let ?s8 = "?s7\<lparr>go_run := Joining\<rparr>"
  let ?s9 = "?s8\<lparr>go_loops := 0\<rparr>"
  have "run_step {} ?s0 ?s1" using run_step.accept [of ?s0 "{}"] by (simp add: run_start_def)
  moreover have "run_step {} ?s1 ?s2" by (rule run_step.cancelled) (simp add: run_start_def)
  moreover have "run_step {} ?s2 ?s3" using run_step.closed [of ?s2 "{}"] by simp
  moreover have "run_step {} ?s3 ?s4" using run_step.swept [of ?s3 "{}"] by (simp add: close_conns_def close_listener_def run_start_def)
  moreover have "run_step {} ?s4 ?s5" by (rule run_step.track) (simp add: close_listener_def)
  moreover have "run_step {} ?s5 ?s6" using run_step.spawn [of ?s5 0 "{}"] by (simp add: go_defs run_start_def)
  moreover have "run_step {} ?s6 ?s7" using run_step.accept_fails [of ?s6 "{}"] by simp
  moreover have "run_step {} ?s7 ?s8" by (rule run_step.stopped) (simp add: go_defs)
  ultimately have "rtranclp (run_step {}) ?s0 ?s8" by (meson rtranclp.rtrancl_into_rtrancl rtranclp.rtrancl_refl)
  moreover have "rtranclp (run_step {}) ?s8 ?s9" by (rule loops_end [OF _ refl]) simp
  ultimately have "rtranclp (run_step {}) ?s0 ?s9" by (rule rtranclp_trans)
  moreover have "\<not> run_step {} ?s9 s'" for s'
    by (auto simp: go_defs run_start_def elim: run_step.cases)
  ultimately show ?thesis by (intro exI [of _ ?s9]) simp
qed

end
