(* ===== verification/Cli_Command.thy ===== *)
theory Cli_Command
  imports Cli_Suggest Daemon_Shutdown
begin

text \<open>
  \<open>config.Load\<close> and the commands of \<open>cmd/berm\<close>: what each does with its flags, and the exit status.
\<close>

section \<open>The commands\<close>

text \<open>\<open>config.Load\<close>: \<open>yaml\<close> reads the body of \<open>berm.yml\<close>, the globals come from the environment.\<close>

definition Load :: "(string \<Rightarrow> config option) \<Rightarrow> (string \<Rightarrow> int option) \<Rightarrow> (string \<Rightarrow> string) \<Rightarrow> (string \<Rightarrow> string option) \<Rightarrow> string \<Rightarrow> cli_error + config" where
  "Load yaml parse_duration getenv read path =
     (case read path of
        None \<Rightarrow> Inl ConfigUnread
      | Some data \<Rightarrow>
          (case yaml data of
             None \<Rightarrow> Inl ConfigUnparsed
           | Some cfg \<Rightarrow> Inr (cfg\<lparr>c_globals := loadGlobals parse_duration getenv\<rparr>)))"

record command_env =
  cm_yaml :: "string \<Rightarrow> config option"
  cm_parse_duration :: "string \<Rightarrow> int option"
  cm_getenv :: "string \<Rightarrow> string"
  cm_read :: "string \<Rightarrow> string option"
  cm_list :: "container list option"
  cm_list2 :: "container list option"
  cm_sops :: sops_env
  cm_sha256 :: "string \<Rightarrow> string"
  cm_ledger :: "string \<Rightarrow> ledger_file option"
  cm_fs :: fs
  cm_render :: "msg \<Rightarrow> string"
  cm_lower :: "string \<Rightarrow> string"
  cm_now :: int
  cm_sink :: bool
  cm_umask_mode :: int

definition loadConfig :: "command_env \<Rightarrow> string \<Rightarrow> cli_error + config" where
  "loadConfig ce cfgPath = Load (cm_yaml ce) (cm_parse_duration ce) (cm_getenv ce) (cm_read ce) cfgPath"

definition hashSource :: "command_env \<Rightarrow> config \<Rightarrow> string \<Rightarrow> open_error + string" where
  "hashSource ce cfg = SourceCipherHash \<lparr>oe_cfg = cfg, oe_sops = cm_sops ce, oe_read_cipher = cm_read ce, oe_sha256_hex = cm_sha256 ce\<rparr>"

definition failed :: "cli_error \<Rightarrow> report" where
  "failed e = \<lparr>rp_lines = [], rp_err = Some e\<rparr>"

definition runStatus :: "command_env \<Rightarrow> string \<Rightarrow> string \<Rightarrow> report" where
  "runStatus ce cfgPath ledgerPath =
     (case loadConfig ce cfgPath of
        Inl e \<Rightarrow> failed e
      | Inr cfg \<Rightarrow>
          (case SelectRuntime (Some cfg) of
             Inl n \<Rightarrow> failed (UnknownRuntime n)
           | Inr rt \<Rightarrow>
               (case fst (LoadLedger (cm_ledger ce) ledgerPath (cm_fs ce)) of
                  Inl e \<Rightarrow> failed (LedgerFailed e)
                | Inr lg \<Rightarrow> cli_Status (cm_render ce) (cm_list ce) (cm_list2 ce) cfg (hashSource ce cfg) lg)))"

definition runStale :: "command_env \<Rightarrow> string \<Rightarrow> string \<Rightarrow> report" where
  "runStale ce cfgPath ledgerPath =
     (case loadConfig ce cfgPath of
        Inl e \<Rightarrow> failed e
      | Inr cfg \<Rightarrow>
          (case fst (LoadLedger (cm_ledger ce) ledgerPath (cm_fs ce)) of
             Inl e \<Rightarrow> failed (LedgerFailed e)
           | Inr lg \<Rightarrow> Stale lg (hashSource ce cfg)))"

definition runSuggest :: "command_env \<Rightarrow> string \<Rightarrow> string \<Rightarrow> string \<Rightarrow> string \<Rightarrow> report" where
  "runSuggest ce cfgPath service file format =
     (case loadConfig ce cfgPath of
        Inr cfg \<Rightarrow> Suggest (cm_lower ce) (cm_read ce) \<lparr>su_service = service, su_file = file, su_format = format, su_config = Some cfg\<rparr>
      | Inl e \<Rightarrow>
          if file = [] then failed e
          else Suggest (cm_lower ce) (cm_read ce) \<lparr>su_service = service, su_file = file, su_format = format, su_config = None\<rparr>)"

definition runValidate :: "command_env \<Rightarrow> string \<Rightarrow> report" where
  "runValidate ce cfgPath =
     (case loadConfig ce cfgPath of
        Inl e \<Rightarrow> failed e
      | Inr cfg \<Rightarrow>
          (case SelectRuntime (Some cfg) of
             Inl n \<Rightarrow> failed (UnknownRuntime n)
           | Inr rt \<Rightarrow> Validate (cm_render ce) (cm_list ce) cfg))"

definition runHealthz :: "command_env \<Rightarrow> string \<Rightarrow> int \<Rightarrow> report" where
  "runHealthz ce path staleAfter =
     (let h = fst (Healthz path staleAfter (cm_now ce) (cm_fs ce)) in
      \<lparr>rp_lines = [], rp_err = (if health_ok h then None else Some (Unhealthy h))\<rparr>)"

text \<open>\<open>main\<close>: cobra prints no error, and neither does \<open>main\<close>.\<close>

definition exit_status :: "report \<Rightarrow> int" where
  "exit_status r = (if rp_err r = None then 0 else 1)"

text \<open>
  \<open>runDaemon\<close> up to where it blocks. \<open>cm_sink\<close> is whether the sink can be built. What the configuration of \<open>Run\<close> leaves out is zero.
\<close>

datatype daemon_failure = Config_failed cli_error | Runtime_failed string | Sink_failed | Run_failed run_failure

definition daemon_config :: "config \<Rightarrow> string \<Rightarrow> start_config" where
  "daemon_config cfg sockFlag =
     \<lparr>sc_runtime = True, sc_berm = Some cfg, sc_opener = True, sc_sink = True, sc_default_delivery = [], sc_socket_path = sockFlag,
      sc_ledger_path = [], sc_volume_root = [], sc_client_timeout = 0, sc_reconcile_interval = 0, sc_heartbeat_path = [],
      sc_digest_enabled = False, sc_digest_schedule = []\<rparr>"

definition runDaemon :: "command_env \<Rightarrow> string \<Rightarrow> string \<Rightarrow> daemon_failure + wired" where
  "runDaemon ce cfgPath sockFlag =
     (case loadConfig ce cfgPath of
        Inl e \<Rightarrow> Inl (Config_failed e)
      | Inr cfg \<Rightarrow>
          (case SelectRuntime (Some cfg) of
             Inl n \<Rightarrow> Inl (Runtime_failed n)
           | Inr rt \<Rightarrow>
               if \<not> cm_sink ce then Inl Sink_failed
               else (case Run (cm_ledger ce) (cm_umask_mode ce) (daemon_config cfg sockFlag) (cm_fs ce) of
                       Inl e \<Rightarrow> Inl (Run_failed e) | Inr wi \<Rightarrow> Inr wi)))"

section \<open>Properties\<close>

lemma resolveUnderRoot_is_resolvePath: "resolveUnderRoot cfg f = resolvePath cfg f"
  by (simp add: resolveUnderRoot_def resolvePath_def)

text \<open>
  The companion commands' reports do not depend on sops. What status, stale, validate and suggest print and return does not depend on the sops program
  in any way: with any other sops, whatever it answers, the whole report is the same. All of them hash or list the ciphertext at most.
\<close>

theorem commands_never_decrypt:
  "runStatus (ce\<lparr>cm_sops := sops\<rparr>) cfgPath ledgerPath = runStatus ce cfgPath ledgerPath
   \<and> runStale (ce\<lparr>cm_sops := sops\<rparr>) cfgPath ledgerPath = runStale ce cfgPath ledgerPath
   \<and> runSuggest (ce\<lparr>cm_sops := sops\<rparr>) cfgPath service fl format = runSuggest ce cfgPath service fl format
   \<and> runValidate (ce\<lparr>cm_sops := sops\<rparr>) cfgPath = runValidate ce cfgPath"
proof -
  have h: "hashSource (ce\<lparr>cm_sops := sops\<rparr>) cfg = hashSource ce cfg" for cfg
    by (rule ext) (simp add: hashSource_def SourceCipherHash_def tryR_def split: sum.split option.split)
  show ?thesis by (simp add: runStatus_def runStale_def runSuggest_def runValidate_def loadConfig_def h cong: sum.case_cong if_cong)
qed

text \<open>
  the daemon command comes up whole or not at all. It fails only on an unreadable or unparsable berm.yml, an unknown
  runtime, a sink, a ledger that is present and bad, or a socket; when it is up, its state satisfies the daemon's invariant, the socket has mode 0600, the
  reconcile loop runs, and the environment's globals are in force.
\<close>

theorem runDaemon_up:
  assumes "\<And>d lf p. cm_ledger ce d = Some lf \<Longrightarrow> ledger_ok \<lparr>lg_path = p, lg_records = lf_containers lf\<rparr>"
  shows "case runDaemon ce cfgPath sockFlag of
      Inl e \<Rightarrow> (\<exists>x. e = Config_failed x) \<or> (\<exists>n. e = Runtime_failed n \<and> n \<noteq> ''docker'' \<and> n \<noteq> ''podman'') \<or> e = Sink_failed \<or> (\<exists>x. e = Run_failed (New_failed (BadLedger x)))
        \<or> (\<exists>x. e = Run_failed (Listen_failed x))
    | Inr wi \<Rightarrow> daemon_ok (wi_daemon wi) \<and> runs_reconcile wi
        \<and> map_option fn_mode (fs_files (wd_fs (dm_world (wi_daemon wi))) (path_clean (wi_sock_path wi))) = Some 384
        \<and> c_globals (wi_berm wi) = loadGlobals (cm_parse_duration ce) (cm_getenv ce)"
proof (cases "runDaemon ce cfgPath sockFlag")
  case (Inl e)
  have "New parse (daemon_config cfg sock) w = Inl x \<Longrightarrow> \<exists>y. x = BadLedger y" for parse cfg sock w x
    by (auto simp: New_def daemon_config_def Let_def split: sum.splits prod.splits)
  moreover have "SelectRuntime co = Inl n \<Longrightarrow> n \<noteq> ''docker'' \<and> n \<noteq> ''podman''" for co n
    by (auto simp: SelectRuntime_def split: option.splits if_splits)
  ultimately show ?thesis using Inl by (auto simp: runDaemon_def Run_def split: sum.splits option.splits prod.splits if_splits)
next
  case (Inr wi)
  obtain cfg rt where c: "loadConfig ce cfgPath = Inr cfg" "Run (cm_ledger ce) (cm_umask_mode ce) (daemon_config cfg sockFlag) (cm_fs ce) = Inr wi"
    using Inr by (auto simp: runDaemon_def split: sum.splits if_splits)
  obtain wi0 w' where r: "New (cm_ledger ce) (daemon_config cfg sockFlag) (cm_fs ce) = Inr wi0"
    "listen (cm_umask_mode ce) (wi_sock_path wi0) (wd_fs (dm_world (wi_daemon wi0))) = (None, w')" "wi = wi0\<lparr>wi_daemon := set_fs w' (wi_daemon wi0)\<rparr>"
    using c(2) by (auto simp: Run_def split: sum.splits option.splits prod.splits)
  note up = New_ready [OF r(1) assms]
  have "c_globals cfg = loadGlobals (cm_parse_duration ce) (cm_getenv ce)"
    using c(1) by (auto simp: loadConfig_def Load_def split: option.splits)
  moreover have "wi_berm wi0 = cfg" using up by (simp add: daemon_config_def)
  moreover have "runs_reconcile wi0" using up by (simp add: daemon_config_def)
  moreover have "daemon_ok (set_fs w' (wi_daemon wi0))" using up set_fs_ok by simp
  moreover have "map_option fn_mode (fs_files w' (path_clean (wi_sock_path wi0))) = Some 384" using listen_result [OF r(2)] by simp
  moreover have "wd_fs (dm_world (set_fs w' (wi_daemon wi0))) = w'" by (simp add: set_fs_def)
  ultimately show ?thesis by (simp add: Inr r(3) runs_reconcile_def)
qed

definition sample_command :: command_env where
  "sample_command = \<lparr>cm_yaml = (\<lambda>d. Some (oe_cfg sample_opener)), cm_parse_duration = (\<lambda>d. None), cm_getenv = (\<lambda>v. []), cm_read = (\<lambda>p. Some []),
     cm_list = Some [], cm_list2 = Some [], cm_sops = oe_sops sample_opener, cm_sha256 = (\<lambda>d. []), cm_ledger = (\<lambda>d. None), cm_fs = sample_fs,
     cm_render = msg_format, cm_lower = go_lower, cm_now = 0, cm_sink = True, cm_umask_mode = 493\<rparr>"

theorem runDaemon_up_witness:
  "case runDaemon sample_command ''/etc/berm/berm.yml'' [] of Inl e \<Rightarrow> False | Inr wi \<Rightarrow> daemon_ok (wi_daemon wi) \<and> runs_reconcile wi"
proof -
  have "case runDaemon sample_command ''/etc/berm/berm.yml'' [] of Inl e \<Rightarrow> False | Inr wi \<Rightarrow> True" by code_simp
  moreover have "cm_ledger sample_command d = Some lf \<Longrightarrow> ledger_ok \<lparr>lg_path = p, lg_records = lf_containers lf\<rparr>" for d lf p
    by (simp add: sample_command_def)
  ultimately show ?thesis using runDaemon_up [of sample_command "''/etc/berm/berm.yml''" "[]"] by (auto split: sum.splits)
qed

end
