(* ===== verification/Consumer_Apply.thy ===== *)
theory Consumer_Apply
  imports Wire_Props Wire_File Config_Model Label_Parse
begin

text \<open>
  \<open>internal/client/client.go\<close>, \<open>internal/hook/hook.go\<close> and their commands \<open>cmd/berm-client\<close> and \<open>cmd/berm-hook\<close>: the two consumers of
  the socket. A consumer's environment says what the system answers it; messages it prints are left out.
\<close>

section \<open>The consumer's world\<close>

text \<open>
  \<open>ce_reply path t\<close> is what the daemon's answer on that socket has sent when the peer closes or \<open>t\<close> nanoseconds are up;
  \<open>ce_stat\<close> gives \<^term>\<open>Some True\<close> for a directory; \<open>ce_parse_duration\<close> is \<open>time.ParseDuration\<close>.
\<close>

record consumer_env =
  ce_getenv :: "string \<Rightarrow> string"
  ce_environ :: "string list"
  ce_dial :: "string \<Rightarrow> bool"
  ce_deadline :: bool
  ce_out :: sink
  ce_reply :: "string \<Rightarrow> int \<Rightarrow> string"
  ce_stat :: "string \<Rightarrow> bool option"
  ce_exec :: "string \<Rightarrow> bool"
  ce_parse_duration :: "string \<Rightarrow> int option"

datatype consumer_error =
    ConnectFailed string | DeadlineFailed | WireFailed wire_error | ApplyFile string file_error | ApplyManifest file_error
  | NeedsCommand | CommandNotFound string | ExecFailed string
  | BadState | NoContainerId | NoRoot | ConfigUnreadable | ConfigMalformed | ConfigNoRoot
  | BadPid int | NsOpen | SetnsFailed

section \<open>The client\<close>

definition DefaultSocket :: string where "DefaultSocket = ''/run/berm/berm.sock''"
definition DefaultTimeout :: int where "DefaultTimeout = 30 * nano_second"

definition client_Fetch :: "consumer_env \<Rightarrow> string \<Rightarrow> int \<Rightarrow> lockmem \<Rightarrow> (consumer_error + wbundle) \<times> lockmem" where
  "client_Fetch env sockPath limit lm =
     (if \<not> ce_dial env sockPath then (Inl (ConnectFailed sockPath), lm)
      else if \<not> ce_deadline env then (Inl DeadlineFailed, lm)
      else case WriteRequest (ce_out env) of
        (Some e, s) \<Rightarrow> (Inl (WireFailed e), lm)
      | (None, s) \<Rightarrow>
          (case ReadResponse (ce_reply env sockPath limit) lm of
             (Inl e, lm') \<Rightarrow> (Inl (WireFailed e), lm')
           | (Inr b, lm') \<Rightarrow> (Inr b, lm')))"

fun apply_each :: "bool \<Rightarrow> wire_file list \<Rightarrow> fs \<Rightarrow> consumer_error option \<times> fs" where
  "apply_each requireTmpfs [] w = (None, w)"
| "apply_each requireTmpfs (f # rest) w =
     (case WriteBytesFile (wf_path f) (wf_owner f) (wf_mode f) requireTmpfs (sec_bytes (wf_data f)) w of
        (Some e, w') \<Rightarrow> (Some (ApplyFile (wf_path f) e), w')
      | (None, w') \<Rightarrow> apply_each requireTmpfs rest w')"

definition ApplyFiles :: "wbundle \<Rightarrow> string \<Rightarrow> bool \<Rightarrow> fs \<Rightarrow> consumer_error option \<times> fs" where
  "ApplyFiles b manifestPath requireTmpfs w =
     (case apply_each requireTmpfs (b_files b) w of
        (Some e, w') \<Rightarrow> (Some e, w')
      | (None, w') \<Rightarrow>
          if length (b_manifest b) > 0
          then (case WriteBytesFile manifestPath ''0:0'' ''0444'' requireTmpfs (b_manifest b) w' of
                  (Some e, w'') \<Rightarrow> (Some (ApplyManifest e), w'') | (None, w'') \<Rightarrow> (None, w''))
          else (None, w'))"

text \<open>\<open>EnvFor\<close>: \<open>add\<close> keeps the values in a map and the names in the order they were first seen.\<close>

type_synonym env_set = "(string \<rightharpoonup> string) \<times> string list"

definition env_add :: "string \<Rightarrow> string \<Rightarrow> env_set \<Rightarrow> env_set" where
  "env_add nam val so = (case so of (m, order) \<Rightarrow> (m(nam \<mapsto> val), if m nam = None then order @ [nam] else order))"

definition env_base :: "string \<Rightarrow> env_set \<Rightarrow> env_set" where
  "env_base kv so = (case index_byte kv CHR ''='' of None \<Rightarrow> so | Some i \<Rightarrow> env_add (take i kv) (drop (Suc i) kv) so)"

definition EnvFor :: "string list \<Rightarrow> wbundle \<Rightarrow> string list" where
  "EnvFor base b =
     (let so = fold env_base base (Map.empty, []);
          so = fold (\<lambda>p. env_add (pt_name p) (pt_path p)) (b_pointers b) so;
          (m, order) = fold (\<lambda>e. env_add (ev_name e) (sec_bytes (ev_value e))) (b_env b) so in
      map (\<lambda>nam. nam @ ''='' @ (case m nam of Some v \<Rightarrow> v | None \<Rightarrow> [])) order)"

definition filepathSplitList :: "string \<Rightarrow> string list" where
  "filepathSplitList p = (if p = [] then [] else split_byte CHR '':'' p)"

fun search_path :: "(string \<Rightarrow> bool option) \<Rightarrow> string \<Rightarrow> string list \<Rightarrow> string option" where
  "search_path st nam [] = None"
| "search_path st nam (dir # dirs) =
     (let cand = (if dir = [] then ''.'' else dir) @ ''/'' @ nam in
      if st cand = Some False then Some cand else search_path st nam dirs)"

definition lookPath :: "consumer_env \<Rightarrow> string \<Rightarrow> string option" where
  "lookPath env nam =
     (if length nam > 0 \<and> (nam ! 0 = CHR ''/'' \<or> nam ! 0 = CHR ''.'')
      then (case ce_stat env nam of None \<Rightarrow> None | Some _ \<Rightarrow> Some nam)
      else search_path (ce_stat env) nam (filepathSplitList (ce_getenv env ''PATH'')))"

text \<open>A process ends with a status or becomes another program.\<close>

datatype process = Exit int | Replaced string "string list" "string list"

definition client_Exec ::
  "consumer_env \<Rightarrow> wbundle \<Rightarrow> string list \<Rightarrow> string \<Rightarrow> bool \<Rightarrow> fs \<Rightarrow> lockmem \<Rightarrow> (consumer_error + process) \<times> wbundle \<times> fs \<times> lockmem" where
  "client_Exec env b argv manifestPath requireTmpfs w lm =
     (if length argv = 0 then (Inl NeedsCommand, b, w, lm)
      else case ApplyFiles b manifestPath requireTmpfs w of
        (Some e, w') \<Rightarrow> (Inl e, b, w', lm)
      | (None, w') \<Rightarrow>
          let vars = EnvFor (ce_environ env) b in
          (case lookPath env (argv ! 0) of
             None \<Rightarrow> (Inl (CommandNotFound (argv ! 0)), b, w', lm)
           | Some path \<Rightarrow>
               let (b', lm') = Destroy b lm in
               if \<not> ce_exec env path then (Inl (ExecFailed path), b', w', lm')
               else (Inr (Replaced path argv vars), b', w', lm')))"

section \<open>The command berm-client\<close>

fun flagValue :: "string list \<Rightarrow> string \<Rightarrow> string" where
  "flagValue [] nam = []"
| "flagValue (a # rest) nam =
     (if a = nam \<and> rest \<noteq> [] then hd rest
      else if length a > length nam + 1 \<and> take (length nam + 1) a = nam @ ''='' then drop (length nam + 1) a
      else flagValue rest nam)"

fun afterDashDash :: "string list \<Rightarrow> string list" where
  "afterDashDash [] = []"
| "afterDashDash (a # rest) = (if a = ''--'' then rest else afterDashDash rest)"

definition socketFrom :: "consumer_env \<Rightarrow> string list \<Rightarrow> string" where
  "socketFrom env args =
     (if flagValue args ''--sock'' \<noteq> [] then flagValue args ''--sock''
      else if ce_getenv env ''BERM_SOCK'' \<noteq> [] then ce_getenv env ''BERM_SOCK''
      else DefaultSocket)"

definition client_timeout :: "consumer_env \<Rightarrow> int" where
  "client_timeout env =
     (let v = ce_getenv env ''BERM_CLIENT_TIMEOUT'' in
      if v \<noteq> [] then case ce_parse_duration env v of Some d \<Rightarrow> d | None \<Rightarrow> DefaultTimeout else DefaultTimeout)"

definition client_manifestPath :: "consumer_env \<Rightarrow> string" where
  "client_manifestPath env =
     (let v = ce_getenv env ''BERM_MANIFEST_PATH'' in if v \<noteq> [] then v else DefaultManifestPath)"

definition client_requireTmpfs :: "consumer_env \<Rightarrow> bool" where
  "client_requireTmpfs env \<longleftrightarrow> ce_getenv env ''BERM_CLIENT_ALLOW_NONTMPFS'' \<noteq> ''1''"

definition runFetch :: "consumer_env \<Rightarrow> string list \<Rightarrow> fs \<Rightarrow> lockmem \<Rightarrow> process \<times> fs \<times> lockmem" where
  "runFetch env args w lm =
     (case client_Fetch env (socketFrom env args) (client_timeout env) lm of
        (Inl e, lm') \<Rightarrow> (Exit 1, w, lm')
      | (Inr b, lm') \<Rightarrow>
          let (e, w') = ApplyFiles b (client_manifestPath env) (client_requireTmpfs env) w in
          (Exit (if e = None then 0 else 1), w', snd (Destroy b lm')))"

definition runExec :: "consumer_env \<Rightarrow> string list \<Rightarrow> fs \<Rightarrow> lockmem \<Rightarrow> process \<times> fs \<times> lockmem" where
  "runExec env args w lm =
     (let sock = socketFrom env args; appArgs = afterDashDash args in
      if length appArgs = 0 then (Exit 2, w, lm)
      else case client_Fetch env sock (client_timeout env) lm of
        (Inl e, lm') \<Rightarrow> (Exit 1, w, lm')
      | (Inr b, lm') \<Rightarrow>
          (case client_Exec env b appArgs (client_manifestPath env) (client_requireTmpfs env) w lm' of
             (Inl e, b', w', lm2) \<Rightarrow> (Exit 1, w', snd (Destroy b' lm2))
           | (Inr p, b', w', lm2) \<Rightarrow> (p, w', lm2)))"

definition client_run :: "consumer_env \<Rightarrow> string list \<Rightarrow> fs \<Rightarrow> lockmem \<Rightarrow> process \<times> fs \<times> lockmem" where
  "client_run env args w lm =
     (case args of
        [] \<Rightarrow> (Exit 2, w, lm)
      | a # rest \<Rightarrow>
          if a \<in> {''version'', ''--version'', ''-v''} then (Exit 0, w, lm)
          else if a = ''fetch'' then runFetch env rest w lm
          else if a = ''exec'' then runExec env rest w lm
          else if a \<in> {''help'', ''--help'', ''-h''} then (Exit 0, w, lm)
          else (Exit 2, w, lm))"

section \<open>The hook\<close>

record oci_state =
  st_id :: string
  st_pid :: int
  st_bundle :: string
  st_root :: string
  st_annotations :: smap

text \<open>
  \<open>he_decode\<close> and \<open>he_root_path\<close> are \<open>encoding/json\<close> for the state and for the bundle's \<open>config.json\<close>, \<open>he_read\<close> is \<open>os.ReadFile\<close>, and the mount
  namespace of a process is a file system of its own.
\<close>

record hook_env =
  he_consumer :: consumer_env
  he_stdin :: string
  he_decode :: "string \<Rightarrow> oci_state option"
  he_read :: "string \<Rightarrow> string option"
  he_root_path :: "string \<Rightarrow> string option"
  he_ns_open :: "int \<Rightarrow> bool"
  he_setns :: "int \<Rightarrow> bool"

record mounts =
  mt_own :: fs
  mt_of :: "int \<Rightarrow> fs"

definition ParseState :: "hook_env \<Rightarrow> consumer_error + oci_state" where
  "ParseState he =
     (case he_decode he (he_stdin he) of
        None \<Rightarrow> Inl BadState
      | Some s \<Rightarrow> if st_id s = [] then Inl NoContainerId else Inr s)"

definition ContainerRoot :: "hook_env \<Rightarrow> oci_state \<Rightarrow> consumer_error + string" where
  "ContainerRoot he s =
     (if st_root s \<noteq> [] then Inr (st_root s)
      else if st_bundle s = [] then Inl NoRoot
      else case he_read he (path_join (st_bundle s) ''config.json'') of
        None \<Rightarrow> Inl ConfigUnreadable
      | Some data \<Rightarrow>
          (case he_root_path he data of
             None \<Rightarrow> Inl ConfigMalformed
           | Some p \<Rightarrow>
               if p = [] then Inl ConfigNoRoot
               else if is_abs p then Inr p
               else Inr (path_join (st_bundle s) p)))"

definition hook_Fetch ::
  "consumer_env \<Rightarrow> string \<Rightarrow> string \<Rightarrow> smap \<Rightarrow> int \<Rightarrow> lockmem \<Rightarrow> (consumer_error + wbundle) \<times> lockmem" where
  "hook_Fetch env sockPath cid annotations limit lm =
     (if \<not> ce_dial env sockPath then (Inl (ConnectFailed sockPath), lm)
      else if \<not> ce_deadline env then (Inl DeadlineFailed, lm)
      else case WriteHookRequest cid annotations (ce_out env) of
        (Some e, s) \<Rightarrow> (Inl (WireFailed e), lm)
      | (None, s) \<Rightarrow>
          (case ReadResponse (ce_reply env sockPath limit) lm of
             (Inl e, lm') \<Rightarrow> (Inl (WireFailed e), lm')
           | (Inr b, lm') \<Rightarrow> (Inr b, lm')))"

fun write_each :: "string \<Rightarrow> bool \<Rightarrow> wire_file list \<Rightarrow> fs \<Rightarrow> consumer_error option \<times> fs" where
  "write_each root requireTmpfs [] w = (None, w)"
| "write_each root requireTmpfs (f # rest) w =
     (let dst = path_join root (wf_path f) in
      case WriteBytesFile dst (wf_owner f) (wf_mode f) requireTmpfs (sec_bytes (wf_data f)) w of
        (Some e, w') \<Rightarrow> (Some (ApplyFile (wf_path f) e), w')
      | (None, w') \<Rightarrow> write_each root requireTmpfs rest w')"

definition WriteFilesUnderRoot :: "wbundle \<Rightarrow> string \<Rightarrow> string \<Rightarrow> bool \<Rightarrow> fs \<Rightarrow> consumer_error option \<times> fs" where
  "WriteFilesUnderRoot b root manifestPath requireTmpfs w =
     (case write_each root requireTmpfs (b_files b) w of
        (Some e, w') \<Rightarrow> (Some e, w')
      | (None, w') \<Rightarrow>
          if length (b_manifest b) > 0
          then (case WriteBytesFile (path_join root manifestPath) ''0:0'' ''0444'' requireTmpfs (b_manifest b) w' of
                  (Some e, w'') \<Rightarrow> (Some (ApplyManifest e), w'') | (None, w'') \<Rightarrow> (None, w''))
          else (None, w'))"

definition WriteIntoMountNS :: "hook_env \<Rightarrow> wbundle \<Rightarrow> int \<Rightarrow> string \<Rightarrow> bool \<Rightarrow> mounts \<Rightarrow> consumer_error option \<times> mounts" where
  "WriteIntoMountNS he b pid manifestPath requireTmpfs mt =
     (if pid \<le> 0 then (Some (BadPid pid), mt)
      else if \<not> he_ns_open he pid then (Some NsOpen, mt)
      else if \<not> he_setns he pid then (Some SetnsFailed, mt)
      else let (e, w') = WriteFilesUnderRoot b ''/'' manifestPath requireTmpfs (mt_of mt pid) in
        (e, mt\<lparr>mt_of := (mt_of mt)(pid := w')\<rparr>))"

section \<open>The command berm-hook\<close>

definition hook_inject :: "hook_env \<Rightarrow> wbundle \<Rightarrow> oci_state \<Rightarrow> string \<Rightarrow> bool \<Rightarrow> mounts \<Rightarrow> consumer_error option \<times> mounts" where
  "hook_inject he b s manifestPath requireTmpfs mt =
     (if st_pid s > 0 then WriteIntoMountNS he b (st_pid s) manifestPath requireTmpfs mt
      else case ContainerRoot he s of
        Inl e \<Rightarrow> (Some e, mt)
      | Inr root \<Rightarrow>
          let (e, w') = WriteFilesUnderRoot b root manifestPath requireTmpfs (mt_own mt) in (e, mt\<lparr>mt_own := w'\<rparr>))"

definition hook_socket :: "consumer_env \<Rightarrow> string" where
  "hook_socket env = (if ce_getenv env ''BERM_SOCK'' \<noteq> [] then ce_getenv env ''BERM_SOCK'' else DefaultSocket)"

definition hook_timeout :: "consumer_env \<Rightarrow> int" where
  "hook_timeout env =
     (let v = ce_getenv env ''BERM_HOOK_TIMEOUT'' in
      if v \<noteq> [] then case ce_parse_duration env v of Some d \<Rightarrow> d | None \<Rightarrow> DefaultTimeout else DefaultTimeout)"

definition hook_manifestPath :: "consumer_env \<Rightarrow> string" where
  "hook_manifestPath env =
     (let v = ce_getenv env ''BERM_MANIFEST_PATH'' in if v \<noteq> [] then v else DefaultManifestPath)"

definition hook_requireTmpfs :: "consumer_env \<Rightarrow> bool" where
  "hook_requireTmpfs env \<longleftrightarrow> ce_getenv env ''BERM_HOOK_ALLOW_NONTMPFS'' \<noteq> ''1''"

definition hook_run :: "hook_env \<Rightarrow> string list \<Rightarrow> mounts \<Rightarrow> lockmem \<Rightarrow> int \<times> mounts \<times> lockmem" where
  "hook_run he args mt lm =
     (let env = he_consumer he in
      if args \<noteq> [] then
        (if hd args \<in> {''version'', ''--version'', ''-v''} \<or> hd args \<in> {''help'', ''--help'', ''-h''} then (0, mt, lm) else (2, mt, lm))
      else case ParseState he of
        Inl e \<Rightarrow> (1, mt, lm)
      | Inr s \<Rightarrow>
          (case hook_Fetch env (hook_socket env) (st_id s) (st_annotations s) (hook_timeout env) lm of
             (Inl e, lm') \<Rightarrow> (1, mt, lm')
           | (Inr b, lm') \<Rightarrow>
               let (e, mt') = hook_inject he b s (hook_manifestPath env) (hook_requireTmpfs env) mt in
               (if e = None then 0 else 1, mt', snd (Destroy b lm'))))"

section \<open>Locked memory of a consumer\<close>

lemma ReadResponse_owns:
  assumes "mem_ok lm" "ReadResponse inp lm = (r, lm')"
  shows "case r of Inl e \<Rightarrow> lm_live lm' = lm_live lm | Inr b \<Rightarrow> owns (lm_live lm) b lm'"
proof -
  have "(\<exists>e. r = Inl e \<and> lm' = lm) \<or> (\<exists>rest. decodeBundle rest lm = (r, lm'))"
    using assms(2) by (auto simp: ReadResponse_def split: sum.splits if_splits)
  then show ?thesis
  proof
    assume "\<exists>rest. decodeBundle rest lm = (r, lm')"
    then obtain rest where "decodeBundle rest lm = (r, lm')" ..
    from decodeBundle_memory [OF assms(1) this] show ?thesis .
  qed auto
qed

lemma client_Fetch_owns:
  assumes "mem_ok lm" "client_Fetch env sock t lm = (r, lm')"
  shows "case r of Inl e \<Rightarrow> lm_live lm' = lm_live lm | Inr b \<Rightarrow> owns (lm_live lm) b lm'"
proof -
  obtain x lm1 where "ReadResponse (ce_reply env sock t) lm = (x, lm1)" by (metis prod.exhaust)
  then show ?thesis using assms(2) ReadResponse_owns [OF assms(1)]
    by (fastforce simp: client_Fetch_def split: if_splits option.splits sum.splits prod.splits)
qed

lemma hook_Fetch_owns:
  assumes "mem_ok lm" "hook_Fetch env sock cid ann t lm = (r, lm')"
  shows "case r of Inl e \<Rightarrow> lm_live lm' = lm_live lm | Inr b \<Rightarrow> owns (lm_live lm) b lm'"
proof -
  obtain x lm1 where "ReadResponse (ce_reply env sock t) lm = (x, lm1)" by (metis prod.exhaust)
  then show ?thesis using assms(2) ReadResponse_owns [OF assms(1)]
    by (fastforce simp: hook_Fetch_def split: if_splits option.splits sum.splits prod.splits)
qed

lemma Destroy_again: "snd (Destroy (fst (Destroy b lm)) lm2) = lm2"
  by (simp add: Destroy_def)

lemma client_Exec_memory:
  assumes "owns base b lm" "client_Exec env b argv man req w lm = (r, b', w', lm')"
  shows "case r of Inl e \<Rightarrow> lm_live (snd (Destroy b' lm')) = base | Inr p \<Rightarrow> lm_live lm' = base"
proof -
  obtain b1 lm1 where d: "Destroy b lm = (b1, lm1)" by (metis prod.exhaust)
  have l: "lm_live lm1 = base" using owns_Destroy [OF assms(1)] d by simp
  have "snd (Destroy b1 lm1) = lm1" using Destroy_again [of b lm lm1] d by simp
  then show ?thesis using assms(2) l owns_Destroy [OF assms(1)] d
    by (auto simp: client_Exec_def Let_def split: if_splits option.splits prod.splits)
qed

lemma runFetch_memory:
  assumes "mem_ok lm" "runFetch env args w lm = (p, w', lm')"
  shows "lm_live lm' = lm_live lm"
proof -
  obtain r lm1 where f: "client_Fetch env (socketFrom env args) (client_timeout env) lm = (r, lm1)" by (metis prod.exhaust)
  from client_Fetch_owns [OF assms(1) f] assms(2) f show ?thesis
    by (auto simp: runFetch_def Let_def owns_Destroy split: sum.splits prod.splits)
qed

lemma runExec_memory:
  assumes "mem_ok lm" "runExec env args w lm = (p, w', lm')"
  shows "lm_live lm' = lm_live lm"
proof -
  obtain r lm1 where f: "client_Fetch env (socketFrom env args) (client_timeout env) lm = (r, lm1)" by (metis prod.exhaust)
  note o = client_Fetch_owns [OF assms(1) f]
  show ?thesis
  proof (cases r)
    case (Inl e)
    then show ?thesis using assms(2) f o by (auto simp: runExec_def Let_def split: if_splits)
  next
    case (Inr b)
    obtain x b1 w1 lm2 where e: "client_Exec env b (afterDashDash args) (client_manifestPath env) (client_requireTmpfs env) w lm1 = (x, b1, w1, lm2)"
      by (metis prod.exhaust)
    have "owns (lm_live lm) b lm1" using o Inr by simp
    from client_Exec_memory [OF this e] assms(2) f Inr e show ?thesis
      by (auto simp: runExec_def Let_def split: if_splits sum.splits)
  qed
qed

text \<open>
  C15: no consumer keeps decrypted buffers. Whatever the command line, the daemon's answer and the failures along the way, when \<open>berm-client\<close> exits
  or is about to become the application, and when \<open>berm-hook\<close> exits, no locked buffer is live that was not before.
\<close>

theorem consumers_wipe:
  assumes "mem_ok lm"
  shows "lm_live (snd (snd (client_run env args w lm))) = lm_live lm
    \<and> lm_live (snd (snd (hook_run he args mt lm))) = lm_live lm"
proof
  show "lm_live (snd (snd (client_run env args w lm))) = lm_live lm"
    using runFetch_memory [OF assms] runExec_memory [OF assms]
    by (cases args) (simp_all add: client_run_def, metis prod.collapse)
  have "lm_live lm' = lm_live lm" if r: "hook_run he args mt lm = (c, mt', lm')" for c mt' lm'
  proof (cases "args = [] \<and> (\<exists>s. ParseState he = Inr s)")
    case False
    then show ?thesis using r by (auto simp: hook_run_def Let_def split: if_splits sum.splits)
  next
    case True
    then obtain s where s: "args = []" "ParseState he = Inr s" by blast
    obtain x lm1 where f: "hook_Fetch (he_consumer he) (hook_socket (he_consumer he)) (st_id s) (st_annotations s)
        (hook_timeout (he_consumer he)) lm = (x, lm1)" by (metis prod.exhaust)
    from hook_Fetch_owns [OF assms f] r s f show ?thesis
      by (auto simp: hook_run_def Let_def owns_Destroy split: sum.splits prod.splits)
  qed
  then show "lm_live (snd (snd (hook_run he args mt lm))) = lm_live lm" by (metis prod.collapse)
qed

theorem consumers_wipe_witness:
  "\<forall>env w. lm_live (snd (snd (client_run env [''fetch''] w fresh_mem))) = []"
  using consumers_wipe [OF sample_mem_ok, of _ "[''fetch'']"] by (simp add: fresh_mem_def)

section \<open>The environment of the application\<close>

definition env_pair :: "string \<Rightarrow> (string \<times> string) option" where
  "env_pair kv = map_option (\<lambda>i. (take i kv, drop (Suc i) kv)) (index_byte kv CHR ''='')"

definition env_pairs :: "string list \<Rightarrow> wbundle \<Rightarrow> (string \<times> string) list" where
  "env_pairs base b = List.map_filter env_pair base @ map (\<lambda>p. (pt_name p, pt_path p)) (b_pointers b)
     @ map (\<lambda>e. (ev_name e, sec_bytes (ev_value e))) (b_env b)"

definition env_of :: "(string \<times> string) list \<Rightarrow> env_set" where
  "env_of kvs = (map_of kvs, map fst kvs)"

lemma env_add_of: "env_add n v (env_of kvs) = env_of (AList.update n v kvs)"
proof -
  have "map fst (AList.update n v kvs) = (if map_of kvs n = None then map fst kvs @ [n] else map fst kvs)"
    by (induction kvs) auto
  then show ?thesis by (simp add: env_add_def env_of_def update_conv')
qed

lemma env_fold_of:
  "fold (\<lambda>x. env_add (f x) (g x)) xs (env_of kvs) = env_of (fold (\<lambda>(n, v). AList.update n v) (map (\<lambda>x. (f x, g x)) xs) kvs)"
  by (induction xs arbitrary: kvs) (simp_all add: env_add_of)

lemma env_base_of: "fold env_base base (env_of kvs) = env_of (fold (\<lambda>(n, v). AList.update n v) (List.map_filter env_pair base) kvs)"
proof (induction base arbitrary: kvs)
  case (Cons kv base)
  then show ?case
    by (cases "index_byte kv CHR ''=''") (simp_all add: env_base_def env_pair_def map_filter_simps env_add_of)
qed (simp add: map_filter_simps)

lemma map_of_updates: "map_of (fold (\<lambda>(n, v). AList.update n v) xs []) = map_of (rev xs)"
  by (induction xs rule: rev_induct) (auto simp: update_conv' split: prod.split)

lemma distinct_updates: "distinct (map fst (fold (\<lambda>(n, v). AList.update n v) xs []))"
  by (induction xs rule: rev_induct) (auto simp: distinct_update)

lemma EnvFor_alist:
  "EnvFor base b = map (\<lambda>(k, v). k @ ''='' @ v) (fold (\<lambda>(n, v). AList.update n v) (env_pairs base b) [])"
proof -
  let ?kvs = "fold (\<lambda>(n, v). AList.update n v) (env_pairs base b) []"
  have e: "(Map.empty, []) = env_of []" by (simp add: env_of_def)
  have "distinct (map fst ?kvs)" by (rule distinct_updates)
  then have "map (\<lambda>nam. nam @ ''='' @ (case map_of ?kvs nam of Some v \<Rightarrow> v | None \<Rightarrow> [])) (map fst ?kvs) = map (\<lambda>(k, v). k @ ''='' @ v) ?kvs"
    by (auto simp: map_of_is_SomeI)
  then show ?thesis
    unfolding EnvFor_def Let_def e env_base_of env_fold_of
    by (simp add: env_of_def env_pairs_def)
qed

text \<open>
  C36: the application gets each variable once, with the value the bundle gives it. \<open>EnvFor\<close> lists distinct names; the value of each is that of its
  last binding in the sequence: the client's own environment, the pointers, the secret variables; every variable of the bundle is there.
\<close>

theorem EnvFor_exact:
  "\<exists>kvs. EnvFor base b = map (\<lambda>(k, v). k @ ''='' @ v) kvs \<and> distinct (map fst kvs)
    \<and> map_of kvs = map_of (rev (env_pairs base b))
    \<and> ev_name ` set (b_env b) \<union> pt_name ` set (b_pointers b) \<subseteq> fst ` set kvs"
proof (intro exI conjI)
  let ?kvs = "fold (\<lambda>(n, v). AList.update n v) (env_pairs base b) []"
  show "EnvFor base b = map (\<lambda>(k, v). k @ ''='' @ v) ?kvs" by (rule EnvFor_alist)
  show "distinct (map fst ?kvs)" by (rule distinct_updates)
  show m: "map_of ?kvs = map_of (rev (env_pairs base b))" by (rule map_of_updates)
  have "fst ` set ?kvs = fst ` set (env_pairs base b)"
    using m dom_map_of_conv_image_fst [of ?kvs] dom_map_of_conv_image_fst [of "rev (env_pairs base b)"] by simp
  then show "ev_name ` set (b_env b) \<union> pt_name ` set (b_pointers b) \<subseteq> fst ` set ?kvs"
    by (auto simp: env_pairs_def image_Un image_comp)
qed

section \<open>The files of a bundle\<close>

definition placed :: "(string \<Rightarrow> string) \<Rightarrow> wire_file list \<Rightarrow> (string \<times> string \<times> string \<times> string) list" where
  "placed at fs = map (\<lambda>f. (at (wf_path f), wf_owner f, wf_mode f, sec_bytes (wf_data f))) fs"

lemma placed_simps [simp]:
  "placed at [] = []"
  "placed at (f # fs) = (at (wf_path f), wf_owner f, wf_mode f, sec_bytes (wf_data f)) # placed at fs"
  by (simp_all add: placed_def)

lemma apply_each_all:
  "apply_each req fs w = (e, w') \<Longrightarrow> \<exists>e'. bytes.publish_all req (placed (\<lambda>p. p) fs) w = (e', w') \<and> (e = None \<longleftrightarrow> e' = None)"
  by (induction fs arbitrary: w) (auto simp: bytes.publish_all.simps split: prod.splits option.splits)

lemma write_each_all:
  "write_each root req fs w = (e, w') \<Longrightarrow> \<exists>e'. bytes.publish_all req (placed (path_join root) fs) w = (e', w') \<and> (e = None \<longleftrightarrow> e' = None)"
  by (induction fs arbitrary: w) (auto simp: Let_def bytes.publish_all.simps split: prod.splits option.splits)

definition targets :: "(string \<Rightarrow> string) \<Rightarrow> wbundle \<Rightarrow> string list" where
  "targets at b = map (\<lambda>f. path_clean (at (wf_path f))) (b_files b)"

lemma placed_targets: "map (\<lambda>x. path_clean (fst x)) (placed at (b_files b)) = targets at b"
  by (simp add: placed_def targets_def)

text \<open>What both consumers do: files, then the manifest.\<close>

lemma deliver_cases:
  assumes files: "bytes.publish_all req (placed at (b_files b)) w = (e1, w1)"
    and man: "if e1 = None \<and> b_manifest b \<noteq> [] then WriteBytesFile (at m) ''0:0'' ''0444'' req (b_manifest b) w1 = (e2, w2)
        else e2 = None \<and> w2 = w1"
    and q: "\<not> is_temp q" "q \<noteq> path_clean (at m)" "q \<notin> set (targets at b)"
  shows "fs_files w2 q = fs_files w q"
proof -
  have "q \<notin> (\<lambda>x. path_clean (fst x)) ` set (placed at (b_files b))"
    using q(3) by (simp flip: placed_targets)
  from bytes.publish_all_frame [OF files q(1) this] have 1: "fs_files w1 q = fs_files w q" .
  moreover have "fs_files w2 q = fs_files w1 q"
    using man bytes.frame [OF _ q(1,2)] by (auto split: if_splits)
  ultimately show ?thesis by simp
qed

section \<open>What a delivery leaves\<close>

text \<open>
  The writes a bundle asks for, in order: its files, then its manifest. When they all succeed, a path holds the last data written to it and every
  other file is as before. With distinct paths that is every file, and the manifest, at its own path.
\<close>

definition writes_of :: "(string \<Rightarrow> string) \<Rightarrow> string \<Rightarrow> contents \<Rightarrow> (string \<times> string) list" where
  "writes_of at m c = (case c of (fs, es, ps, man) \<Rightarrow>
     map (\<lambda>(p, ow, md, d). (path_clean (at p), d)) fs @ (if man = [] then [] else [(path_clean (at m), man)]))"

definition contents_landed :: "(string \<Rightarrow> string) \<Rightarrow> string \<Rightarrow> contents \<Rightarrow> fs \<Rightarrow> fs \<Rightarrow> bool" where
  "contents_landed at m c w w' \<longleftrightarrow>
     (\<forall>q. content w' q = (case map_of (rev (writes_of at m c)) (path_clean q) of Some d \<Rightarrow> Some d | None \<Rightarrow> content w q))"

definition contents_apart :: "(string \<Rightarrow> string) \<Rightarrow> string \<Rightarrow> contents \<Rightarrow> bool" where
  "contents_apart at m c \<longleftrightarrow> (case c of (fs, es, ps, man) \<Rightarrow>
     (let ts = map (\<lambda>(p, ow, md, d). path_clean (at p)) fs in distinct ts \<and> path_clean (at m) \<notin> set ts))"

definition contents_placed :: "(string \<Rightarrow> string) \<Rightarrow> string \<Rightarrow> contents \<Rightarrow> fs \<Rightarrow> bool" where
  "contents_placed at m c w \<longleftrightarrow> (case c of (fs, es, ps, man) \<Rightarrow>
     (\<forall>(p, ow, md, d) \<in> set fs. content w (at p) = Some d) \<and> (man \<noteq> [] \<longrightarrow> content w (at m) = Some man))"

lemma landed:
  assumes files: "bytes.publish_all req (placed at (b_files b)) w = (None, w1)"
    and man: "if b_manifest b \<noteq> [] then WriteBytesFile (at m) ''0:0'' ''0444'' req (b_manifest b) w1 = (None, w2) else w2 = w1"
  shows "contents_landed at m (bundle_view b) w w2"
proof -
  have ws: "writes_of at m (bundle_view b) = map (\<lambda>(p, ow, md, d). (path_clean p, d)) (placed at (b_files b))
      @ (if b_manifest b = [] then [] else [(path_clean (at m), b_manifest b)])"
    by (simp add: writes_of_def bundle_view_def placed_def file_view_def)
  have "content w2 q = (if b_manifest b \<noteq> [] \<and> path_clean q = path_clean (at m) then Some (b_manifest b) else content w1 q)" for q
    using man bytes.done_ok [of "at m" "''0:0''" "''0444''" req "b_manifest b" w1 w2] by (auto simp: content_def split: if_splits)
  then show ?thesis
    unfolding contents_landed_def ws bytes.publish_all_last [OF files] by (auto split: option.split)
qed

lemma landed_manifest: "contents_landed at m (fs, es, ps, man) w w' \<Longrightarrow> man \<noteq> [] \<Longrightarrow> content w' (at m) = Some man"
  by (simp add: contents_landed_def writes_of_def)

lemma map_of_rev_distinct: "distinct (map fst xs) \<Longrightarrow> (a, d) \<in> set xs \<Longrightarrow> map_of (rev xs) a = Some d"
  by (rule map_of_is_SomeI) (simp_all add: rev_map [symmetric])

lemma landed_placed:
  assumes "contents_landed at m c w w'" "contents_apart at m c"
  shows "contents_placed at m c w'"
proof -
  obtain fs es ps man where c: "c = (fs, es, ps, man)" by (metis prod.exhaust)
  define ws where "ws = map (\<lambda>(p, ow, md, d). (path_clean (at p), d)) fs"
  have t: "map (\<lambda>(p, ow, md, d). path_clean (at p)) fs = map fst ws" by (simp add: ws_def case_prod_beta comp_def)
  have a: "distinct (map fst ws)" "path_clean (at m) \<notin> set (map fst ws)"
    using assms(2) unfolding c contents_apart_def prod.case Let_def t by blast+
  have "content w' (at p) = Some d" if "(p, ow, md, d) \<in> set fs" for p ow md d
  proof -
    have mem: "(path_clean (at p), d) \<in> set ws" using that unfolding ws_def by force
    then have "path_clean (at p) \<noteq> path_clean (at m)" using a(2) by force
    with map_of_rev_distinct [OF a(1) mem] assms(1) show ?thesis
      by (simp add: contents_landed_def writes_of_def c flip: ws_def)
  qed
  then show ?thesis using landed_manifest [OF assms(1) [unfolded c]] by (auto simp: contents_placed_def c)
qed

section \<open>Properties of what lands on disk\<close>

lemma ApplyFiles_run:
  assumes "ApplyFiles b m req w = (e, w')"
  obtains e1 w1 e2 where "bytes.publish_all req (placed (\<lambda>p. p) (b_files b)) w = (e1, w1)"
    "if e1 = None \<and> b_manifest b \<noteq> [] then WriteBytesFile m ''0:0'' ''0444'' req (b_manifest b) w1 = (e2, w') else e2 = None \<and> w' = w1"
    "e = None \<longleftrightarrow> e1 = None \<and> e2 = None"
proof -
  obtain e0 w1 where a: "apply_each req (b_files b) w = (e0, w1)" by (metis prod.exhaust)
  obtain e1 where p: "bytes.publish_all req (placed (\<lambda>p. p) (b_files b)) w = (e1, w1)" "e0 = None \<longleftrightarrow> e1 = None"
    using apply_each_all [OF a] by blast
  obtain e2 w2 where m: "WriteBytesFile m ''0:0'' ''0444'' req (b_manifest b) w1 = (e2, w2)" by (metis prod.exhaust)
  show thesis
    by (rule that [OF p(1), of "if e1 = None \<and> b_manifest b \<noteq> [] then e2 else None"])
      (use assms a p(2) m in \<open>auto simp: ApplyFiles_def split: if_splits option.splits\<close>)
qed

lemma WriteFilesUnderRoot_run:
  assumes "WriteFilesUnderRoot b root m req w = (e, w')"
  obtains e1 w1 e2 where "bytes.publish_all req (placed (path_join root) (b_files b)) w = (e1, w1)"
    "if e1 = None \<and> b_manifest b \<noteq> [] then WriteBytesFile (path_join root m) ''0:0'' ''0444'' req (b_manifest b) w1 = (e2, w')
       else e2 = None \<and> w' = w1"
    "e = None \<longleftrightarrow> e1 = None \<and> e2 = None"
proof -
  obtain e0 w1 where a: "write_each root req (b_files b) w = (e0, w1)" by (metis prod.exhaust)
  obtain e1 where p: "bytes.publish_all req (placed (path_join root) (b_files b)) w = (e1, w1)" "e0 = None \<longleftrightarrow> e1 = None"
    using write_each_all [OF a] by blast
  obtain e2 w2 where m: "WriteBytesFile (path_join root m) ''0:0'' ''0444'' req (b_manifest b) w1 = (e2, w2)" by (metis prod.exhaust)
  show thesis
    by (rule that [OF p(1), of "if e1 = None \<and> b_manifest b \<noteq> [] then e2 else None"])
      (use assms a p(2) m in \<open>auto simp: WriteFilesUnderRoot_def split: if_splits option.splits\<close>)
qed

lemma ApplyFiles_landed:
  assumes "ApplyFiles b m req w = (None, w')"
  shows "contents_landed (\<lambda>p. p) m (bundle_view b) w w'"
proof -
  obtain e1 w1 e2 where r: "bytes.publish_all req (placed (\<lambda>p. p) (b_files b)) w = (e1, w1)"
    "if e1 = None \<and> b_manifest b \<noteq> [] then WriteBytesFile m ''0:0'' ''0444'' req (b_manifest b) w1 = (e2, w') else e2 = None \<and> w' = w1"
    "(None :: consumer_error option) = None \<longleftrightarrow> e1 = None \<and> e2 = None" using assms(1) by (rule ApplyFiles_run)
  then have e: "e1 = None" "if b_manifest b \<noteq> [] then WriteBytesFile m ''0:0'' ''0444'' req (b_manifest b) w1 = (None, w') else w' = w1" by auto
  from landed [of req "\<lambda>p. p", OF r(1) [unfolded e(1)] e(2)] show ?thesis .
qed

lemma WriteFiles_landed:
  assumes "WriteFilesUnderRoot b root m req w = (None, w')"
  shows "contents_landed (path_join root) m (bundle_view b) w w'"
proof -
  obtain e1 w1 e2 where r: "bytes.publish_all req (placed (path_join root) (b_files b)) w = (e1, w1)"
    "if e1 = None \<and> b_manifest b \<noteq> [] then WriteBytesFile (path_join root m) ''0:0'' ''0444'' req (b_manifest b) w1 = (e2, w')
       else e2 = None \<and> w' = w1"
    "(None :: consumer_error option) = None \<longleftrightarrow> e1 = None \<and> e2 = None" using assms(1) by (rule WriteFilesUnderRoot_run)
  then have e: "e1 = None" "if b_manifest b \<noteq> [] then WriteBytesFile (path_join root m) ''0:0'' ''0444'' req (b_manifest b) w1 = (None, w')
      else w' = w1" by auto
  from landed [OF r(1) [unfolded e(1)] e(2)] show ?thesis .
qed

text \<open>
  C29: the manifest is the last thing to appear. When applying a bundle reports success, its files are in place and then the manifest: every path the
  bundle names holds the last data the bundle has for it, the manifest's path the manifest, and no other file changed; so, with distinct
  paths, every file is at its path with its content. When it reports a failure, whichever system call failed, the manifest's path is as it was
  before, provided the bundle has no file for that path (one named so is written first, like any file) and it is not of the form of a temporary file.
\<close>

theorem ApplyFiles_signal:
  assumes "ApplyFiles b m req w = (e, w')"
  shows "case e of
      None \<Rightarrow> contents_landed (\<lambda>p. p) m (bundle_view b) w w' \<and> (b_manifest b \<noteq> [] \<longrightarrow> content w' m = Some (b_manifest b))
        \<and> (contents_apart (\<lambda>p. p) m (bundle_view b) \<longrightarrow> (\<forall>f \<in> set (b_files b). content w' (wf_path f) = Some (sec_bytes (wf_data f))))
    | Some x \<Rightarrow> \<not> is_temp (path_clean m) \<and> path_clean m \<notin> set (targets (\<lambda>p. p) b) \<longrightarrow> content w' m = content w m"
proof (cases e)
  case None
  from ApplyFiles_landed [OF assms [unfolded None]] have l: "contents_landed (\<lambda>p. p) m (bundle_view b) w w'" .
  moreover have "b_manifest b \<noteq> [] \<longrightarrow> content w' m = Some (b_manifest b)"
    using landed_manifest [OF l [unfolded bundle_view_def]] by simp
  moreover have "content w' (wf_path f) = Some (sec_bytes (wf_data f))"
    if "contents_apart (\<lambda>p. p) m (bundle_view b)" "f \<in> set (b_files b)" for f
    using landed_placed [OF l that(1)] that(2) by (auto simp: contents_placed_def bundle_view_def file_view_def)
  ultimately show ?thesis using None by simp
next
  case (Some x)
  obtain e1 w1 e2 where r: "bytes.publish_all req (placed (\<lambda>p. p) (b_files b)) w = (e1, w1)"
    "if e1 = None \<and> b_manifest b \<noteq> [] then WriteBytesFile m ''0:0'' ''0444'' req (b_manifest b) w1 = (e2, w') else e2 = None \<and> w' = w1"
    "e = None \<longleftrightarrow> e1 = None \<and> e2 = None" using assms(1) by (rule ApplyFiles_run)
  have "content w' m = content w m" if t: "\<not> is_temp (path_clean m)" "path_clean m \<notin> set (targets (\<lambda>p. p) b)"
  proof -
    have q: "path_clean m \<notin> (\<lambda>x. path_clean (fst x)) ` set (placed (\<lambda>p. p) (b_files b))"
      using t(2) by (simp flip: placed_targets)
    have w1: "fs_files w1 (path_clean m) = fs_files w (path_clean m)" by (rule bytes.publish_all_frame [OF r(1) t(1) q])
    have "fs_files w' (path_clean m) = fs_files w1 (path_clean m)"
    proof (cases "e1 = None \<and> b_manifest b \<noteq> []")
      case True
      then obtain y where "WriteBytesFile m ''0:0'' ''0444'' req (b_manifest b) w1 = (Some y, w')" using r(2,3) Some by auto
      from bytes.done_err [OF this t(1)] show ?thesis .
    qed (use r(2) in auto)
    then show ?thesis using w1 by (simp add: content_def)
  qed
  then show ?thesis using Some by simp
qed

lemma sample_bundle_targets: "targets (\<lambda>p. p) sample_bundle = [''/run/berm/a'']" "path_clean ''/run/berm/m'' = ''/run/berm/m''"
  by code_simp+

definition sample_apply :: "nat option list \<Rightarrow> consumer_error option \<times> fs" where
  "sample_apply faults = ApplyFiles sample_bundle ''/run/berm/m'' True (sample_fs\<lparr>fs_faults := faults, fs_rand := [''1'', ''2'']\<rparr>)"

theorem ApplyFiles_signal_witness:
  "content (snd (sample_apply [])) ''/run/berm/a'' = Some ''pw''
   \<and> content (snd (sample_apply (replicate 12 None @ [Some 0]))) ''/run/berm/m'' = None"
proof -
  have nt: "\<not> is_temp (path_clean ''/run/berm/m'')" unfolding sample_bundle_targets by (rule not_temp) simp
  note h = ApplyFiles_signal [where m = "''/run/berm/m''" and b = sample_bundle]
  have apart: "contents_apart (\<lambda>p. p) ''/run/berm/m'' (bundle_view sample_bundle)" by code_simp
  have "fst (sample_apply []) = None" by code_simp
  then obtain w' where r: "sample_apply [] = (None, w')" by (cases "sample_apply []") auto
  have "content w' ''/run/berm/a'' = Some ''pw''"
    using h [OF r [unfolded sample_apply_def]] apart by (simp add: sample_bundle_def)
  moreover have "fst (sample_apply (replicate 12 None @ [Some 0])) \<noteq> None" by code_simp
  then obtain x w2 where r2: "sample_apply (replicate 12 None @ [Some 0]) = (Some x, w2)"
    by (cases "sample_apply (replicate 12 None @ [Some 0])") auto
  moreover have "content w2 ''/run/berm/m'' = None"
    using h [OF r2 [unfolded sample_apply_def]] nt by (simp add: sample_bundle_targets content_def sample_fs_def)
  ultimately show ?thesis using r by simp
qed

section \<open>Where the hook writes\<close>

definition plain_path :: "string \<Rightarrow> bool" where
  "plain_path p \<longleftrightarrow> (\<exists>ts. list_all plain_elem ts \<and> ts \<noteq> [] \<and> p = ''/'' @ join_slash ts)"

lemma path_join_plain:
  assumes "is_abs root" "plain_path p"
  shows "under root (path_clean (path_join root p))"
proof -
  obtain ts where ts: "list_all plain_elem ts" "ts \<noteq> []" "p = ''/'' @ join_slash ts" using assms(2) by (auto simp: plain_path_def)
  let ?j = "root @ ''/'' @ p"
  have abs: "is_abs ?j" and r: "root \<noteq> []" using assms(1) by (cases root; simp add: is_abs_def)+
  have "split_byte CHR ''/'' ?j = split_byte CHR ''/'' root @ [] # ts"
    using ts by (simp add: split_byte_append_sep split_join_slash list_all_iff plain_elem_def)
  then have e: "path_elems ?j = path_elems root @ ts"
    using assms(1) abs by (simp add: path_elems_def clean_elems_append clean_elems_plain [OF ts(1)])
  have "path_join root p = path_clean ?j" using r ts(3) by (simp add: path_join_def)
  then have "path_clean (path_join root p) = path_of True (path_elems root @ ts)"
    using path_clean_idem_abs [OF abs] path_clean_abs [OF abs] e by simp
  then show ?thesis using ts(1) by (auto simp: under_def)
qed

text \<open>
  the hook stays in the container's root, for plain paths. When no element of a path of the bundle is empty, a dot or two dots, writing the
  bundle under a root changes no file outside that root, and leaves inside it only the bundle's own files changed, whatever fails.
\<close>

theorem hook_confined:
  assumes "WriteFilesUnderRoot b root m req w = (e, w')" "is_abs root"
    and "\<forall>f \<in> set (b_files b). plain_path (wf_path f)" "plain_path m"
    and "\<not> is_temp q" "\<not> under root q \<or> q \<notin> set (targets (path_join root) b) \<and> q \<noteq> path_clean (path_join root m)"
  shows "fs_files w' q = fs_files w q"
proof -
  obtain e1 w1 e2 where r: "bytes.publish_all req (placed (path_join root) (b_files b)) w = (e1, w1)"
    "if e1 = None \<and> b_manifest b \<noteq> [] then WriteBytesFile (path_join root m) ''0:0'' ''0444'' req (b_manifest b) w1 = (e2, w')
       else e2 = None \<and> w' = w1" using assms(1) by (rule WriteFilesUnderRoot_run)
  have "q \<noteq> path_clean (path_join root m)" "q \<notin> set (targets (path_join root) b)"
    using assms(2-4,6) path_join_plain by (auto simp: targets_def)
  from deliver_cases [OF r assms(5) this] show ?thesis .
qed

definition hook_fs :: fs where "hook_fs = sample_fs\<lparr>fs_tmpfs := (\<lambda>d. True), fs_rand := [''1'', ''2'', ''3'']\<rparr>"

definition sample_file :: "string \<Rightarrow> wbundle" where
  "sample_file p = sample_bundle\<lparr>b_files := map (\<lambda>f. f\<lparr>wf_path := p\<rparr>) (b_files sample_bundle)\<rparr>"

theorem hook_confined_witness:
  "fs_files (snd (WriteFilesUnderRoot (sample_file ''/run/pw'') ''/c/root'' ''/run/m'' True hook_fs)) ''/run/pw'' = None"
proof -
  have "join_slash [''run'', ''pw''] = ''run/pw''" "join_slash [''run'', ''m''] = ''run/m''" by simp_all
  moreover have "list_all plain_elem [''run'', ''pw'']" "list_all plain_elem [''run'', ''m'']" by (simp_all add: plain_elem_def)
  ultimately have pp: "plain_path ''/run/pw''" "plain_path ''/run/m''" unfolding plain_path_def by (metis append_Cons append_Nil list.distinct(1))+
  obtain e w' where r: "WriteFilesUnderRoot (sample_file ''/run/pw'') ''/c/root'' ''/run/m'' True hook_fs = (e, w')" by (metis prod.exhaust)
  have "path_elems ''/c/root'' = [''c'', ''root'']" by code_simp
  then have nu: "\<not> under ''/c/root'' ''/run/pw''" by (auto simp: under_def path_of_def)
  have nt: "\<not> is_temp ''/run/pw''" by (rule not_temp) simp
  have "fs_files w' ''/run/pw'' = fs_files hook_fs ''/run/pw''"
    by (rule hook_confined [OF r]) (use pp nu nt in \<open>simp_all add: is_abs_def sample_file_def sample_bundle_def\<close>)
  then show ?thesis unfolding r snd_conv by (simp add: hook_fs_def sample_fs_def)
qed

text \<open>
  a path with dots leaves the root. The label grammar takes any path that starts with a slash; with \<open>/../../run/x\<close> the hook writes the
  secret at \<open>/run/x\<close> of the file system it runs in, outside the container's root, and reports success.
\<close>

theorem hook_escapes_root:
  "fst (WriteFilesUnderRoot (sample_file ''/../../run/x'') ''/c/root'' ''/run/m'' True hook_fs) = None
   \<and> content (snd (WriteFilesUnderRoot (sample_file ''/../../run/x'') ''/c/root'' ''/run/m'' True hook_fs)) ''/run/x'' = Some ''pw''
   \<and> (case Parse [(''berm.enable'', ''true''), (''berm.file.pw.from'', ''PW''), (''berm.file.pw.path'', ''/../../run/x'')] of
        Inl e \<Rightarrow> False | Inr sp \<Rightarrow> map fd_path (sp_files sp) = [''/../../run/x''])"
  by (intro conjI) code_simp+

section \<open>The consumers when they succeed\<close>

text \<open>The fetch form and the exec form when they succeed.\<close>

lemma client_Fetch_reply:
  "client_Fetch env sock t lm = (Inr b, lm') \<Longrightarrow> ReadResponse (ce_reply env sock t) lm = (Inr b, lm')"
  by (auto simp: client_Fetch_def split: if_splits option.splits sum.splits prod.splits)

lemma hook_Fetch_reply:
  "hook_Fetch env sock cid ann t lm = (Inr b, lm') \<Longrightarrow>
     fst (WriteHookRequest cid ann (ce_out env)) = None \<and> ReadResponse (ce_reply env sock t) lm = (Inr b, lm')"
  by (auto simp: hook_Fetch_def split: if_splits option.splits sum.splits prod.splits)

lemma client_exec_succeeds:
  assumes "client_run env (''exec'' # args) w lm = (Replaced path argv vars, w', lm')"
  obtains b lm1 where "ReadResponse (ce_reply env (socketFrom env args) (client_timeout env)) lm = (Inr b, lm1)"
    "ApplyFiles b (client_manifestPath env) (client_requireTmpfs env) w = (None, w')" "vars = EnvFor (ce_environ env) b"
    "argv = afterDashDash args" "runExec env args w lm = (Replaced path argv vars, w', lm')"
proof -
  have run: "runExec env args w lm = (Replaced path argv vars, w', lm')" using assms by (simp add: client_run_def)
  obtain r lm1 where f: "client_Fetch env (socketFrom env args) (client_timeout env) lm = (r, lm1)" by (metis prod.exhaust)
  obtain b where b: "r = Inr b" using run f by (cases r) (auto simp: runExec_def Let_def split: if_splits)
  obtain x b1 w1 lm2 where e: "client_Exec env b (afterDashDash args) (client_manifestPath env) (client_requireTmpfs env) w lm1 = (x, b1, w1, lm2)"
    by (metis prod.exhaust)
  then have x: "x = Inr (Replaced path argv vars)" "w1 = w'" using run f b by (auto simp: runExec_def Let_def split: if_splits sum.splits)
  have "ApplyFiles b (client_manifestPath env) (client_requireTmpfs env) w = (None, w')" "vars = EnvFor (ce_environ env) b" "argv = afterDashDash args"
    using e x by (auto simp: client_Exec_def Let_def split: if_splits option.splits prod.splits)
  with that client_Fetch_reply [OF f [unfolded b]] run show thesis by blast
qed

end
