(* ===== verification/Daemon_Secrecy.thy ===== *)
theory Daemon_Secrecy
  imports Daemon_Control
begin

text \<open>
  The discipline \<open>internal/alert\<close> states for the whole program, that a sink never carries a secret value, for everything
  the daemon keeps and says: the daemon is compared with one whose sops program prints the same keys and blanks
  for values. The blanked program (\<open>blank_io\<close>, \<open>blank_ops\<close>) and the hidden views of a bundle, a file system and a daemon are not
  code; they say what an observer may depend on.
\<close>

section \<open>Blanks for values\<close>

definition blanks :: "string \<Rightarrow> string" where
  "blanks p = map (\<lambda>_. CHR ''x'') p"

text \<open>A dotenv text with every byte between the first equals sign of a line and its end replaced.\<close>

fun blank_values :: "bool \<Rightarrow> string \<Rightarrow> string" where
  "blank_values in_value [] = []"
| "blank_values in_value (c # cs) =
     (if c = newline then c # blank_values False cs
      else if in_value then CHR ''x'' # blank_values True cs
      else c # blank_values (c = CHR ''='') cs)"

definition blank_text :: "source_format \<Rightarrow> string \<Rightarrow> string" where
  "blank_text format p = (if format = FormatDotenv then blank_values False p else blanks p)"

lemma length_blanks [simp]: "length (blanks p) = length p" "length (blank_values b p) = length p"
    "length (blank_text f p) = length p"
proof -
  show v: "length (blank_values b p) = length p" for b p
    by (induction b p rule: blank_values.induct) simp_all
  show "length (blanks p) = length p" "length (blank_text f p) = length p" by (simp_all add: blanks_def blank_text_def v)
qed

lemma blanks_Nil [simp]: "blanks [] = []" "blanks p = [] \<longleftrightarrow> p = []" "blank_text f p = [] \<longleftrightarrow> p = []"
  by (simp_all add: blanks_def flip: length_0_conv)

lemma blanks_append [simp]: "blanks (p @ q) = blanks p @ blanks q" "blanks (blanks p) = blanks p"
  by (simp_all add: blanks_def)

lemma blanks_eq: "blanks p = blanks q \<longleftrightarrow> length p = length q"
  by (simp add: blanks_def map_replicate_const)

lemma blanks_len: "length p = length q \<Longrightarrow> blanks p = blanks q"
  by (simp add: blanks_eq)

lemma blank_values_line: "newline \<notin> set l \<Longrightarrow> blank_values True l = blanks l"
  by (induction l) (auto simp: blanks_def)

lemma split_blank_values:
  "split_byte newline (blank_values b p) = (case split_byte newline p of
     [] \<Rightarrow> [] | w # ws \<Rightarrow> blank_values b w # map (blank_values False) ws)"
proof (induction b p rule: blank_values.induct)
  case (2 b c cs)
  then show ?case
    using split_byte_not_Nil [of newline cs] by (auto simp: newline_def split: list.splits)
qed simp

lemma blank_line_first: "isBlankOrComment (blank_values False l) = isBlankOrComment l"
  by (cases l) (auto simp: isBlankOrComment_def)

lemma blank_line_key:
  "newline \<notin> set l \<Longrightarrow> dotenvLineKey (blank_values False l) = map_option (map_prod id blanks) (dotenvLineKey l)"
proof (induction l)
  case (Cons c l)
  then show ?case
    by (cases "c = CHR ''=''") (auto simp: dotenvLineKey_def blank_values_line split: option.splits)
qed (simp add: dotenvLineKey_def)

lemma blank_lines:
  assumes "\<forall>l \<in> set ls. newline \<notin> set l"
  shows "keys_lines (map (blank_values False) ls) = keys_lines ls"
    "find_lines (map (blank_values False) ls) k = map_option (map_option blanks) (find_lines ls k)"
  using assms by (induction ls) (auto simp: blank_line_first blank_line_key split: option.splits)

lemma blank_lines_text: "split_byte newline (blank_values False p) = map (blank_values False) (split_byte newline p)"
  unfolding split_blank_values using split_byte_not_Nil [of newline p] by (auto split: list.splits)

lemma blank_dotenv:
  "dotenvKeys (blank_values False p) = dotenvKeys p"
  "dotenvFind (blank_values False p) k = map_option (map_option blanks) (dotenvFind p k)"
  unfolding dotenvKeys_def dotenvFind_def blank_lines_text using split_byte_parts by (auto intro!: blank_lines)

section \<open>A source that prints blanks\<close>

definition blank_run :: "source_format \<Rightarrow> sops_result \<Rightarrow> sops_result" where
  "blank_run f r = r\<lparr>so_out := blank_text f (so_out r)\<rparr>"

text \<open>The input type is the third argument of every call of sops.\<close>

definition blank_io :: "sops_env \<Rightarrow> sops_env" where
  "blank_io io = io\<lparr>io_run := \<lambda>args env. blank_run (args ! 3) (io_run io args env)\<rparr>"

definition blank_opener :: "opener_env \<Rightarrow> opener_env" where
  "blank_opener oe = oe\<lparr>oe_sops := blank_io (oe_sops oe)\<rparr>"

text \<open>The same on the interface: values and payloads come out blank, all else as before.\<close>

definition blank_ops :: "'h source_ops \<Rightarrow> 'h source_ops" where
  "blank_ops ops = ops\<lparr>so_value := \<lambda>h k lm. map_prod (map_sum id blanks) id (so_value ops h k lm),
     so_write_value := \<lambda>h k lm. map_prod (map_prod blanks id) id (so_write_value ops h k lm),
     so_payload := \<lambda>h lm. map_prod (map_sum id blanks) id (so_payload ops h lm),
     so_write_payload := \<lambda>h. map_prod blanks id (so_write_payload ops h)\<rparr>"

lemma blank_ops_simps [simp]:
  "so_open (blank_ops ops) = so_open ops" "so_keys (blank_ops ops) = so_keys ops" "so_close (blank_ops ops) = so_close ops"
  "so_cipher_hash (blank_ops ops) = so_cipher_hash ops"
  "so_value (blank_ops ops) h k lm = map_prod (map_sum id blanks) id (so_value ops h k lm)"
  "so_write_value (blank_ops ops) h k lm = map_prod (map_prod blanks id) id (so_write_value ops h k lm)"
  "so_payload (blank_ops ops) h lm = map_prod (map_sum id blanks) id (so_payload ops h lm)"
  "so_write_payload (blank_ops ops) h = map_prod blanks id (so_write_payload ops h)"
  by (simp_all add: blank_ops_def)

lemma blank_run_simps [simp]:
  "so_start_err (blank_run f r) = so_start_err r" "so_stderr (blank_run f r) = so_stderr r"
  "so_copy_err (blank_run f r) = so_copy_err r" "so_wait_err (blank_run f r) = so_wait_err r"
  "so_flush_err (blank_run f r) = so_flush_err r" "so_out (blank_run f r) = blank_text f (so_out r)"
  "stderr_head (blank_run f r) = stderr_head r"
  by (simp_all add: blank_run_def stderr_head_def)

lemma blank_io_simps [simp]:
  "io_exists (blank_io io) = io_exists io" "io_chunk (blank_io io) = io_chunk io"
  "op_run (blank_io io) op = blank_run (op_format op) (op_run io op)"
  by (simp_all add: blank_io_def op_run_def newSopsCmd_def decryptArgs_def minimalEnv_def numeral_3_eq_3)

lemma blank_capture:
  "captureDecrypt (blank_io io) (blank_run f r) lm =
     map_prod (map_sum id (map_option (map_prod (blank_text f) id))) id (captureDecrypt io r lm)"
  by (simp add: captureDecrypt_def drainStream_def Let_def split: option.split prod.split)

lemma blank_stream: "streamDecrypt (blank_run f r) = map_prod (blank_text f) id (streamDecrypt r)"
  by (simp add: streamDecrypt_def blank_text_def split: option.split)

lemma copyLocked_len: "copyLocked (blanks v) op lm = copyLocked v op lm"
  by (simp add: copyLocked_def)

lemma blank_Keys: "sops_Keys (blank_io io) op lm = sops_Keys io op lm"
  by (auto simp: sops_Keys_def blank_capture blank_text_def blank_dotenv split: prod.split sum.split option.split)

lemma blank_Value: "sops_Value (blank_io io) op k lm = map_prod (map_sum id blanks) id (sops_Value io op k lm)"
  by (auto simp: sops_Value_def blank_capture blank_text_def blank_dotenv copyLocked_len split: prod.split sum.split option.split)

lemma blank_WriteValue: "sops_WriteValue (blank_io io) op k lm = map_prod (map_prod blanks id) id (sops_WriteValue io op k lm)"
  by (auto simp: sops_WriteValue_def blank_capture blank_text_def blank_dotenv split: prod.split sum.split option.split)

lemma blank_Payload: "sops_Payload (blank_io io) op lm = map_prod (map_sum id blanks) id (sops_Payload io op lm)"
  by (auto simp: sops_Payload_def blank_capture blank_text_def split: prod.split sum.split option.split)

lemma blank_WritePayload: "sops_WritePayload (blank_io io) op = map_prod blanks id (sops_WritePayload io op)"
  by (auto simp: sops_WritePayload_def blank_stream blank_text_def split: prod.split)

lemma blank_Open: "sops_Open (blank_io io) = sops_Open io"
  by (intro ext) (simp only: sops_Open_def blank_io_simps)

lemma blank_opener_simps [simp]:
  "oe_cfg (blank_opener oe) = oe_cfg oe" "oe_sops (blank_opener oe) = blank_io (oe_sops oe)"
  "oe_read_cipher (blank_opener oe) = oe_read_cipher oe" "oe_sha256_hex (blank_opener oe) = oe_sha256_hex oe"
  by (simp_all add: blank_opener_def)

lemma blank_opens: "OpenSource (blank_opener oe) = OpenSource oe" "SourceCipherHash (blank_opener oe) = SourceCipherHash oe"
  by (intro ext, simp only: OpenSource_def blank_opener_simps blank_Open)
    (intro ext, simp only: SourceCipherHash_def blank_opener_simps)

lemma config_ops_blank: "config_ops (blank_opener oe) = blank_ops (config_ops oe)"
  by (simp add: config_ops_def blank_ops_def blank_opens blank_Keys [abs_def] blank_Value [abs_def] blank_WriteValue [abs_def]
      blank_Payload [abs_def] blank_WritePayload [abs_def] fun_eq_iff blank_Keys)

section \<open>Bundles\<close>

definition hide_secret :: "secret \<Rightarrow> secret" where
  "hide_secret s = s\<lparr>sec_bytes := blanks (sec_bytes s)\<rparr>"

definition hide_bundle :: "wbundle \<Rightarrow> wbundle" where
  "hide_bundle b = b\<lparr>b_files := map (\<lambda>f. f\<lparr>wf_data := hide_secret (wf_data f)\<rparr>) (b_files b),
     b_env := map (\<lambda>e. e\<lparr>ev_value := hide_secret (ev_value e)\<rparr>) (b_env b)\<rparr>"

definition hide_add :: "add_result \<Rightarrow> add_result" where
  "hide_add r = (case r of (e, b, lm) \<Rightarrow> (e, hide_bundle b, lm))"

named_theorems hide_simps

lemma hide_add_simp [hide_simps]: "hide_add (e, b, lm) = (e, hide_bundle b, lm)"
  by (simp add: hide_add_def)

lemma hide_bundle_put [hide_simps]:
  "hide_bundle (put_file p ow md s b) = put_file p ow md (hide_secret s) (hide_bundle b)"
  "hide_bundle (put_env n s b) = put_env n (hide_secret s) (hide_bundle b)"
  "hide_bundle (put_pointer ft b) = put_pointer ft (hide_bundle b)"
  "hide_bundle (b\<lparr>b_manifest := m\<rparr>) = (hide_bundle b)\<lparr>b_manifest := m\<rparr>"
  "hide_bundle empty_bundle = empty_bundle"
  by (simp_all add: hide_bundle_def put_file_def put_env_def put_pointer_def empty_bundle_def)

lemma hide_bundle_parts [simp]:
  "b_locked (hide_bundle b) = b_locked b" "b_manifest (hide_bundle b) = b_manifest b" "b_pointers (hide_bundle b) = b_pointers b"
  by (simp_all add: hide_bundle_def)

lemma hide_bundleD: "hide_bundle b = hide_bundle c \<Longrightarrow> b_locked b = b_locked c \<and> b_manifest b = b_manifest c"
  by (metis hide_bundle_parts(1,2))

lemma hide_AddSecret [hide_simps]:
  "map_prod hide_secret (map_prod hide_bundle id) (AddSecret p b lm) = AddSecret (blanks p) (hide_bundle b) lm"
  by (simp add: AddSecret_def hide_secret_def empty_secret_def hide_bundle_def Let_def split: prod.split)

lemma AddSecret_hidden:
  assumes "length p = length q" "hide_bundle b = hide_bundle c" "AddSecret p b lm = (s, b', lm')" "AddSecret q c lm = (t, c', lm'')"
  shows "hide_secret s = hide_secret t" "hide_bundle b' = hide_bundle c'" "lm' = lm''"
proof -
  have "(hide_secret s, hide_bundle b', lm') = (hide_secret t, hide_bundle c', lm'')"
    using hide_AddSecret [of p b lm] hide_AddSecret [of q c lm] unfolding blanks_len [OF assms(1)] assms(2,3,4) by simp
  then show "hide_secret s = hide_secret t" "hide_bundle b' = hide_bundle c'" "lm' = lm''" by simp_all
qed

lemma addFile_hidden:
  assumes "hide_bundle b = hide_bundle c"
  shows "hide_add (addFile (blank_ops ops) b ft lm) = hide_add (addFile ops c ft lm)"
proof (cases "so_open ops (ft_source ft)")
  case (Inr op)
  obtain r h lm1 where r: "(if ft_whole ft then so_payload ops op lm else so_value ops op (ft_key ft) lm) = (r, h, lm1)"
    by (metis prod.exhaust)
  then have r': "(if ft_whole ft then so_payload (blank_ops ops) op lm else so_value (blank_ops ops) op (ft_key ft) lm)
      = (map_sum id blanks r, h, lm1)" by (simp split: if_splits)
  show ?thesis
  proof (cases r)
    case (Inr p)
    obtain s b' lm2 t c' lm3 where a: "AddSecret (blanks p) b lm1 = (s, b', lm2)" "AddSecret p c lm1 = (t, c', lm3)"
      by (metis prod.exhaust)
    from AddSecret_hidden [OF _ assms a] show ?thesis
      by (simp only: addFile_def blank_ops_simps(1) \<open>so_open ops _ = _\<close> sum.case r r' [unfolded blank_ops_simps(5,7)] Inr Let_def
          prod.case map_sum.simps a blank_ops_simps(3,5,7)) (simp add: hide_simps)
  qed (simp add: addFile_def \<open>so_open ops _ = _\<close> r r' [simplified] hide_simps assms)
qed (simp add: addFile_def hide_simps assms)

lemma render_text_hidden:
  assumes "length a = length a'"
  shows "\<exists>r h lm'. render_text ops op ks a' lm = (r, h, lm')
    \<and> (\<exists>r'. render_text (blank_ops ops) op ks a lm = (r', h, lm') \<and> map_sum id length r' = map_sum id length r)"
  using assms
proof (induction ks arbitrary: op lm a a')
  case (Cons k ks)
  obtain v h lm1 where v: "so_value ops op k lm = (v, h, lm1)" by (metis prod.exhaust)
  show ?case
  proof (cases v)
    case (Inr x)
    have "length (a @ dotenv_line (k, blanks x)) = length (a' @ dotenv_line (k, x))" using Cons.prems by (simp add: dotenv_line_def)
    from Cons.IH [OF this] show ?thesis by (simp add: v Inr)
  qed (simp add: v)
qed simp

lemma add_each_hidden:
  assumes "hide_bundle b = hide_bundle c"
    and "\<And>k s t b c. hide_secret s = hide_secret t \<Longrightarrow> hide_bundle b = hide_bundle c \<Longrightarrow> hide_bundle (put k s b) = hide_bundle (put k t c)"
  shows "\<exists>e h b' lm' c'. add_each (blank_ops ops) put op ks b lm = (e, h, b', lm') \<and> add_each ops put op ks c lm = (e, h, c', lm')
    \<and> hide_bundle b' = hide_bundle c'"
  using assms(1)
proof (induction ks arbitrary: op b c lm)
  case (Cons k ks)
  obtain v h lm1 where v: "so_value ops op k lm = (v, h, lm1)" by (metis prod.exhaust)
  show ?case
  proof (cases v)
    case (Inr p)
    obtain s b' lm2 t c' lm3 where a: "AddSecret (blanks p) b lm1 = (s, b', lm2)" "AddSecret p c lm1 = (t, c', lm3)"
      by (metis prod.exhaust)
    note h = AddSecret_hidden [OF _ Cons.prems a, simplified]
    from Cons.IH [OF assms(2) [OF h(1,2)]] show ?thesis by (simp add: v Inr a h(3))
  qed (simp add: v Cons.prems)
qed simp

lemma hide_put_cong:
  assumes "hide_secret s = hide_secret t" "hide_bundle b = hide_bundle c"
  shows "hide_bundle (put_file p ow md s b) = hide_bundle (put_file p ow md t c)"
    "hide_bundle (put_env n s b) = hide_bundle (put_env n t c)"
  using assms by (simp_all add: hide_simps)

lemma addRender_hidden:
  assumes "hide_bundle b = hide_bundle c"
  shows "hide_add (addRender (blank_ops ops) env b rt lm) = hide_add (addRender ops env c rt lm)"
proof (cases "so_open ops (rt_source rt)")
  case op: (Inr op)
  obtain ks lm1 where ks: "so_keys ops op lm = (ks, lm1)" by (metis prod.exhaust)
  show ?thesis
  proof (cases ks)
    case (Inr keys)
    obtain r h lm2 r' where r: "render_text ops op keys [] lm1 = (r, h, lm2)" "render_text (blank_ops ops) op keys [] lm1 = (r', h, lm2)"
        "map_sum id length r' = map_sum id length r"
      using render_text_hidden [of "[]" "[]" ops op keys lm1] by auto
    obtain e h' b' lm' c' where d:
      "add_each (blank_ops ops) (\<lambda>k. put_file (rt_path rt @ ''/'' @ k) (rt_owner rt) (rt_mode rt)) op keys b lm1 = (e, h', b', lm')"
      "add_each ops (\<lambda>k. put_file (rt_path rt @ ''/'' @ k) (rt_owner rt) (rt_mode rt)) op keys c lm1 = (e, h', c', lm')"
      "hide_bundle b' = hide_bundle c'"
      using add_each_hidden [OF assms, of "\<lambda>k. put_file (rt_path rt @ ''/'' @ k) (rt_owner rt) (rt_mode rt)" ops op keys lm1] hide_put_cong(1)
      by blast
    have dotenv: "rt_kind rt = RenderDotenv \<Longrightarrow> ?thesis"
    proof (cases r)
      case x: (Inr x)
      with r(3) obtain y where y: "r' = Inr y" "length y = length x" by (cases r') auto
      obtain n lm3 where n: "new_buffer (length x) lm2 = (n, lm3)" by (metis prod.exhaust)
      obtain s b1 lm4 t c1 lm5 where a: "AddSecret y b lm3 = (s, b1, lm4)" "AddSecret x c lm3 = (t, c1, lm5)" by (metis prod.exhaust)
      note h = AddSecret_hidden [OF y(2) assms a]
      assume "rt_kind rt = RenderDotenv"
      then show ?thesis using h assms by (simp add: addRender_def op ks Inr r(1,2) x y n a hide_simps)
    next
      case (Inl x)
      with r(3) have "r' = Inl x" by (cases r') auto
      moreover assume "rt_kind rt = RenderDotenv"
      ultimately show ?thesis using Inl assms by (cases x) (simp add: addRender_def op ks Inr r(1,2) hide_simps)
    qed
    show ?thesis
    proof (cases "rt_kind rt = RenderDotenv")
      case False
      then show ?thesis by (simp add: addRender_def op ks Inr d(1,2) [simplified append.simps] hide_simps d(3) assms)
    qed (rule dotenv)
  qed (simp add: addRender_def op ks hide_simps assms)
qed (simp add: addRender_def hide_simps assms)

lemma addEnv_hidden:
  assumes "hide_bundle b = hide_bundle c"
  shows "hide_add (addEnv (blank_ops ops) b et lm) = hide_add (addEnv ops c et lm)"
proof (cases "so_open ops (et_source et)")
  case op: (Inr op)
  show ?thesis
  proof (cases "et_all et")
    case True
    obtain ks lm1 where ks: "so_keys ops op lm = (ks, lm1)" by (metis prod.exhaust)
    show ?thesis
    proof (cases ks)
      case (Inr keys)
      obtain e h' b' lm' c' where d: "add_each (blank_ops ops) put_env op keys b lm1 = (e, h', b', lm')"
          "add_each ops put_env op keys c lm1 = (e, h', c', lm')" "hide_bundle b' = hide_bundle c'"
        using add_each_hidden [OF assms, of put_env ops op keys lm1] hide_put_cong(2) by blast
      then show ?thesis by (simp add: addEnv_def op True ks Inr hide_simps)
    qed (simp add: addEnv_def op True ks hide_simps assms)
  next
    case False
    obtain v h lm1 where v: "so_value ops op (et_key et) lm = (v, h, lm1)" by (metis prod.exhaust)
    show ?thesis
    proof (cases v)
      case (Inr p)
      obtain s b' lm2 t c' lm3 where a: "AddSecret (blanks p) b lm1 = (s, b', lm2)" "AddSecret p c lm1 = (t, c', lm3)"
        by (metis prod.exhaust)
      note h = AddSecret_hidden [OF _ assms a, simplified]
      then show ?thesis by (simp add: addEnv_def op False v Inr a hide_simps)
    qed (simp add: addEnv_def op False v hide_simps assms)
  qed
qed (simp add: addEnv_def hide_simps assms)

lemma add_all_hidden:
  assumes "\<And>b c x lm. hide_bundle b = hide_bundle c \<Longrightarrow> hide_add (f b x lm) = hide_add (g c x lm)" "hide_bundle b = hide_bundle c"
  shows "hide_add (add_all f b xs lm) = hide_add (add_all g c xs lm)"
  using assms(2)
proof (induction xs arbitrary: b c lm)
  case (Cons x xs)
  obtain e b' lm1 e' c' lm2 where r: "f b x lm = (e, b', lm1)" "g c x lm = (e', c', lm2)" by (metis prod.exhaust)
  with assms(1) [OF Cons.prems, of x lm] have h: "e = e'" "hide_bundle b' = hide_bundle c'" "lm1 = lm2" by (simp_all add: hide_simps)
  from Cons.IH [OF h(2)] h show ?case by (simp add: r hide_simps split: option.split)
qed (simp add: hide_simps)

lemma BuildManifest_blank: "BuildManifest (blank_ops ops) = BuildManifest ops"
  by (intro ext) (simp only: BuildManifest_def hashOf_def blank_ops_simps)

lemma build_steps_hidden:
  assumes "hide_bundle b = hide_bundle c"
  shows "hide_add (build_steps (blank_ops ops) env plan b lm) = hide_add (build_steps ops env plan c lm)"
proof -
  have step: "hide_add (case x of (Some e, b, lm) \<Rightarrow> (Some e, b, lm) | (None, b, lm) \<Rightarrow> k b lm)
      = hide_add (case y of (Some e, b, lm) \<Rightarrow> (Some e, b, lm) | (None, b, lm) \<Rightarrow> k' b lm)"
    if "hide_add x = hide_add y" "\<And>b c lm. hide_bundle b = hide_bundle c \<Longrightarrow> hide_add (k b lm) = hide_add (k' c lm)" for x y k k'
    using that by (cases x; cases y) (auto simp: hide_simps split: option.split)
  show ?thesis
    unfolding build_steps_def BuildManifest_blank
    by (rule step [OF add_all_hidden [OF addFile_hidden assms]], assumption)
      (rule step [OF add_all_hidden [OF addRender_hidden]], assumption+,
       rule step [OF add_all_hidden [OF addEnv_hidden]], assumption+, simp add: hide_simps split: sum.split)
qed

lemma BuildBundle_hidden:
  "map_prod (map_sum id hide_bundle) id (BuildBundle (blank_ops ops) env caller plan lm)
     = map_prod (map_sum id hide_bundle) id (BuildBundle ops env caller plan lm)"
proof -
  obtain e b lm1 e' c lm2 where r: "build_steps (blank_ops ops) env plan empty_bundle lm = (e, b, lm1)"
      "build_steps ops env plan empty_bundle lm = (e', c, lm2)" by (metis prod.exhaust)
  from build_steps_hidden [of empty_bundle empty_bundle ops env plan lm]
  have h: "e = e'" "hide_bundle b = hide_bundle c" "lm1 = lm2" by (simp_all add: r hide_simps)
  with hide_bundleD [OF h(2)] show ?thesis by (simp add: BuildBundle_def r Destroy_def split: option.split)
qed

section \<open>The frame that carries a bundle\<close>

text \<open>Two writers that send as many bytes and fail alike, whatever the bytes.\<close>

named_theorems match_rules

definition matched :: "writer \<Rightarrow> writer \<Rightarrow> bool" where
  "matched v w \<longleftrightarrow> (\<forall>s t. sk_room s = sk_room t \<longrightarrow> fst (v s) = fst (w t) \<and> sk_room (snd (v s)) = sk_room (snd (w t))
     \<and> (\<exists>p q. sk_sent (snd (v s)) = sk_sent s @ p \<and> sk_sent (snd (w t)) = sk_sent t @ q \<and> length p = length q))"

lemma matchedD:
  assumes "matched v w" "sk_room s = sk_room t" "v s = (e, s')" "w t = (e', t')"
  obtains p q where "e = e'" "sk_room s' = sk_room t'" "sk_sent s' = sk_sent s @ p" "sk_sent t' = sk_sent t @ q" "length p = length q"
  using assms by (fastforce simp: matched_def)

lemma matched_sink [match_rules]: "length p = length q \<Longrightarrow> matched (sink_write p) (sink_write q)"
  by (auto simp: matched_def sink_write_def split: option.split)

lemma matched_fail [match_rules]: "matched (failW e) (failW e)"
  by (simp add: matched_def failW_def)

lemma matched_then [match_rules]:
  assumes "matched a b" "matched v w"
  shows "matched (thenW a v) (thenW b w)"
  unfolding matched_def
proof (intro allI impI)
  fix s t :: sink
  assume room: "sk_room s = sk_room t"
  obtain e s1 e' t1 where 1: "a s = (e, s1)" "b t = (e', t1)" by (metis prod.exhaust)
  obtain f s2 f' t2 where 2: "v s1 = (f, s2)" "w t1 = (f', t2)" by (metis prod.exhaust)
  from assms(1) room 1 obtain p q where m1: "e = e'" "sk_room s1 = sk_room t1" "sk_sent s1 = sk_sent s @ p" "sk_sent t1 = sk_sent t @ q"
    "length p = length q" by (rule matchedD)
  from assms(2) m1(2) 2 obtain p' q' where m2: "f = f'" "sk_room s2 = sk_room t2" "sk_sent s2 = sk_sent s1 @ p'"
    "sk_sent t2 = sk_sent t1 @ q'" "length p' = length q'" by (rule matchedD)
  show "fst (thenW a v s) = fst (thenW b w t) \<and> sk_room (snd (thenW a v s)) = sk_room (snd (thenW b w t))
      \<and> (\<exists>p q. sk_sent (snd (thenW a v s)) = sk_sent s @ p \<and> sk_sent (snd (thenW b w t)) = sk_sent t @ q \<and> length p = length q)"
    using m1 m2 by (simp add: thenW_def 1 2 split: option.split)
qed

lemma matched_for [match_rules]: "list_all2 (\<lambda>x y. matched (f x) (g y)) xs ys \<Longrightarrow> matched (forW f xs) (forW g ys)"
proof (induction rule: list_all2_induct)
  case (Cons x xs y ys)
  from matched_then [OF Cons(1,3)] show ?case by (simp add: matched_def)
qed (simp add: matched_def)

lemma matched_fields [match_rules]:
  "length p = length q \<Longrightarrow> matched (writeU16Bytes p) (writeU16Bytes q)"
  "length p = length q \<Longrightarrow> matched (writeU32Bytes p) (writeU32Bytes q)" "matched (writeU32 v) (writeU32 v)"
  unfolding writeU16Bytes_def writeU32Bytes_def writeU16_def writeU32_def by (auto intro!: match_rules split: if_split)

lemma list_all2_mapped: "map h xs = map h ys \<Longrightarrow> (\<And>x y. h x = h y \<Longrightarrow> P x y) \<Longrightarrow> list_all2 P xs ys"
  by (induction xs arbitrary: ys) (auto simp: Cons_eq_map_conv)

lemma hide_bundle_lists:
  assumes "hide_bundle b = hide_bundle c"
  shows "list_all2 (\<lambda>f g. wf_path f = wf_path g \<and> wf_owner f = wf_owner g \<and> wf_mode f = wf_mode g
      \<and> length (sec_bytes (wf_data f)) = length (sec_bytes (wf_data g))) (b_files b) (b_files c)"
    "list_all2 (\<lambda>f g. ev_name f = ev_name g \<and> length (sec_bytes (ev_value f)) = length (sec_bytes (ev_value g))) (b_env b) (b_env c)"
    "b_pointers b = b_pointers c" "b_manifest b = b_manifest c"
proof -
  have len: "length (sec_bytes s) = length (sec_bytes t)" if "hide_secret s = hide_secret t" for s t
    using arg_cong [OF that, of sec_bytes] by (simp add: hide_secret_def blanks_eq)
  have f: "map (\<lambda>f. f\<lparr>wf_data := hide_secret (wf_data f)\<rparr>) (b_files b) = map (\<lambda>f. f\<lparr>wf_data := hide_secret (wf_data f)\<rparr>) (b_files c)"
    using arg_cong [OF assms, of b_files] by (simp add: hide_bundle_def)
  have e: "map (\<lambda>f. f\<lparr>ev_value := hide_secret (ev_value f)\<rparr>) (b_env b) = map (\<lambda>f. f\<lparr>ev_value := hide_secret (ev_value f)\<rparr>) (b_env c)"
    using arg_cong [OF assms, of b_env] by (simp add: hide_bundle_def)
  show "list_all2 (\<lambda>f g. wf_path f = wf_path g \<and> wf_owner f = wf_owner g \<and> wf_mode f = wf_mode g
      \<and> length (sec_bytes (wf_data f)) = length (sec_bytes (wf_data g))) (b_files b) (b_files c)"
  proof (rule list_all2_mapped [OF f])
    fix f g :: wire_file
    assume h: "f\<lparr>wf_data := hide_secret (wf_data f)\<rparr> = g\<lparr>wf_data := hide_secret (wf_data g)\<rparr>"
    show "wf_path f = wf_path g \<and> wf_owner f = wf_owner g \<and> wf_mode f = wf_mode g
      \<and> length (sec_bytes (wf_data f)) = length (sec_bytes (wf_data g))"
      using arg_cong [OF h, of wf_path] arg_cong [OF h, of wf_owner] arg_cong [OF h, of wf_mode]
        len [of "wf_data f" "wf_data g"] arg_cong [OF h, of wf_data] by simp
  qed
  show "list_all2 (\<lambda>f g. ev_name f = ev_name g \<and> length (sec_bytes (ev_value f)) = length (sec_bytes (ev_value g))) (b_env b) (b_env c)"
  proof (rule list_all2_mapped [OF e])
    fix f g :: env_var
    assume h: "f\<lparr>ev_value := hide_secret (ev_value f)\<rparr> = g\<lparr>ev_value := hide_secret (ev_value g)\<rparr>"
    show "ev_name f = ev_name g \<and> length (sec_bytes (ev_value f)) = length (sec_bytes (ev_value g))"
      using arg_cong [OF h, of ev_name] len [of "ev_value f" "ev_value g"] arg_cong [OF h, of ev_value] by simp
  qed
  show "b_pointers b = b_pointers c" "b_manifest b = b_manifest c"
    using arg_cong [OF assms, of b_pointers] arg_cong [OF assms, of b_manifest] by simp_all
qed

lemma matched_same: "matched (write_pointer p) (write_pointer p)"
  unfolding write_pointer_def by (intro match_rules) simp_all

lemma matched_body:
  assumes "hide_bundle b = hide_bundle c"
  shows "matched (write_body b) (write_body c)"
proof -
  note l = hide_bundle_lists [OF assms]
  have n: "length (b_files b) = length (b_files c)" "length (b_env b) = length (b_env c)"
    using l(1,2) by (simp_all add: list_all2_lengthD)
  have "list_all2 (\<lambda>f g. matched (write_file f) (write_file g)) (b_files b) (b_files c)"
    using l(1) by (rule list_all2_mono) (auto simp: write_file_def intro!: match_rules)
  moreover have "list_all2 (\<lambda>f g. matched (write_env f) (write_env g)) (b_env b) (b_env c)"
    using l(2) by (rule list_all2_mono) (auto simp: write_env_def intro!: match_rules)
  moreover have "list_all2 (\<lambda>f g. matched (write_pointer f) (write_pointer g)) (b_pointers c) (b_pointers c)"
    by (simp add: list_all2_same matched_same)
  ultimately show ?thesis unfolding write_body_def l(3,4) n by (intro match_rules) simp_all
qed

text \<open>A reply as an observer of the socket's metadata sees it: a refusal whole, of a bundle only how long it is.\<close>

definition hide_reply :: "sink \<Rightarrow> sink" where
  "hide_reply s = (if take 2 (sk_sent s) = [ProtocolVersion, msgBundleResponse]
     then s\<lparr>sk_sent := take 2 (sk_sent s) @ blanks (drop 2 (sk_sent s))\<rparr> else s)"

lemma EncodeBundle_hidden:
  assumes "hide_bundle b = hide_bundle c" "sk_sent s = []"
  shows "fst (EncodeBundle b s) = fst (EncodeBundle c s)" "hide_reply (snd (EncodeBundle b s)) = hide_reply (snd (EncodeBundle c s))"
proof -
  obtain e s1 where h: "sink_write [ProtocolVersion, msgBundleResponse] s = (e, s1)" by (metis prod.exhaust)
  obtain f s2 f' t2 where w: "write_body b s1 = (f, s2)" "write_body c s1 = (f', t2)" by (metis prod.exhaust)
  from matched_body [OF assms(1)] refl w obtain p q where m: "f = f'" "sk_room s2 = sk_room t2" "sk_sent s2 = sk_sent s1 @ p"
    "sk_sent t2 = sk_sent s1 @ q" "length p = length q" by (rule matchedD)
  have s1: "e = None \<Longrightarrow> sk_sent s1 = [ProtocolVersion, msgBundleResponse]"
    using h assms(2) by (auto simp: sink_write_def split: option.splits if_splits)
  show "fst (EncodeBundle b s) = fst (EncodeBundle c s)" using m(1) by (simp add: EncodeBundle_body thenW_def h w split: option.split)
  show "hide_reply (snd (EncodeBundle b s)) = hide_reply (snd (EncodeBundle c s))"
    using m s1 by (cases e) (auto simp: EncodeBundle_body thenW_def h w hide_reply_def blanks_eq)
qed

section \<open>Files without their contents\<close>

definition hide_fs :: "fs \<Rightarrow> fs" where
  "hide_fs w = w\<lparr>fs_files := \<lambda>p. map_option (\<lambda>nd. nd\<lparr>fn_data := []\<rparr>) (fs_files w p)\<rparr>"

abbreviation hidden_run :: "'r \<times> fs \<Rightarrow> 'r \<times> fs" where
  "hidden_run \<equiv> map_prod id hide_fs"

lemma hide_fs_parts [simp]:
  "fs_tmpfs (hide_fs w) = fs_tmpfs w" "fs_faults (hide_fs w) = fs_faults w" "fs_rand (hide_fs w) = fs_rand w"
  "fs_uid (hide_fs w) = fs_uid w" "fs_gid (hide_fs w) = fs_gid w" "fs_stuck (hide_fs w) = fs_stuck w"
  "fs_files (hide_fs w) p = map_option (\<lambda>nd. nd\<lparr>fn_data := []\<rparr>) (fs_files w p)"
  by (simp_all add: hide_fs_def)

text \<open>No call looks at contents: each commutes with hiding them.\<close>

named_theorems fs_hidden

lemma next_fault_hidden [fs_hidden]: "next_fault (hide_fs w) = hidden_run (next_fault w)"
  by (simp add: next_fault_def hide_fs_def split: list.split)

lemma sys_hidden [fs_hidden]: "sys (hide_fs w) = hidden_run (sys w)"
  by (simp add: sys_def fs_hidden split: prod.split)

lemma files_eq: "(\<And>q. f q = g q) \<Longrightarrow> w\<lparr>fs_files := f\<rparr> = w\<lparr>fs_files := g\<rparr>"
  by (rule arg_cong [of f g "\<lambda>f. w\<lparr>fs_files := f\<rparr>"]) (rule ext)

lemma update_node_eq:
  assumes "\<And>nd. (f nd)\<lparr>fn_data := []\<rparr> = g (nd\<lparr>fn_data := []\<rparr>)"
  shows "hide_fs (update_node p f w) = update_node p g (hide_fs w)"
  unfolding update_node_def hide_fs_def
  using assms by (auto intro!: files_eq simp: option.map_comp o_def)

lemma update_node_hidden [fs_hidden]:
  "update_node p (\<lambda>nd. nd\<lparr>fn_mode := m\<rparr>) (hide_fs w) = hide_fs (update_node p (\<lambda>nd. nd\<lparr>fn_mode := m\<rparr>) w)"
  "update_node p (chown_node u g) (hide_fs w) = hide_fs (update_node p (chown_node u g) w)"
  by (rule update_node_eq [symmetric], simp add: chown_node_def)+

lemma write_hidden: "file_write p [] (hide_fs w) = map_prod (map_prod (\<lambda>_. 0) id) hide_fs (file_write p d w)"
proof -
  obtain f w' where f: "next_fault w = (f, w')" by (metis prod.exhaust)
  have "hide_fs (update_node p (\<lambda>nd. nd\<lparr>fn_data := fn_data nd @ e\<rparr>) w') = update_node p (\<lambda>nd. nd\<lparr>fn_data := fn_data nd @ []\<rparr>) (hide_fs w')"
    for e
    by (simp add: update_node_def hide_fs_def) (auto intro!: files_eq simp: option.map_comp o_def)
  then show ?thesis by (simp add: file_write_def Let_def fs_hidden f split: option.split)
qed

lemma remove_hidden [fs_hidden]: "file_remove p (hide_fs w) = hide_fs (file_remove p w)"
  by (auto simp: file_remove_def Let_def fs_hidden split: prod.split) (auto simp: hide_fs_def intro!: files_eq)

lemma rename_hidden [fs_hidden]: "file_rename a b (hide_fs w) = hidden_run (file_rename a b w)"
  by (auto simp: file_rename_def Let_def fs_hidden split: prod.split) (auto simp: hide_fs_def intro!: files_eq)

lemma create_hidden [fs_hidden]: "create_temp dir (hide_fs w) = hidden_run (create_temp dir w)"
proof -
  obtain f w' where f: "next_fault w = (f, w')" by (metis prod.exhaust)
  obtain rs where rs: "dropWhile (\<lambda>r. fs_files w' (temp_name dir r) \<noteq> None) (fs_rand w') = rs" by blast
  then have rs': "dropWhile (\<lambda>r. fs_files (hide_fs w') (temp_name dir r) \<noteq> None) (fs_rand (hide_fs w')) = rs" by simp
  show ?thesis
  proof (cases "f = None \<and> rs \<noteq> []")
    case True
    then obtain x xs where x: "rs = x # xs" by (cases rs) auto
    show ?thesis
      using True unfolding create_temp_def fs_hidden f map_prod_simp Let_def prod.case id_apply rs rs' x list.case
      by (auto simp: hide_fs_def intro!: files_eq)
  next
    case False
    then show ?thesis
      unfolding create_temp_def fs_hidden f map_prod_simp Let_def prod.case id_apply rs rs' by (auto simp: hide_fs_def)
  qed
qed

lemma tmpfs_hidden [fs_hidden]: "checkTmpfs dir (hide_fs w) = hidden_run (checkTmpfs dir w)"
  by (simp add: checkTmpfs_def fs_hidden split: prod.split) (metis (no_types, lifting) hide_fs_parts(1) sys_hidden)

lemma cleanup_hidden [fs_hidden]: "cleanup tmp (hide_fs w) = hide_fs (cleanup tmp w)"
  by (simp add: cleanup_def fs_hidden)

lemma fill_temp_hidden:
  "fill_temp tmp path uid gid mode \<lparr>pr_bytes = [], pr_ok = pr_ok pr\<rparr> (hide_fs w)
     = map_prod (map_prod (\<lambda>_. 0) id) hide_fs (fill_temp tmp path uid gid mode pr w)"
proof -
  let ?chmod = "update_node tmp (\<lambda>nd. nd\<lparr>fn_mode := mode\<rparr>)" and ?chown = "update_node tmp (chown_node uid gid)"
  obtain n ok1 w1 where 1: "file_write tmp (pr_bytes pr) w = ((n, ok1), w1)" by (metis prod.exhaust)
  obtain ok2 w2 where 2: "sys w1 = (ok2, w2)" by (metis prod.exhaust)
  obtain ok3 w3 where 3: "sys (?chmod w2) = (ok3, w3)" by (metis prod.exhaust)
  obtain ok4 w4 where 4: "sys (?chown w3) = (ok4, w4)" by (metis prod.exhaust)
  obtain ok5 w5 where 5: "sys w4 = (ok5, w5)" by (metis prod.exhaust)
  obtain ok6 w6 where 6: "file_rename tmp (path_clean path) w5 = (ok6, w6)" by (metis prod.exhaust)
  show ?thesis by (simp add: fill_temp_def Let_def fs_hidden write_hidden [of tmp w "pr_bytes pr"] 1 2 3 4 5 6)
qed

lemma WriteTmpfs_hidden:
  "WriteTmpfsFile path owner mode req \<lparr>pr_bytes = [], pr_ok = pr_ok pr\<rparr> (hide_fs w)
     = map_prod (map_prod (\<lambda>_. 0) id) hide_fs (WriteTmpfsFile path owner mode req pr w)"
proof -
  obtain ok1 w1 where 1: "sys w = (ok1, w1)" by (metis prod.exhaust)
  obtain e w2 where 2: "checkTmpfs (path_dir path) w1 = (e, w2)" by (metis prod.exhaust)
  obtain t w3 where 3: "create_temp (path_dir path) w2 = (t, w3)" by (metis prod.exhaust)
  obtain t' w4 where 4: "create_temp (path_dir path) w1 = (t', w4)" by (metis prod.exhaust)
  show ?thesis
    by (cases req) (simp_all add: WriteTmpfsFile_def Let_def fs_hidden 1 2 3 4 fill_temp_hidden split: sum.split option.split)
qed

lemma write_secret_hidden:
  assumes "hide_fs w = hide_fs w'" "pr_ok pr = pr_ok pr'"
  shows "hidden_run (write_secret path owner mode req pr w) = hidden_run (write_secret path owner mode req pr' w')"
  using WriteTmpfs_hidden [of path owner mode req pr w] WriteTmpfs_hidden [of path owner mode req pr' w'] assms
  by (cases "WriteTmpfsFile path owner mode req pr w"; cases "WriteTmpfsFile path owner mode req pr' w'") (auto simp: write_secret_def)

lemma manifest_hidden: "hide_fs w = hide_fs w' \<Longrightarrow> hidden_run (WriteManifest p d req w) = hidden_run (WriteManifest p d req w')"
  using write_secret_hidden [of w w' "\<lparr>pr_bytes = d, pr_ok = True\<rparr>" "\<lparr>pr_bytes = d, pr_ok = True\<rparr>"]
  by (simp add: WriteManifest_def WriteBytesFile_def write_secret_def)

lemma ledger_hidden: "hide_fs w = hide_fs w' \<Longrightarrow> hidden_run (ledger_save json lg w) = hidden_run (ledger_save json lg w')"
proof -
  have rand: "hide_fs (w\<lparr>fs_rand := r\<rparr>) = (hide_fs w)\<lparr>fs_rand := r\<rparr>" for w r by (simp add: hide_fs_def)
  have temp: "create_ledger_temp dir (hide_fs w) = hidden_run (create_ledger_temp dir w)" for dir w
    by (simp add: create_ledger_temp_def fs_hidden rand [symmetric] split: prod.split)
  have "ledger_save (\<lambda>_. []) lg (hide_fs w) = hidden_run (ledger_save json lg w)" for w
  proof -
    let ?d = "json \<lparr>lf_version = ledgerVersion, lf_containers = lg_records lg\<rparr>"
    obtain ok1 w1 where 1: "sys w = (ok1, w1)" by (metis prod.exhaust)
    obtain t w2 where 2: "create_ledger_temp (path_dir (lg_path lg)) w1 = (t, w2)" by (metis prod.exhaust)
    obtain n ok3 w3 where 3: "file_write (the t) ?d w2 = ((n, ok3), w3)" by (metis prod.exhaust)
    obtain ok4 w4 where 4: "sys w3 = (ok4, w4)" by (metis prod.exhaust)
    obtain ok5 w5 where 5: "file_rename (the t) (path_clean (lg_path lg)) w4 = (ok5, w5)" by (metis prod.exhaust)
    show ?thesis
      using 3 5 write_hidden [of "the t" w2 ?d] by (cases t) (simp_all add: ledger_save_def Let_def fs_hidden temp 1 2 4)
  qed
  then show "hide_fs w = hide_fs w' \<Longrightarrow> hidden_run (ledger_save json lg w) = hidden_run (ledger_save json lg w')" by metis
qed

section \<open>Volumes\<close>

definition hide_world :: "world \<Rightarrow> world" where
  "hide_world w = w\<lparr>wd_fs := hide_fs (wd_fs w)\<rparr>"

lemma hide_world_eq: "hide_world v = hide_world w \<longleftrightarrow> hide_fs (wd_fs v) = hide_fs (wd_fs w) \<and> wd_mem v = wd_mem w"
proof -
  have v: "hide_world w = \<lparr>wd_fs = hide_fs (wd_fs w), wd_mem = wd_mem w\<rparr>" for w by (cases w) (simp add: hide_world_def)
  show ?thesis by (simp add: v)
qed

lemma secret_same:
  assumes "hide_fs v = hide_fs w" "pr_ok pr = pr_ok pr'"
  obtains e v' w' where "write_secret path owner mode req pr v = (e, v')" "write_secret path owner mode req pr' w = (e, w')"
    "hide_fs v' = hide_fs w'"
  using write_secret_hidden [OF assms, of path owner mode req]
  by (cases "write_secret path owner mode req pr v"; cases "write_secret path owner mode req pr' w") simp

lemma WriteFile_hidden:
  assumes "hide_world v = hide_world w"
  shows "map_prod id hide_world (WriteFile (blank_ops ops) ft req v) = map_prod id hide_world (WriteFile ops ft req w)"
proof (cases "so_open ops (ft_source ft)")
  case (Inr op)
  have mem: "wd_mem v = wd_mem w" and fs: "hide_fs (wd_fs v) = hide_fs (wd_fs w)" using assms by (simp_all add: hide_world_eq)
  obtain out lm1 where o: "(if ft_whole ft then (so_write_payload ops op, wd_mem w) else so_write_value ops op (ft_key ft) (wd_mem w)) = (out, lm1)"
    by (metis prod.exhaust)
  then have o': "(if ft_whole ft then (so_write_payload (blank_ops ops) op, wd_mem v)
      else so_write_value (blank_ops ops) op (ft_key ft) (wd_mem v)) = (map_prod blanks id out, lm1)"
    by (auto simp: mem split: if_splits)
  obtain e v' w' where s: "write_secret (ft_path ft) (ft_owner ft) (ft_mode ft) req (to_produce (map_prod blanks id out)) (wd_fs v) = (e, v')"
      "write_secret (ft_path ft) (ft_owner ft) (ft_mode ft) req (to_produce out) (wd_fs w) = (e, w')" "hide_fs v' = hide_fs w'"
    by (rule secret_same [OF fs, of "to_produce (map_prod blanks id out)" "to_produce out"]) (simp_all add: to_produce_def)
  have "WriteFile (blank_ops ops) ft req v = (map_option (WFile (ft_name ft)) e, \<lparr>wd_fs = v', wd_mem = snd (so_close ops op lm1)\<rparr>)"
    unfolding WriteFile_def blank_ops_simps(1,3) Inr sum.case o' Let_def prod.case s(1) ..
  moreover have "WriteFile ops ft req w = (map_option (WFile (ft_name ft)) e, \<lparr>wd_fs = w', wd_mem = snd (so_close ops op lm1)\<rparr>)"
    unfolding WriteFile_def Inr sum.case o Let_def prod.case s(2) ..
  ultimately show ?thesis using s(3) by (simp add: hide_world_eq)
qed (simp add: WriteFile_def assms)

lemma produce_hidden:
  "\<exists>p q e lm'. produce_dotenv (blank_ops ops) op ks lm = ((p, e), lm') \<and> produce_dotenv ops op ks lm = ((q, e), lm')"
proof (induction ks arbitrary: lm)
  case (Cons k ks)
  obtain x e lm1 where v: "so_write_value ops op k lm = ((x, e), lm1)" by (metis prod.exhaust)
  from Cons [of lm1] show ?case by (auto simp: v)
qed simp

lemma envdir_hidden:
  assumes "hide_fs v = hide_fs w"
  shows "\<exists>e v' w' lm'. write_envdir (blank_ops ops) op rt req ks v lm = (e, v', lm') \<and> write_envdir ops op rt req ks w lm = (e, w', lm')
    \<and> hide_fs v' = hide_fs w'"
  using assms
proof (induction ks arbitrary: v w lm)
  case (Cons k ks)
  obtain x lm1 where x: "so_write_value ops op k lm = (x, lm1)" by (metis prod.exhaust)
  obtain e v' w' where s: "write_secret (path_join (rt_path rt) k) (rt_owner rt) (rt_mode rt) req (to_produce (map_prod blanks id x)) v = (e, v')"
      "write_secret (path_join (rt_path rt) k) (rt_owner rt) (rt_mode rt) req (to_produce x) w = (e, w')" "hide_fs v' = hide_fs w'"
    by (rule secret_same [OF Cons.prems, of "to_produce (map_prod blanks id x)" "to_produce x"]) (simp_all add: to_produce_def)
  from Cons.IH [OF s(3), of lm1] s(3) show ?case by (cases e) (simp_all add: x s(1,2))
qed simp

lemma WriteRender_hidden:
  assumes "hide_world v = hide_world w"
  shows "map_prod id hide_world (WriteRender (blank_ops ops) rt req v) = map_prod id hide_world (WriteRender ops rt req w)"
proof (cases "so_open ops (rt_source rt)")
  case (Inr op)
  have mem: "wd_mem v = wd_mem w" and fs: "hide_fs (wd_fs v) = hide_fs (wd_fs w)" using assms by (simp_all add: hide_world_eq)
  obtain ks lm1 where ks: "so_keys ops op (wd_mem w) = (ks, lm1)" by (metis prod.exhaust)
  show ?thesis
  proof (cases ks)
    case k: (Inr keys)
    obtain p q e lm' where d: "produce_dotenv (blank_ops ops) op keys lm1 = ((p, e), lm')" "produce_dotenv ops op keys lm1 = ((q, e), lm')"
      using produce_hidden [of ops op keys lm1] by blast
    obtain x v' w' where s: "write_secret (rt_path rt) (rt_owner rt) (rt_mode rt) req (to_produce (p, e)) (wd_fs v) = (x, v')"
        "write_secret (rt_path rt) (rt_owner rt) (rt_mode rt) req (to_produce (q, e)) (wd_fs w) = (x, w')" "hide_fs v' = hide_fs w'"
      by (rule secret_same [OF fs, of "to_produce (p, e)" "to_produce (q, e)"]) (simp_all add: to_produce_def)
    obtain y v'' w'' lm'' where r: "write_envdir (blank_ops ops) op rt req keys (wd_fs v) lm1 = (y, v'', lm'')"
        "write_envdir ops op rt req keys (wd_fs w) lm1 = (y, w'', lm'')" "hide_fs v'' = hide_fs w''"
      using envdir_hidden [OF fs, of ops op rt req keys lm1] by blast
    show ?thesis by (simp add: WriteRender_def Inr mem ks k d s r hide_world_eq fs)
  qed (simp add: WriteRender_def Inr mem ks hide_world_eq fs)
qed (simp add: WriteRender_def assms)

lemma hidden_stepE:
  assumes "map_prod id hide_world x = map_prod id hide_world y"
  obtains e v w where "x = (e, v)" "y = (e, w)" "hide_world v = hide_world w"
  using assms by (cases x; cases y) simp

lemma volume_files_hidden:
  "hide_world v = hide_world w \<Longrightarrow>
     map_prod id hide_world (volume_files (blank_ops ops) mount req fts v) = map_prod id hide_world (volume_files ops mount req fts w)"
proof (induction fts arbitrary: v w)
  case (Cons ft fts)
  show ?case
  proof (cases "rebaseIntoVolume (ft_path ft) mount")
    case (Some dst)
    obtain e v' w' where s: "WriteFile (blank_ops ops) (ft\<lparr>ft_path := dst\<rparr>) req v = (e, v')" "WriteFile ops (ft\<lparr>ft_path := dst\<rparr>) req w = (e, w')"
      "hide_world v' = hide_world w'" by (rule hidden_stepE [OF WriteFile_hidden [OF Cons.prems]])
    from Cons.IH [OF s(3)] s(3) show ?thesis by (cases e) (simp_all add: Some s(1,2))
  qed (simp add: Cons.prems)
qed simp

lemma volume_renders_hidden:
  "hide_world v = hide_world w \<Longrightarrow>
     map_prod id hide_world (volume_renders (blank_ops ops) mount req rts v) = map_prod id hide_world (volume_renders ops mount req rts w)"
proof (induction rts arbitrary: v w)
  case (Cons rt rts)
  show ?case
  proof (cases "rebaseIntoVolume (rt_path rt) mount")
    case (Some dst)
    obtain e v' w' where s: "WriteRender (blank_ops ops) (rt\<lparr>rt_path := dst\<rparr>) req v = (e, v')" "WriteRender ops (rt\<lparr>rt_path := dst\<rparr>) req w = (e, w')"
      "hide_world v' = hide_world w'" by (rule hidden_stepE [OF WriteRender_hidden [OF Cons.prems]])
    from Cons.IH [OF s(3)] s(3) show ?thesis by (cases e) (simp_all add: Some s(1,2))
  qed (simp add: Cons.prems)
qed simp

lemma volume_manifest_hidden:
  assumes "hide_world v = hide_world w"
  shows "map_prod id hide_world (volume_manifest (blank_ops ops) env plan mount req v) = map_prod id hide_world (volume_manifest ops env plan mount req w)"
proof -
  have fs: "hide_fs (wd_fs v) = hide_fs (wd_fs w)" using assms by (simp add: hide_world_eq)
  have m: "\<exists>e v' w'. WriteManifest dst d req (wd_fs v) = (e, v') \<and> WriteManifest dst d req (wd_fs w) = (e, w') \<and> hide_fs v' = hide_fs w'" for dst d
    using manifest_hidden [OF fs, of dst d req]
    by (cases "WriteManifest dst d req (wd_fs v)"; cases "WriteManifest dst d req (wd_fs w)") simp
  show ?thesis
  proof (cases "BuildManifest ops plan (bd_now env)")
    case (Inr x)
    show ?thesis
    proof (cases "rebaseIntoVolume DefaultManifestPath mount")
      case (Some dst)
      from m [of dst "bd_marshal env x"] obtain e v' w' where "WriteManifest dst (bd_marshal env x) req (wd_fs v) = (e, v')"
        "WriteManifest dst (bd_marshal env x) req (wd_fs w) = (e, w')" "hide_fs v' = hide_fs w'" by blast
      then show ?thesis using assms by (simp add: volume_manifest_def BuildManifest_blank Inr Some hide_world_eq)
    qed (simp add: volume_manifest_def BuildManifest_blank Inr assms)
  qed (simp add: volume_manifest_def BuildManifest_blank assms)
qed

lemma ApplyVolume_hidden:
  assumes "hide_world v = hide_world w"
  shows "map_prod id hide_world (ApplyVolume (blank_ops ops) env plan mount v) = map_prod id hide_world (ApplyVolume ops env plan mount w)"
proof -
  obtain e v1 w1 where f: "volume_files (blank_ops ops) mount True (dp_files plan) v = (e, v1)"
    "volume_files ops mount True (dp_files plan) w = (e, w1)" "hide_world v1 = hide_world w1"
    by (rule hidden_stepE [OF volume_files_hidden [OF assms]])
  obtain e' v2 w2 where r: "volume_renders (blank_ops ops) mount True (dp_renders plan) v1 = (e', v2)"
    "volume_renders ops mount True (dp_renders plan) w1 = (e', w2)" "hide_world v2 = hide_world w2"
    by (rule hidden_stepE [OF volume_renders_hidden [OF f(3)]])
  show ?thesis
    using f(3) r(3) assms by (simp add: ApplyVolume_def applyVolume_def f(1,2) r(1,2) volume_manifest_hidden [OF r(3)] split: option.split)
qed

section \<open>The daemon's handlers\<close>

definition hide_daemon :: "daemon \<Rightarrow> daemon" where
  "hide_daemon dm = dm\<lparr>dm_world := hide_world (dm_world dm)\<rparr>"

lemma hide_daemon_eq:
  "hide_daemon d = hide_daemon e \<longleftrightarrow> hide_world (dm_world d) = hide_world (dm_world e) \<and> dm_ledger d = dm_ledger e
     \<and> dm_sticky d = dm_sticky e \<and> dm_tracker d = dm_tracker e \<and> dm_alerts d = dm_alerts e"
proof -
  have "hide_daemon d = \<lparr>dm_world = hide_world (dm_world d), dm_ledger = dm_ledger d, dm_sticky = dm_sticky d, dm_tracker = dm_tracker d,
      dm_alerts = dm_alerts d\<rparr>" for d by (cases d) (simp add: hide_daemon_def)
  then show ?thesis by simp
qed

text \<open>The environment of a handler, with a source that prints blanks.\<close>

definition blank_env :: "'h denv \<Rightarrow> 'h denv" where
  "blank_env env = env\<lparr>de_ops := blank_ops (de_ops env)\<rparr>"

lemma blank_env_fields [simp]:
  "de_cfg (blank_env env) = de_cfg env" "de_ops (blank_env env) = blank_ops (de_ops env)" "de_def (blank_env env) = de_def env"
  "de_vol_root (blank_env env) = de_vol_root env" "de_inspect (blank_env env) = de_inspect env" "de_list (blank_env env) = de_list env"
  "de_is_dir (blank_env env) = de_is_dir env" "de_sink (blank_env env) = de_sink env" "de_now (blank_env env) = de_now env"
  "de_later (blank_env env) = de_later env" "de_rfc3339 (blank_env env) = de_rfc3339 env" "de_marshal (blank_env env) = de_marshal env"
  "de_parse (blank_env env) = de_parse env" "de_flush_fails (blank_env env) = de_flush_fails env" "de_json (blank_env env) = de_json env"
  "de_render (blank_env env) = de_render env"
  by (simp_all add: blank_env_def)

lemma blank_env_parts [simp]:
  "build_env_of (blank_env env) = build_env_of env" "daemon_input (blank_env env) = daemon_input env"
  "alertValidation (blank_env env) = alertValidation env" "recordInjection (blank_env env) = recordInjection env"
  "recordFromBundleManifest (blank_env env) = recordFromBundleManifest env" "stat_dir (blank_env env) = stat_dir env"
proof -
  show r: "recordInjection (blank_env env) = recordInjection env" by (intro ext) (simp only: recordInjection_def blank_env_fields)
  show "recordFromBundleManifest (blank_env env) = recordFromBundleManifest env"
    by (intro ext) (simp only: recordFromBundleManifest_def blank_env_fields r)
  show "build_env_of (blank_env env) = build_env_of env" by (simp only: build_env_of_def blank_env_fields)
  show "daemon_input (blank_env env) = daemon_input env" by (intro ext) (simp only: daemon_input_def blank_env_fields)
  show "alertValidation (blank_env env) = alertValidation env" by (intro ext) (simp only: alertValidation_def blank_env_fields)
  show "stat_dir (blank_env env) = stat_dir env" by (intro ext) (simp only: stat_dir_def blank_env_fields)
qed

lemma alert_hidden:
  assumes "hide_daemon d = hide_daemon e"
  obtains r d' e' where "alertValidation env cid svc err d = (r, d')" "alertValidation env cid svc err e = (r, e')" "hide_daemon d' = hide_daemon e'"
proof -
  have "fst (alertValidation env cid svc err d) = fst (alertValidation env cid svc err e)"
    by (simp add: alertValidation_def Let_def split: option.split)
  moreover have "hide_daemon (snd (alertValidation env cid svc err d)) = hide_daemon (snd (alertValidation env cid svc err e))"
    using assms by (simp add: hide_daemon_eq alertValidation_def add_alert_def Let_def split: option.split)
  ultimately show thesis using that by (metis prod.collapse)
qed

lemma ledger_same:
  assumes "hide_world v = hide_world w"
  obtains x v' w' where "ledger_save json lg (wd_fs v) = (x, v')" "ledger_save json lg (wd_fs w) = (x, w')" "hide_fs v' = hide_fs w'"
  using ledger_hidden [of "wd_fs v" "wd_fs w" json lg] assms
  by (cases "ledger_save json lg (wd_fs v)"; cases "ledger_save json lg (wd_fs w)") (simp add: hide_world_eq)

lemma recordInjection_hidden:
  assumes "hide_daemon d = hide_daemon e"
  shows "hide_daemon (recordInjection env m d) = hide_daemon (recordInjection env m e)"
proof -
  let ?lg = "(dm_ledger e)\<lparr>lg_records := AList.update (mn_container m) (record_of m (de_later env)) (lg_records (dm_ledger e))\<rparr>"
  have h: "hide_world (dm_world d) = hide_world (dm_world e)" "dm_ledger d = dm_ledger e" using assms by (simp_all add: hide_daemon_eq)
  obtain x v' w' where l: "ledger_save (de_json env) ?lg (wd_fs (dm_world d)) = (x, v')" "ledger_save (de_json env) ?lg (wd_fs (dm_world e)) = (x, w')"
    "hide_fs v' = hide_fs w'" by (rule ledger_same [OF h(1)])
  have r: "RecordManifest (de_json env) (dm_ledger e) (Some m) (de_later env) (wd_fs (dm_world d))
      = (if mn_container m = [] then (Some LedgerNoContainer, dm_ledger e, wd_fs (dm_world d)) else (x, ?lg, v'))"
    "RecordManifest (de_json env) (dm_ledger e) (Some m) (de_later env) (wd_fs (dm_world e))
      = (if mn_container m = [] then (Some LedgerNoContainer, dm_ledger e, wd_fs (dm_world e)) else (x, ?lg, w'))"
    by (simp_all add: RecordManifest_def Let_def l)
  show ?thesis
    unfolding recordInjection_def h(2) r using assms [unfolded hide_daemon_eq hide_world_eq] l(3)
    by (cases "mn_container m = []") (simp_all add: hide_daemon_eq hide_world_eq)
qed

lemma recordFromBundle_hidden:
  assumes "hide_bundle b = hide_bundle c" "hide_daemon d = hide_daemon e"
  shows "hide_daemon (recordFromBundleManifest env b d) = hide_daemon (recordFromBundleManifest env c e)"
proof -
  have m: "b_manifest b = b_manifest c" using hide_bundleD [OF assms(1)] ..
  show ?thesis
    unfolding recordFromBundleManifest_def m
    using assms(2) recordInjection_hidden [OF assms(2)] by (cases "ParseManifest (de_parse env) (b_manifest c)") simp_all
qed

lemma set_mem_hidden: "hide_daemon d = hide_daemon e \<Longrightarrow> hide_daemon (set_mem lm d) = hide_daemon (set_mem lm e)"
  by (simp add: hide_daemon_eq hide_world_eq set_mem_def)

lemma set_fs_hidden: "hide_daemon d = hide_daemon e \<Longrightarrow> hide_fs v = hide_fs w \<Longrightarrow> hide_daemon (set_fs v d) = hide_daemon (set_fs w e)"
  by (simp add: hide_daemon_eq hide_world_eq set_fs_def)

lemma tracker_hidden:
  "hide_daemon d = hide_daemon e \<Longrightarrow> hide_daemon (d\<lparr>dm_tracker := t\<rparr>) = hide_daemon (e\<lparr>dm_tracker := t\<rparr>)"
  by (simp add: hide_daemon_eq)

definition hide_served :: "sink \<times> daemon \<Rightarrow> sink \<times> daemon" where
  "hide_served r = map_prod hide_reply hide_daemon r"

lemma send_bundle_hidden:
  assumes "hide_bundle b = hide_bundle c" "hide_daemon d = hide_daemon e" "sk_sent s = []"
  shows "hide_served (send_bundle (blank_env env) b s d) = hide_served (send_bundle env c s e)"
proof -
  obtain x t y u where w: "EncodeBundle b s = (x, t)" "EncodeBundle c s = (y, u)" by (metis prod.exhaust)
  with EncodeBundle_hidden [OF assms(1,3)] have r: "x = y" "hide_reply t = hide_reply u" by simp_all
  let ?d = "if y = None then recordFromBundleManifest env b d else d" and ?e = "if y = None then recordFromBundleManifest env c e else e"
  have h: "hide_daemon ?d = hide_daemon ?e" using recordFromBundle_hidden [OF assms(1,2), of env] assms(2) by simp
  then have "wd_mem (dm_world ?d) = wd_mem (dm_world ?e)" by (simp only: hide_daemon_eq hide_world_eq)
  moreover have "snd (Destroy b lm) = snd (Destroy c lm)" for lm using hide_bundleD [OF assms(1)] by (simp add: Destroy_def)
  ultimately show ?thesis
    using set_mem_hidden [OF h] r by (simp only: send_bundle_def w prod.case Let_def blank_env_parts hide_served_def map_prod_simp)
qed

lemma built_hiddenE:
  assumes "wd_mem (dm_world d) = wd_mem (dm_world e)"
  obtains (failed) x lm where "BuildBundle (blank_ops ops) benv caller dp (wd_mem (dm_world d)) = (Inl x, lm)"
      "BuildBundle ops benv caller dp (wd_mem (dm_world e)) = (Inl x, lm)"
  | (built) b c lm where "BuildBundle (blank_ops ops) benv caller dp (wd_mem (dm_world d)) = (Inr b, lm)"
      "BuildBundle ops benv caller dp (wd_mem (dm_world e)) = (Inr c, lm)" "hide_bundle b = hide_bundle c"
proof -
  obtain r lm r' lm' where b: "BuildBundle (blank_ops ops) benv caller dp (wd_mem (dm_world d)) = (r, lm)"
    "BuildBundle ops benv caller dp (wd_mem (dm_world e)) = (r', lm')" by (metis prod.exhaust)
  with BuildBundle_hidden [of ops benv caller dp "wd_mem (dm_world e)"] assms
  have "lm = lm'" "map_sum id hide_bundle r = map_sum id hide_bundle r'" by simp_all
  with b failed built show thesis by (cases r; cases r') auto
qed

lemma daemon_memD: "hide_daemon d = hide_daemon e \<Longrightarrow> wd_mem (dm_world d) = wd_mem (dm_world e)"
  by (simp add: hide_daemon_eq hide_world_eq)

lemma handleFetch_hidden:
  assumes "hide_daemon d = hide_daemon e" "sk_sent s = []"
  shows "hide_served (handleFetch (blank_env env) auth s d) = hide_served (handleFetch env auth s e)"
proof (cases auth)
  case (Inr i)
  let ?d = "d\<lparr>dm_tracker := arrived (id_container i) (dm_tracker d)\<rparr>" and ?e = "e\<lparr>dm_tracker := arrived (id_container i) (dm_tracker e)\<rparr>"
  have "dm_tracker d = dm_tracker e" using assms(1) by (simp add: hide_daemon_eq)
  then have h: "hide_daemon ?d = hide_daemon ?e" using tracker_hidden [OF assms(1)] by simp
  show ?thesis
  proof (cases "Resolve (daemon_input env (id_labels i) (id_container i) (id_service i))")
    case (Inl le)
    obtain r d' e' where "alertValidation env (id_container i) (id_service i) (Some le) ?d = (r, d')"
      "alertValidation env (id_container i) (id_service i) (Some le) ?e = (r, e')" "hide_daemon d' = hide_daemon e'"
      by (rule alert_hidden [OF h])
    then show ?thesis by (simp add: handleFetch_def Inr Inl hide_served_def)
  next
    case r: (Inr po)
    show ?thesis
    proof (cases po)
      case None
      then show ?thesis using h by (simp add: handleFetch_def Inr r hide_served_def)
    next
      case (Some p)
      from daemon_memD [OF h] show ?thesis
      proof (cases rule: built_hiddenE [of ?d ?e "de_ops env" "build_env_of env" "id_service i" "ToDelivery p"])
        case (failed x lm)
        obtain r' d' e' where "alertValidation env (id_container i) (id_service i) None (set_mem lm ?d) = (r', d')"
          "alertValidation env (id_container i) (id_service i) None (set_mem lm ?e) = (r', e')" "hide_daemon d' = hide_daemon e'"
          by (rule alert_hidden [OF set_mem_hidden [OF h]])
        then show ?thesis using failed by (simp add: handleFetch_def Inr r Some hide_served_def Let_def)
      next
        case (built b c lm)
        then show ?thesis
          using send_bundle_hidden [OF built(3) set_mem_hidden [OF h] assms(2)] by (simp add: handleFetch_def Inr r Some Let_def)
      qed
    qed
  qed
qed (simp add: handleFetch_def hide_served_def assms)

lemma hook_hiddenE:
  assumes "wd_mem (dm_world d) = wd_mem (dm_world e)"
  obtains (failed) x lm where "hook_Handle (blank_env env) cid ann (wd_mem (dm_world d)) = (Inl x, lm)"
      "hook_Handle env cid ann (wd_mem (dm_world e)) = (Inl x, lm)"
  | (built) b c lm where "hook_Handle (blank_env env) cid ann (wd_mem (dm_world d)) = (Inr b, lm)"
      "hook_Handle env cid ann (wd_mem (dm_world e)) = (Inr c, lm)" "hide_bundle b = hide_bundle c"
proof -
  let ?lm = "wd_mem (dm_world e)"
  have "map_prod (map_sum id hide_bundle) id (hook_Handle (blank_env env) cid ann ?lm) = map_prod (map_sum id hide_bundle) id (hook_Handle env cid ann ?lm)"
  proof -
    have b: "map_prod (map_sum id hide_bundle) id (case BuildBundle (blank_ops (de_ops env)) benv caller dp ?lm of
          (Inl e, lm') \<Rightarrow> (Inl (HookBuild e), lm') | (Inr b, lm') \<Rightarrow> (Inr b, lm'))
        = map_prod (map_sum id hide_bundle) id (case BuildBundle (de_ops env) benv caller dp ?lm of
          (Inl e, lm') \<Rightarrow> (Inl (HookBuild e), lm') | (Inr b, lm') \<Rightarrow> (Inr b, lm'))" for benv caller dp
      using BuildBundle_hidden [of "de_ops env" benv caller dp ?lm]
      by (cases "BuildBundle (blank_ops (de_ops env)) benv caller dp ?lm"; cases "BuildBundle (de_ops env) benv caller dp ?lm")
        (auto simp: map_sum_def split: sum.splits)
    show ?thesis by (simp add: hook_Handle_def Let_def b split: sum.split option.split)
  qed
  moreover obtain r lm r' lm' where "hook_Handle (blank_env env) cid ann ?lm = (r, lm)" "hook_Handle env cid ann ?lm = (r', lm')"
    by (metis prod.exhaust)
  ultimately show thesis using failed built assms by (cases r; cases r') auto
qed

lemma handleHook_hidden:
  assumes "hide_daemon d = hide_daemon e" "sk_sent s = []"
  shows "hide_served (handleHook (blank_env env) inp s d) = hide_served (handleHook env inp s e)"
proof (cases "ReadHookBody inp")
  case (Inr x)
  obtain cid ann rest where x: "x = ((cid, ann), rest)" by (metis prod.exhaust)
  from daemon_memD [OF assms(1)] show ?thesis
  proof (cases rule: hook_hiddenE [of d e env cid ann])
    case (failed er lm)
    obtain r d' e' where "alertValidation env cid [] (hook_classified er) (set_mem lm d) = (r, d')"
      "alertValidation env cid [] (hook_classified er) (set_mem lm e) = (r, e')" "hide_daemon d' = hide_daemon e'"
      by (rule alert_hidden [OF set_mem_hidden [OF assms(1)]])
    then show ?thesis using failed set_mem_hidden [OF assms(1)] by (simp add: handleHook_def Inr x Let_def hide_served_def)
  next
    case (built b c lm)
    then show ?thesis
      using send_bundle_hidden [OF built(3) set_mem_hidden [OF assms(1)] assms(2)] by (simp add: handleHook_def Inr x)
  qed
qed (simp add: handleHook_def hide_served_def assms)

lemma server_hidden:
  assumes "hide_daemon d = hide_daemon e" "sk_sent s = []"
  shows "hide_served (server_handle (blank_env env) auth inp s d) = hide_served (server_handle env auth inp s e)"
  using handleFetch_hidden [OF assms, of env auth] handleHook_hidden [OF assms, of env] assms(1)
  by (auto simp: server_handle_def hide_served_def split: sum.split request_type.split)

lemma pushVolume_hidden:
  assumes "hide_daemon d = hide_daemon e"
  shows "hide_daemon (pushVolume (blank_env env) p c d) = hide_daemon (pushVolume env p c e)"
proof -
  let ?mount = "path_join (de_vol_root env) (volumeName c (p_service p))"
  have h: "hide_world (dm_world d) = hide_world (dm_world e)" using assms by (simp add: hide_daemon_eq)
  obtain x v w where a: "ApplyVolume (blank_ops (de_ops env)) (build_env_of env) (ToDelivery p) ?mount (dm_world d) = (x, v)"
    "ApplyVolume (de_ops env) (build_env_of env) (ToDelivery p) ?mount (dm_world e) = (x, w)" "hide_world v = hide_world w"
    by (rule hidden_stepE [OF ApplyVolume_hidden [OF h]])
  have h1: "hide_daemon (d\<lparr>dm_world := v\<rparr>) = hide_daemon (e\<lparr>dm_world := w\<rparr>)" using assms a(3) by (simp add: hide_daemon_eq)
  obtain r d' e' where al: "alertValidation env (rc_id c) (p_service p) None (d\<lparr>dm_world := v\<rparr>) = (r, d')"
    "alertValidation env (rc_id c) (p_service p) None (e\<lparr>dm_world := w\<rparr>) = (r, e')" "hide_daemon d' = hide_daemon e'"
    by (rule alert_hidden [OF h1])
  have re: "hide_daemon (recordInjection env m (d\<lparr>dm_world := v\<rparr>)) = hide_daemon (recordInjection env m (e\<lparr>dm_world := w\<rparr>))" for m
    by (rule recordInjection_hidden [OF h1])
  show ?thesis
    unfolding pushVolume_def blank_env_fields blank_env_parts Let_def a(1,2) prod.case BuildManifest_blank
    by (cases x; cases "BuildManifest (de_ops env) (ToDelivery p) (de_rfc3339 env (de_now env))") (simp_all add: al h1 re)
qed

lemma handleStart_hidden:
  assumes "hide_daemon d = hide_daemon e"
  shows "hide_daemon (handleStart (blank_env env) cid d) = hide_daemon (handleStart env cid e)"
proof -
  have t: "dm_tracker d = dm_tracker e" using assms by (simp add: hide_daemon_eq)
  have al: "hide_daemon (snd (alertValidation env x svc err d)) = hide_daemon (snd (alertValidation env x svc err e))" for x svc err
    using alert_hidden [OF assms, of env x svc err] by (metis snd_conv)
  show ?thesis
    unfolding handleStart_def blank_env_fields blank_env_parts t
    using pushVolume_hidden [OF assms] tracker_hidden [OF assms] assms al
    by (auto split: option.split sum.split)
qed

lemma handleEvent_hidden:
  assumes "hide_daemon d = hide_daemon e"
  shows "hide_daemon (handleEvent (blank_env env) ty cid d) = hide_daemon (handleEvent env ty cid e)"
proof -
  let ?lg = "(dm_ledger e)\<lparr>lg_records := AList.delete cid (lg_records (dm_ledger e))\<rparr>"
  have h: "hide_world (dm_world d) = hide_world (dm_world e)" "dm_ledger d = dm_ledger e" "dm_tracker d = dm_tracker e"
    "dm_sticky d = dm_sticky e" "dm_alerts d = dm_alerts e"
    using assms by (simp_all add: hide_daemon_eq)
  obtain x v w where l: "ledger_save (de_json env) ?lg (wd_fs (dm_world d)) = (x, v)" "ledger_save (de_json env) ?lg (wd_fs (dm_world e)) = (x, w)"
    "hide_fs v = hide_fs w" by (rule ledger_same [OF h(1)])
  have f: "Forget (de_json env) (dm_ledger e) cid (wd_fs (dm_world d))
      = (if map_of (lg_records (dm_ledger e)) cid = None then (None, dm_ledger e, wd_fs (dm_world d)) else (x, ?lg, v))"
    "Forget (de_json env) (dm_ledger e) cid (wd_fs (dm_world e))
      = (if map_of (lg_records (dm_ledger e)) cid = None then (None, dm_ledger e, wd_fs (dm_world e)) else (x, ?lg, w))"
    by (simp_all add: Forget_def Let_def l split: option.split)
  show ?thesis
    using handleStart_hidden [OF assms, of env cid] assms h(1) l(3)
    by (cases "map_of (lg_records (dm_ledger e)) cid")
      (simp_all add: handleEvent_def Let_def h(2-) f hide_daemon_eq hide_world_eq)
qed

lemma stat_same:
  assumes "hide_fs v = hide_fs w"
  obtains b v' w' where "stat_dir env p v = (b, v')" "stat_dir env p w = (b, w')" "hide_fs v' = hide_fs w'"
proof -
  obtain x v' y w' where s: "sys v = (x, v')" "sys w = (y, w')" by (metis prod.exhaust)
  with sys_hidden [of v] sys_hidden [of w] assms have "x = y" "hide_fs v' = hide_fs w'" by auto
  with s that [of "y \<and> de_is_dir env p" v' w'] show thesis by (simp add: stat_dir_def)
qed

lemma stat_file_same:
  assumes "hide_fs v = hide_fs w"
  obtains b v' w' where "stat_file p v = (b, v')" "stat_file p w = (b, w')" "hide_fs v' = hide_fs w'"
proof -
  obtain x v' y w' where s: "sys v = (x, v')" "sys w = (y, w')" by (metis prod.exhaust)
  with sys_hidden [of v] sys_hidden [of w] assms have h: "x = y" "hide_fs v' = hide_fs w'" by auto
  have "(content v' p \<noteq> None) = (content w' p \<noteq> None)"
    using fun_cong [OF arg_cong [OF h(2), of fs_files], of "path_clean p"]
    by (cases "fs_files v' (path_clean p)"; cases "fs_files w' (path_clean p)") (simp_all add: content_def)
  with s h that [of "y \<and> content w' p \<noteq> None" v' w'] show thesis by (simp add: stat_file_def)
qed

lemma reconcile_one_hidden:
  assumes "hide_daemon d = hide_daemon e"
  shows "hide_daemon (reconcile_one (blank_env env) c d) = hide_daemon (reconcile_one env c e)"
proof -
  have h: "hide_fs (wd_fs (dm_world d)) = hide_fs (wd_fs (dm_world e))" using assms by (simp add: hide_daemon_eq hide_world_eq)
  have "hide_daemon (let mountPath = path_join (de_vol_root env) (volumeName c (p_service p));
        (there, w1) = stat_dir env mountPath (wd_fs (dm_world d)) in
      if \<not> there then set_fs w1 d
      else let (ready, w2) = stat_file (path_join mountPath (path_base DefaultManifestPath)) w1 in
        if ready then set_fs w2 d else pushVolume (blank_env env) p c (set_fs w2 d))
    = hide_daemon (let mountPath = path_join (de_vol_root env) (volumeName c (p_service p));
        (there, w1) = stat_dir env mountPath (wd_fs (dm_world e)) in
      if \<not> there then set_fs w1 e
      else let (ready, w2) = stat_file (path_join mountPath (path_base DefaultManifestPath)) w1 in
        if ready then set_fs w2 e else pushVolume env p c (set_fs w2 e))" for p
  proof -
    let ?m = "path_join (de_vol_root env) (volumeName c (p_service p))"
    obtain b v w where s: "stat_dir env ?m (wd_fs (dm_world d)) = (b, v)" "stat_dir env ?m (wd_fs (dm_world e)) = (b, w)" "hide_fs v = hide_fs w"
      by (rule stat_same [OF h])
    obtain r v' w' where f: "stat_file (path_join ?m (path_base DefaultManifestPath)) v = (r, v')"
      "stat_file (path_join ?m (path_base DefaultManifestPath)) w = (r, w')" "hide_fs v' = hide_fs w'" by (rule stat_file_same [OF s(3)])
    show ?thesis
      unfolding Let_def s(1,2) f(1,2) prod.case
      using set_fs_hidden [OF assms s(3)] set_fs_hidden [OF assms f(3)] pushVolume_hidden [OF set_fs_hidden [OF assms f(3)], of env p c] by simp
  qed
  then show ?thesis
    using assms unfolding reconcile_one_def blank_env_fields blank_env_parts by (auto split: sum.split option.split)
qed

lemma reconcileVolumes_hidden:
  assumes "hide_daemon d = hide_daemon e"
  shows "hide_daemon (reconcileVolumes (blank_env env) d) = hide_daemon (reconcileVolumes env e)"
proof -
  have "hide_daemon (fold (reconcile_one (blank_env env)) cs d) = hide_daemon (fold (reconcile_one env) cs e)"
    if "hide_daemon d = hide_daemon e" for cs d e
    using that
  proof (induction cs arbitrary: d e)
    case (Cons c cs)
    from Cons.IH [OF reconcile_one_hidden [OF Cons.prems]] show ?case by simp
  qed simp
  then show ?thesis using assms by (simp add: reconcileVolumes_def split: option.split)
qed

section \<open>Runs\<close>

text \<open>
  One entry into the daemon: a connection of a peer that takes so many bytes, a runtime event or a reconcile pass; with the replies
  it sends. A run is a sequence of entries, each with its own opener and environment.
\<close>

datatype daemon_call = CallConn "auth_error + identity" string "nat option" | CallEvent event_type string | CallReconcile

fun do_call :: "'h denv \<Rightarrow> daemon_call \<Rightarrow> daemon \<Rightarrow> sink list \<times> daemon" where
  "do_call env (CallConn auth inp room) dm = map_prod (\<lambda>s. [s]) id (server_handle env auth inp \<lparr>sk_sent = [], sk_room = room\<rparr> dm)"
| "do_call env (CallEvent ty cid) dm = ([], handleEvent env ty cid dm)"
| "do_call env CallReconcile dm = ([], reconcileVolumes env dm)"

fun serve_calls :: "(opener_env \<times> opened denv \<times> daemon_call) list \<Rightarrow> daemon \<Rightarrow> sink list \<times> daemon" where
  "serve_calls [] dm = ([], dm)"
| "serve_calls ((oe, env, c) # cs) dm =
     (let (ss, dm1) = do_call (env\<lparr>de_ops := config_ops oe\<rparr>) c dm; (ts, dm2) = serve_calls cs dm1 in (ss @ ts, dm2))"

definition hide_run :: "sink list \<times> daemon \<Rightarrow> sink list \<times> daemon" where
  "hide_run r = map_prod (map hide_reply) hide_daemon r"

lemma do_call_hidden:
  assumes "hide_daemon d = hide_daemon e"
  shows "hide_run (do_call (blank_env env) c d) = hide_run (do_call env c e)"
proof (cases c)
  case (CallConn auth inp room)
  let ?s = "\<lparr>sk_sent = [], sk_room = room\<rparr>"
  from server_hidden [OF assms, of ?s env auth inp] show ?thesis
    by (cases "server_handle (blank_env env) auth inp ?s d"; cases "server_handle env auth inp ?s e")
      (simp add: CallConn hide_run_def hide_served_def)
qed (use handleEvent_hidden [OF assms] reconcileVolumes_hidden [OF assms] in \<open>simp_all add: hide_run_def\<close>)

text \<open>The run with every opener's sops printing blanks.\<close>

definition blank_calls ::
  "(opener_env \<times> opened denv \<times> daemon_call) list \<Rightarrow> (opener_env \<times> opened denv \<times> daemon_call) list" where
  "blank_calls cs = map (\<lambda>(oe, env, c). (blank_opener oe, env, c)) cs"

lemma serve_calls_hidden:
  "hide_daemon d = hide_daemon e \<Longrightarrow> hide_run (serve_calls (blank_calls cs) d) = hide_run (serve_calls cs e)"
proof (induction cs arbitrary: d e)
  case (Cons x cs)
  obtain oe env c where x: "x = (oe, env, c)" by (metis prod.exhaust)
  have b: "env\<lparr>de_ops := config_ops (blank_opener oe)\<rparr> = blank_env (env\<lparr>de_ops := config_ops oe\<rparr>)"
    by (simp add: blank_env_def config_ops_blank)
  obtain ss d1 ts e1 where 1: "do_call (blank_env (env\<lparr>de_ops := config_ops oe\<rparr>)) c d = (ss, d1)" "do_call (env\<lparr>de_ops := config_ops oe\<rparr>) c e = (ts, e1)"
    by (metis prod.exhaust)
  with do_call_hidden [OF Cons.prems, of "env\<lparr>de_ops := config_ops oe\<rparr>" c]
  have h: "map hide_reply ss = map hide_reply ts" "hide_daemon d1 = hide_daemon e1" by (simp_all add: hide_run_def)
  obtain us d2 vs e2 where 2: "serve_calls (blank_calls cs) d1 = (us, d2)" "serve_calls cs e1 = (vs, e2)" by (metis prod.exhaust)
  have bc: "blank_calls ((oe, env, c) # cs) = (blank_opener oe, env, c) # blank_calls cs" by (simp add: blank_calls_def)
  from Cons.IH [OF h(2)] 2 h(1) show ?case unfolding x bc by (simp add: b 1 hide_run_def)
qed (simp add: blank_calls_def hide_run_def)

text \<open>
  C5: no secret value leaves the daemon except to its consumer. Take two runs of the daemon from one state, over any sequence of connections,
  runtime events and reconcile passes, that differ only in the values of the secrets (the bytes between the first equals sign of a decrypted
  dotenv line and its end, and the bytes of a binary payload), not in their lengths. Everything the daemon keeps or says is the same: the alerts
  and sticky errors, the ledger, the timers, the sizes of locked buffers, which files exist and with what owner and mode, every refusal byte for
  byte, and of each bundle its length. Only the contents of the files it wrote and of the bundle replies may differ.
\<close>

theorem daemon_hides_values:
  assumes "blank_calls cs1 = blank_calls cs2" "serve_calls cs1 dm = (replies1, dm1)" "serve_calls cs2 dm = (replies2, dm2)"
  shows "dm_alerts dm1 = dm_alerts dm2 \<and> dm_sticky dm1 = dm_sticky dm2 \<and> dm_ledger dm1 = dm_ledger dm2 \<and> dm_tracker dm1 = dm_tracker dm2
    \<and> wd_mem (dm_world dm1) = wd_mem (dm_world dm2) \<and> hide_fs (wd_fs (dm_world dm1)) = hide_fs (wd_fs (dm_world dm2))
    \<and> map hide_reply replies1 = map hide_reply replies2"
proof -
  have "hide_run (serve_calls cs1 dm) = hide_run (serve_calls cs2 dm)"
    using serve_calls_hidden [OF refl, of cs1 dm] serve_calls_hidden [OF refl, of cs2 dm] assms(1) by simp
  then show ?thesis by (simp add: assms(2,3) hide_run_def hide_daemon_eq hide_world_eq)
qed

definition opener_with :: "string \<Rightarrow> opener_env" where
  "opener_with v = sample_opener\<lparr>oe_sops := (oe_sops sample_opener)\<lparr>io_run := \<lambda>argv env. \<lparr>so_start_err = None, so_out = ''PW='' @ v @ [newline],
     so_stderr = [], so_copy_err = None, so_wait_err = None, so_flush_err = None\<rparr>\<rparr>\<rparr>"

definition calls_with :: "string \<Rightarrow> (opener_env \<times> opened denv \<times> daemon_call) list" where
  "calls_with v = [(opener_with v, sample_denv, CallConn (Inr sample_client) [ProtocolVersion, msgFetchRequest] None),
     (opener_with v, sample_denv, CallEvent EventStart ''c1''), (opener_with v, sample_denv, CallReconcile)]"

lemma blank_opener_with: "blank_opener (opener_with ''hunter2'') = blank_opener (opener_with ''hunter3'')"
proof -
  have "blank_run f \<lparr>so_start_err = None, so_out = ''PW=hunter2'' @ [newline], so_stderr = [], so_copy_err = None, so_wait_err = None, so_flush_err = None\<rparr>
    = blank_run f \<lparr>so_start_err = None, so_out = ''PW=hunter3'' @ [newline], so_stderr = [], so_copy_err = None, so_wait_err = None, so_flush_err = None\<rparr>" for f
    by (simp add: blank_run_def blank_text_def blanks_def newline_def)
  then show ?thesis by (simp add: blank_opener_def blank_io_def opener_with_def fun_eq_iff)
qed

theorem daemon_hides_values_witness:
  "dm_alerts (snd (serve_calls (calls_with ''hunter2'') sample_daemon)) = dm_alerts (snd (serve_calls (calls_with ''hunter3'') sample_daemon))
   \<and> map hide_reply (fst (serve_calls (calls_with ''hunter2'') sample_daemon)) = map hide_reply (fst (serve_calls (calls_with ''hunter3'') sample_daemon))"
proof -
  have "blank_calls (calls_with ''hunter2'') = blank_calls (calls_with ''hunter3'')"
    by (simp add: blank_calls_def calls_with_def blank_opener_with)
  from daemon_hides_values [OF this prod.collapse [symmetric] prod.collapse [symmetric]] show ?thesis by blast
qed

end
