(* ===== verification/Spec2Isabelle.thy ===== *)
theory Spec2Isabelle
  imports Cli_Command Consumer_Apply Daemon_Secrecy
begin

text \<open>
  A model of berm, the secret-delivery daemon of this repository, with the theorems that make it correct. A
  container asks for secrets by labels; the daemon resolves the labels against \<open>berm.yml\<close>, decrypts the
  sources with sops into locked memory, and delivers them by one of three mechanisms: a socket that the client inside the
  container fetches from (authenticated by the kernel's peer credentials), a tmpfs volume that the daemon fills, or an OCI hook that fetches for
  the container before it starts.

  The theories follow the packages under \<open>src/\<close>; every definition keeps the name of the Go function or type it
  translates, with a prefix where two packages use the same name.

  Foundations.
  \<^item> \<open>Go_Base\<close>: results as sums, Go maps as association lists, \<open>strings\<close>. \<open>Go_Path\<close>: \<open>path/filepath\<close>, with what lies under a directory.

  Policy.
  \<^item> \<open>Label_Ref\<close>, \<open>Label_Parse\<close> (\<open>internal/label\<close>): references and the label grammar. No label is lost, the env gate holds, specs are well formed.
  \<^item> \<open>Config_Model\<close> (\<open>internal/config\<close>): \<open>berm.yml\<close> as a value, the \<open>BERM_*\<close> globals.
  \<^item> \<open>Resolve_Model\<close> (\<open>internal/resolve\<close>): labels and \<open>berm.yml\<close> to a plan. Scoping, exactness, acceptance.

  Secrets.
  \<^item> \<open>Backend_Dotenv\<close>, \<open>Backend_Sops\<close> (\<open>internal/backend\<close>): dotenv text, and driving the sops program.
  \<^item> \<open>Delivery_Types\<close>, \<open>Delivery_Source\<close>, \<open>Delivery_Bundle\<close>, \<open>Delivery_Volume\<close> (\<open>internal/delivery\<close>): the interface of sources as a
    locale and its implementation over sops, the manifest, the bundle a plan asks for, and the tmpfs volume. The handler over locked memory refines a
    pure function; the volume's manifest is a ready signal whatever fails, unless a file is delivered to its path.
  \<^item> \<open>Wire_Codec\<close>, \<open>Wire_Props\<close>, \<open>Wire_File\<close> (\<open>internal/wire\<close>): frames with their writers and readers as a locale of pairs, the decoder over
    locked memory, and the atomic file writer over a file system every call of which can fail.

  The daemon.
  \<^item> \<open>Peer_Auth\<close> (\<open>internal/peerauth\<close>): who is on the socket. \<open>Daemon_Ledger\<close>: the staleness ledger and its drift query.
    \<open>Daemon_Tracker\<close>: the client timeout, a step relation over the tracker and its timers.
  \<^item> \<open>Daemon_Control\<close> (\<open>daemon.go\<close>, \<open>loop.go\<close>, \<open>server.go\<close> of \<open>internal/daemon\<close>, and \<open>internal/hookd\<close>): the daemon's state (files and locked
    memory, ledger, sticky errors, tracker, alerts sent), every handler as a function from state to state, the relation \<open>dstep\<close> of all
    their interleavings, and its invariant. \<open>Daemon_Report\<close>: heartbeat and probe, digest, status. \<open>Daemon_Start\<close>: construction and the loops, each a
    sequence of handler calls (the locale \<open>handler\<close>).
  \<^item> \<open>Daemon_Locks\<close> (the keyed mutex of \<open>daemon.go\<close> and the mutex of \<open>ledger.go\<close>) and \<open>Daemon_Shutdown\<close> (\<open>Run\<close> of \<open>daemon.go\<close>, the connection table of \<open>server.go\<close>,
    \<open>runDigest\<close>): the goroutines inside and around the handlers as step relations at the grain of mutex operations, instances of the locale \<open>machine\<close>: pushes
    exclude each other, never deadlock and are serial if no two containers share a volume, the ledger file holds only states memory had, every shutdown ends.
  \<^item> \<open>Daemon_Secrecy\<close>: the daemon compared with one whose sources print blanks for values. Every operation, from the dotenv parser to the reconcile
    pass, commutes with the blanks, so nothing the daemon keeps or reports depends on a value.

  The consumers.
  \<^item> \<open>Consumer_Apply\<close> (\<open>internal/client\<close>, \<open>internal/hook\<close>, \<open>cmd/berm-client\<close>, \<open>cmd/berm-hook\<close>): the two programs that fetch a bundle and put it in place.

  The operator.
  \<^item> \<open>Cli_Report\<close> (\<open>cli.go\<close>, \<open>validate.go\<close>, \<open>status.go\<close>, \<open>stale.go\<close> of \<open>internal/cli\<close>), \<open>Cli_Suggest\<close> (\<open>suggest.go\<close>) and \<open>Cli_Command\<close> (\<open>cmd/berm\<close>, \<open>config.Load\<close>):
    reports as lists of lines. Validation is a gate, suggestions show no value and, read back from the report, resolve when pasted, and the daemon
    command comes up whole or not at all.
  \<^item> This theory: the daemon joined to its consumers, from the labels of a container to the files and the environment its application finds, and to the record
    by which the drift query watches what was delivered.

  Conventions. Strings are lists of bytes. A \<open>time.Time\<close> or \<open>time.Duration\<close> is its count of nanoseconds. Error values
  are constructors, message texts a format with its arguments. A file system state has a list of faults, one entry per system call, so a statement for
  all states covers every pattern of failures; a call without an entry succeeds. A connection's writer may stop after any number of bytes. A numbered
  set of live buffers stands for \<open>memguard\<close>.

  Fuel. Only helpers of the standard library's string functions recurse on fuel: \<open>strings.TrimSpace\<close> and \<open>strings.Fields\<close> get the length of their
  input and use at least one byte a round. All other recursion is structural or has a termination proof.

  Parameters. Code outside the repository is an argument of the definitions that use it: the sops program (its output, exit and errors for
  given arguments), the JSON and YAML libraries, SHA-256, \<open>time.ParseDuration\<close>, time formats, the container runtime's listing and inspection, \<open>/proc\<close> and
  the socket's credentials. Assumptions on them are named where they are used: a ledger decoded from JSON has each key once.

  Not modelled. Log lines, the layout of table cells, and the declaration of flags in \<open>cmd/berm\<close>; symbolic links and permissions of directories in
  the file system; the courier library behind \<open>internal/alert\<close>, whose notification is \<open>alert\<close>; \<open>internal/version\<close>, a constant; the tools under \<open>test/\<close>. In \<open>Daemon_Control\<close>
  a handler call is one step; what goes on inside it under a mutex is modelled apart, in \<open>Daemon_Locks\<close> and \<open>Daemon_Shutdown\<close>, over the state that the mutex guards.
\<close>

section \<open>A request, end to end\<close>

definition contents_fit :: "contents \<Rightarrow> bool" where
  "contents_fit c \<longleftrightarrow> (case c of (fs, es, ps, m) \<Rightarrow>
     length fs < 2 ^ 32 \<and> length es < 2 ^ 32 \<and> length ps < 2 ^ 32
     \<and> (\<forall>(p, ow, md, d) \<in> set fs. short_string p \<and> short_string ow \<and> short_string md \<and> payload d)
     \<and> (\<forall>(n, v) \<in> set es. short_string n \<and> payload v)
     \<and> (\<forall>(n, p) \<in> set ps. short_string n \<and> short_string p) \<and> payload m)"

lemma bundle_fits_view: "bundle_fits b \<longleftrightarrow> contents_fit (bundle_view b)"
  by (simp add: bundle_fits_def contents_fit_def bundle_view_def file_fits_def env_fits_def pointer_fits_def
      file_view_def env_view_def pointer_view_def)

text \<open>A writer only appends; a refusal is never read as a bundle, wherever the connection breaks.\<close>

lemma sink_write_appends: "\<exists>q. sk_sent (snd (sink_write p s)) = sk_sent s @ q"
  by (simp add: sink_write_def split: option.split)

lemma writeU16Bytes_appends: "\<exists>q. sk_sent (snd (writeU16Bytes p s)) = sk_sent s @ q"
  using sink_write_appends [of "be16 (ucast (word_of_nat (length p) :: 32 word))" s]
    sink_write_appends [of p "snd (sink_write (be16 (ucast (word_of_nat (length p) :: 32 word))) s)"]
  by (auto simp: writeU16Bytes_def writeU16_def thenW_def failW_def split: prod.split option.split)

lemma refuse_sent:
  assumes "sk_sent s = []"
  shows "length (sk_sent (refuse reason s)) < 2 \<or> (\<exists>q. sk_sent (refuse reason s) = ProtocolVersion # msgErrorResponse # q)"
proof -
  obtain e s1 where w: "sink_write [ProtocolVersion, msgErrorResponse] s = (e, s1)" by (metis prod.exhaust)
  show ?thesis
  proof (cases e)
    case None
    then have "sk_sent s1 = [ProtocolVersion, msgErrorResponse]" using w assms by (auto simp: sink_write_def split: option.splits if_splits)
    then show ?thesis using writeU16Bytes_appends [of reason s1] by (auto simp: refuse_def WriteError_def thenW_def w None)
  next
    case (Some x)
    then have "length (sk_sent s1) < 2" using w assms by (auto simp: sink_write_def split: option.splits if_splits)
    then show ?thesis by (simp add: refuse_def WriteError_def thenW_def w Some)
  qed
qed

lemma refusal_not_bundle:
  assumes "sk_sent s = []" "sk_sent (refuse reason s) = received @ lost"
  shows "fst (ReadResponse received lm) \<noteq> Inr b"
proof (cases "length received < 2")
  case True
  then show ?thesis by (simp add: ReadResponse_def readFull_def)
next
  case False
  then obtain q where "received = ProtocolVersion # msgErrorResponse # q"
    using refuse_sent [OF assms(1), of reason] assms(2) by (cases received; cases "tl received") auto
  then show ?thesis by (simp add: ReadResponse_def readFull_def split: sum.split prod.split)
qed

lemma send_bundle_sent: "fst (send_bundle env b s dm) = snd (EncodeBundle b s)"
  by (simp add: send_bundle_def Let_def split: prod.split)

text \<open>What a client decodes of a bundle frame.\<close>

lemma sent_bundle_decoded:
  assumes "contents_fit (bundle_view b)" "sk_sent s = []" "sk_sent (fst (send_bundle env b s dm)) = received @ lost"
    and "fst (ReadResponse received lm) = Inr b'"
  shows "lost = [] \<and> bundle_view b' = bundle_view b \<and> fst (EncodeBundle b s) = None"
proof -
  have "\<exists>r. rd_response received = Inr (bundle_view b', r)"
    using ReadResponse_contents [of received lm] assms(4) by (auto split: sum.splits)
  then obtain r where "rd_response received = Inr (bundle_view b', r)" ..
  from response.never_misread [OF _ _ this, of b s lost] assms(1-3) show ?thesis
    by (simp add: send_bundle_sent bundle_fits_view)
qed

lemma fetch_decoded:
  assumes "de_ops env = config_ops oe" "mem_ok (wd_mem (dm_world dm))"
    and "handleFetch env (Inr i) s dm = (s', dm')" "sk_sent s = []"
    and "sk_sent s' = received @ lost" "fst (ReadResponse received lm) = Inr b'"
    and "\<And>p c. Resolve (daemon_input env (id_labels i) (id_container i) (id_service i)) = Inr (Some p) \<Longrightarrow>
           bundle_contents (config_ops oe) (sops_answers oe) (build_env_of env) (id_service i) (ToDelivery p) = Inr c \<Longrightarrow>
           contents_fit c"
  shows "\<exists>p. Resolve (daemon_input env (id_labels i) (id_container i) (id_service i)) = Inr (Some p)
    \<and> p_container p = id_container i \<and> lost = []
    \<and> bundle_contents (config_ops oe) (sops_answers oe) (build_env_of env) (id_service i) (ToDelivery p) = Inr (bundle_view b')
    \<and> (\<forall>n \<in> plan_sources p. \<exists>src. c_sources (de_cfg env) n = Some src \<and> serviceMayRead (p_service p) n src)"
proof -
  let ?inp = "daemon_input env (id_labels i) (id_container i) (id_service i)"
  let ?dm1 = "dm\<lparr>dm_tracker := arrived (id_container i) (dm_tracker dm)\<rparr>"
  have no: "s' \<noteq> refuse reason s" for reason using refusal_not_bundle [OF assms(4)] assms(5,6) by blast
  obtain p where p: "Resolve ?inp = Inr (Some p)"
    using assms(3) no by (auto simp: handleFetch_def Let_def split: sum.splits option.splits prod.splits)
  obtain x lm1 where b: "BuildBundle (config_ops oe) (build_env_of env) (id_service i) (ToDelivery p) (wd_mem (dm_world ?dm1)) = (x, lm1)"
    by (metis prod.exhaust)
  obtain bb where x: "x = Inr bb"
    using assms(1,3) no p b by (cases x) (auto simp: handleFetch_def Let_def split: prod.splits)
  have s': "s' = fst (send_bundle env bb s (set_mem lm1 ?dm1))"
    using assms(1,3) p b x by (simp add: handleFetch_def)
  have c: "bundle_contents (config_ops oe) (sops_answers oe) (build_env_of env) (id_service i) (ToDelivery p) = Inr (bundle_view bb)"
    using BuildBundle_config [OF _ b] assms(2) x by (auto simp: sops_answers_def split: sum.splits)
  from sent_bundle_decoded [OF assms(7) [OF p c] assms(4) assms(5) [unfolded s'] assms(6)]
  have l: "lost = []" "bundle_view b' = bundle_view bb" by simp_all
  obtain cfg sp where r: "in_config ?inp = Some cfg" "resolve_spec ?inp cfg sp = Inr (Some p)" using p by (rule Resolve_planD)
  have "cfg = de_cfg env" using r(1) by (simp add: daemon_input_def)
  moreover have "p_container p = id_container i" using resolve_spec_plan(2) [OF r(2)] by (simp add: daemon_input_def)
  ultimately show ?thesis using p c l plan_source_readable [OF r(2)] by auto
qed

text \<open>
  C1: a fetch delivers the caller's own plan and nothing else. Whatever the daemon sends to an authenticated
  peer, and wherever the connection is cut, a bundle the client decodes is complete and is exactly the
  contents of the plan its own labels resolve to, made for its own service; every source the plan reads is
  owned by that service or granted to it in berm.yml. Refusals are never decoded as bundles.
\<close>

theorem fetch_delivers_own:
  assumes "de_ops env = config_ops oe" "mem_ok (wd_mem (dm_world dm))"
    and "handleFetch env (Inr i) s dm = (s', dm')" "sk_sent s = []"
    and "sk_sent s' = received @ lost" "fst (ReadResponse received lm) = Inr b'"
    and "\<And>p c. Resolve (daemon_input env (id_labels i) (id_container i) (id_service i)) = Inr (Some p) \<Longrightarrow>
           bundle_contents (config_ops oe) (sops_answers oe) (build_env_of env) (id_service i) (ToDelivery p) = Inr c \<Longrightarrow>
           contents_fit c"
  shows "\<exists>p. Resolve (daemon_input env (id_labels i) (id_container i) (id_service i)) = Inr (Some p)
    \<and> p_container p = id_container i \<and> lost = []
    \<and> bundle_contents (config_ops oe) (sops_answers oe) (build_env_of env) (id_service i) (ToDelivery p) = Inr (bundle_view b')
    \<and> (\<forall>n \<in> plan_sources p. \<exists>src. c_sources (de_cfg env) n = Some src \<and> serviceMayRead (p_service p) n src)"
  using assms by (rule fetch_decoded)

lemma contents_bounded_fit: "contents_bounded c \<Longrightarrow> contents_fit c"
  by (fastforce simp: contents_fit_def contents_bounded_def short_string_def)

lemma sent_bundle_received:
  assumes "contents_bounded (bundle_view b)" "sk_sent s = []" "sk_room s = None"
  shows "\<exists>b'. fst (ReadResponse (sk_sent (fst (send_bundle env b s dm))) lm) = Inr b' \<and> bundle_view b' = bundle_view b"
proof -
  have "short_names b" using assms(1)
    by (simp add: short_names_def contents_bounded_def bundle_view_def file_view_def env_view_def pointer_view_def)
  then have "fst (EncodeBundle b s) = None" using flowsD [OF flows_EncodeBundle] assms(3) by blast
  then obtain s' where e: "EncodeBundle b s = (None, s')" by (cases "EncodeBundle b s") simp
  have "bundle_fits b" using contents_bounded_fit [OF assms(1)] by (simp add: bundle_fits_view)
  from response.round_trip [OF this e, of "[]"] have "rd_response (sk_sent s') = Inr (bundle_view b, [])" using assms(2) by auto
  then show ?thesis using ReadResponse_contents [of "sk_sent s'" lm] by (simp add: send_bundle_sent e)
qed

definition sample_wire_contents :: "string \<Rightarrow> contents" where
  "sample_wire_contents cid = ([(''/run/berm/pw'', ''0:0'', ''0400'', ''s3=x'')], [], [(''PW_FILE'', ''/run/berm/pw'')], cid)"

lemma sample_client_plan:
  "case Resolve (daemon_input sample_denv (id_labels sample_client) (id_container sample_client) (id_service sample_client)) of
     Inr (Some p) \<Rightarrow> bundle_contents (config_ops sample_opener) (sops_answers sample_opener) (build_env_of sample_denv)
         (id_service sample_client) (ToDelivery p) = Inr (sample_wire_contents sample_cid)
   | _ \<Rightarrow> False"
  by code_simp

lemma sample_wire_bounded: "contents_bounded (sample_wire_contents sample_cid)" "contents_fit (sample_wire_contents sample_cid)"
  "contents_bounded (sample_wire_contents ''x'')" "contents_fit (sample_wire_contents ''x'')"
  by (simp_all add: contents_bounded_def contents_fit_def sample_wire_contents_def payload_def short_string_def sample_cid_def)

lemma open_sink_simps: "sk_sent open_sink = []" "sk_room open_sink = None"
  by (simp_all add: open_sink_def)

lemma sample_daemon_mem: "mem_ok (wd_mem (dm_world sample_daemon))" "dm_world (sample_daemon\<lparr>dm_tracker := t\<rparr>) = dm_world sample_daemon"
  by (simp_all add: sample_daemon_def new_daemon_def mem_ok_def)

definition sample_reply :: string where
  "sample_reply = sk_sent (fst (handleFetch sample_denv (Inr sample_client) open_sink sample_daemon))"

lemma sample_only_plan:
  assumes "Resolve (daemon_input sample_denv (id_labels sample_client) (id_container sample_client) (id_service sample_client)) = Inr (Some q)"
    "bundle_contents (config_ops sample_opener) (sops_answers sample_opener) (build_env_of sample_denv) (id_service sample_client) (ToDelivery q) = Inr c"
  shows "c = sample_wire_contents sample_cid"
  using assms sample_client_plan by simp

lemma sample_received:
  "\<exists>b lm. ReadResponse sample_reply fresh_mem = (Inr b, lm) \<and> bundle_view b = sample_wire_contents sample_cid"
proof -
  let ?i = sample_client and ?env = sample_denv
  obtain p where p: "Resolve (daemon_input ?env (id_labels ?i) (id_container ?i) (id_service ?i)) = Inr (Some p)"
    "bundle_contents (config_ops sample_opener) (sops_answers sample_opener) (build_env_of ?env) (id_service ?i) (ToDelivery p) =
       Inr (sample_wire_contents sample_cid)"
    using sample_client_plan by (auto split: sum.splits option.splits)
  let ?dm1 = "sample_daemon\<lparr>dm_tracker := arrived (id_container ?i) (dm_tracker sample_daemon)\<rparr>"
  obtain x lm1 where b: "BuildBundle (config_ops sample_opener) (build_env_of ?env) (id_service ?i) (ToDelivery p) (wd_mem (dm_world ?dm1)) = (x, lm1)"
    by (metis prod.exhaust)
  have "mem_ok (wd_mem (dm_world ?dm1))" using sample_daemon_mem by simp
  from BuildBundle_config [OF this b] p(2) obtain bb where x: "x = Inr bb" "bundle_view bb = sample_wire_contents sample_cid"
    by (auto simp: sops_answers_def split: sum.splits)
  have sent: "sample_reply = sk_sent (fst (send_bundle ?env bb open_sink (set_mem lm1 ?dm1)))"
    using p(1) b x by (simp add: sample_reply_def handleFetch_def sample_ops)
  show ?thesis
    using sent_bundle_received [OF sample_wire_bounded(1) [folded x(2)] open_sink_simps, of ?env "set_mem lm1 ?dm1" fresh_mem]
    unfolding sent x(2) by (metis prod.collapse)
qed

theorem fetch_delivers_own_witness:
  "\<exists>b'. fst (ReadResponse sample_reply fresh_mem) = Inr b' \<and> bundle_view b' = sample_wire_contents sample_cid"
proof -
  let ?i = sample_client and ?env = sample_denv
  obtain b' where r: "fst (ReadResponse sample_reply fresh_mem) = Inr b'" using sample_received by (metis fst_conv)
  obtain s' dm' where h: "handleFetch ?env (Inr ?i) open_sink sample_daemon = (s', dm')" by (metis prod.exhaust)
  have "\<exists>q. Resolve (daemon_input ?env (id_labels ?i) (id_container ?i) (id_service ?i)) = Inr (Some q)
    \<and> p_container q = id_container ?i \<and> [] = ([] :: string)
    \<and> bundle_contents (config_ops sample_opener) (sops_answers sample_opener) (build_env_of ?env) (id_service ?i) (ToDelivery q) = Inr (bundle_view b')
    \<and> (\<forall>n \<in> plan_sources q. \<exists>src. c_sources (de_cfg ?env) n = Some src \<and> serviceMayRead (p_service q) n src)"
  proof (rule fetch_delivers_own [OF sample_ops sample_daemon_mem(1) h open_sink_simps(1) _ r])
    show "sk_sent s' = sample_reply @ []" by (simp add: h sample_reply_def)
  next
    fix q c
    assume "Resolve (daemon_input ?env (id_labels ?i) (id_container ?i) (id_service ?i)) = Inr (Some q)"
      "bundle_contents (config_ops sample_opener) (sops_answers sample_opener) (build_env_of ?env) (id_service ?i) (ToDelivery q) = Inr c"
    from sample_only_plan [OF this] show "contents_fit c" using sample_wire_bounded(2) by simp
  qed
  then show ?thesis using r sample_only_plan by blast
qed

text \<open>
  What a hook request is entitled to: the contents \<open>c\<close> of the plan \<open>p\<close> that its annotations resolve to, for the service they name, when that plan is a
  hook-mode plan.
\<close>

definition hook_outcome ::
  "opener_env \<Rightarrow> opened denv \<Rightarrow> string \<Rightarrow> smap \<Rightarrow> string \<Rightarrow> plan \<Rightarrow> contents \<Rightarrow> bool" where
  "hook_outcome oe env cid ann svc p c \<longleftrightarrow>
     ServiceName \<lparr>rc_id = cid, rc_name = [], rc_service = composeService ann, rc_labels = ann\<rparr> = Inr svc
     \<and> Resolve (daemon_input env ann cid svc) = Inr (Some p) \<and> p_mechanism p = MechHook
     \<and> bundle_contents (config_ops oe) (sops_answers oe) (build_env_of env) (p_service p) (ToDelivery p) = Inr c"

lemma hook_outcome_no_env: "hook_outcome oe env cid ann svc p c \<Longrightarrow> dp_env (ToDelivery p) = []"
proof -
  assume h: "hook_outcome oe env cid ann svc p c"
  then have "p_env p = []"
    using Resolve_env_client_only [of "daemon_input env ann cid svc" p] by (auto simp: hook_outcome_def MechHook_def MechClient_def)
  then show ?thesis by (simp add: ToDelivery_def)
qed

lemma hook_decoded:
  assumes "de_ops env = config_ops oe" "mem_ok (wd_mem (dm_world dm))"
    and "ReadHookRequest inp = Inr ((cid, ann), rest)" "server_handle env auth inp s dm = (s', dm')" "sk_sent s = []"
    and "sk_sent s' = received @ lost" "fst (ReadResponse received lm) = Inr b"
    and "\<And>svc p c. hook_outcome oe env cid ann svc p c \<Longrightarrow> contents_fit c"
  obtains svc p where "hook_outcome oe env cid ann svc p (bundle_view b)"
proof -
  obtain r where r: "ReadRequestHeader inp = Inr (RequestHook, r)" "ReadHookBody r = Inr ((cid, ann), rest)"
    using assms(3) by (cases "ReadRequestHeader inp") (auto simp: ReadHookRequest_def bindR_def failR_def split: if_splits)
  have h: "handleHook env r s dm = (s', dm')" using assms(4) r(1) by (simp add: server_handle_def)
  have no: "s' \<noteq> refuse reason s" for reason using refusal_not_bundle [OF assms(5)] assms(6,7) by blast
  obtain x lm2 where k: "hook_Handle env cid ann (wd_mem (dm_world dm)) = (x, lm2)" by (metis prod.exhaust)
  obtain bb where x: "x = Inr bb"
    using h r(2) k no by (cases x) (auto simp: handleHook_def Let_def split: prod.splits if_splits)
  have s': "s' = fst (send_bundle env bb s (set_mem lm2 dm))" using h r(2) k x by (simp add: handleHook_def)
  from k show thesis
  proof (cases rule: hook_Handle_cases)
    case (built svc p y)
    then have y: "y = Inr bb" using x by (auto split: sum.splits)
    have bc: "bundle_contents (config_ops oe) (sops_answers oe) (build_env_of env) (p_service p) (ToDelivery p) = Inr (bundle_view bb)"
      using BuildBundle_config [OF assms(2) built(5) [unfolded assms(1)]] y by (auto simp: sops_answers_def ToDelivery_def split: sum.splits)
    then have o: "hook_outcome oe env cid ann svc p (bundle_view bb)" using built(1-3) by (simp add: hook_outcome_def)
    from sent_bundle_decoded [OF assms(8) [OF o] assms(5) assms(6) [unfolded s'] assms(7)] o that show thesis by simp
  qed (use x in simp)
qed

lemma hook_answered:
  assumes "de_ops env = config_ops oe" "mem_ok (wd_mem (dm_world dm))" "hook_outcome oe env cid ann svc p c"
    and "ReadHookRequest inp = Inr ((cid, ann), rest)" "contents_bounded c" "sk_sent s = []" "sk_room s = None"
  shows "\<exists>b. fst (ReadResponse (sk_sent (fst (server_handle env auth inp s dm))) lm) = Inr b \<and> bundle_view b = c"
proof -
  obtain r where r: "ReadRequestHeader inp = Inr (RequestHook, r)" "ReadHookBody r = Inr ((cid, ann), rest)"
    using assms(4) by (cases "ReadRequestHeader inp") (auto simp: ReadHookRequest_def bindR_def failR_def split: if_splits)
  obtain x lm1 where b: "BuildBundle (config_ops oe) (build_env_of env) (dp_service (ToDelivery p)) (ToDelivery p) (wd_mem (dm_world dm)) = (x, lm1)"
    by (metis prod.exhaust)
  have svc: "dp_service (ToDelivery p) = p_service p" by (simp add: ToDelivery_def)
  have c: "bundle_contents (config_ops oe) (sops_answers oe) (build_env_of env) (dp_service (ToDelivery p)) (ToDelivery p) = Inr c"
    using assms(3) unfolding svc hook_outcome_def by blast
  from BuildBundle_config [OF assms(2) b, folded sops_answers_def, unfolded c sum.case] obtain bb where x: "x = Inr bb" "bundle_view bb = c"
    by blast
  have "hook_Handle env cid ann (wd_mem (dm_world dm)) = (Inr bb, lm1)"
    using assms(1,3) b x hook_outcome_no_env [OF assms(3)] by (simp add: hook_Handle_def hook_outcome_def)
  then have "server_handle env auth inp s dm = send_bundle env bb s (set_mem lm1 dm)"
    using r by (simp add: server_handle_def handleHook_def)
  then show ?thesis using sent_bundle_received [of bb s] assms(5-7) x(2) by simp
qed

text \<open>
  C6: what the hook path gives out, on a connection that takes the whole answer and for contents within the limits of the wire format. A hook request is answered with a bundle exactly when its annotations name a service and resolve, for that service, to a
  hook-mode plan whose sources all open; the bundle the sender decodes is then that of this plan, and in every other case it decodes none. Who the kernel says
  the sender is plays no part: the daemon trusts whoever can send a hook request to present a container's own annotations.
\<close>

theorem hook_answer_exact:
  assumes "de_ops env = config_ops oe" "mem_ok (wd_mem (dm_world dm))"
    and "ReadHookRequest inp = Inr ((cid, ann), rest)" "sk_sent s = []" "sk_room s = None"
    and "\<And>svc p c. hook_outcome oe env cid ann svc p c \<Longrightarrow> contents_bounded c"
  shows "(\<exists>b. fst (ReadResponse (sk_sent (fst (server_handle env auth inp s dm))) lm) = Inr b \<and> bundle_view b = c)
    \<longleftrightarrow> (\<exists>svc p. hook_outcome oe env cid ann svc p c)"
proof
  obtain s' dm' where h: "server_handle env auth inp s dm = (s', dm')" by (metis prod.exhaust)
  assume "\<exists>b. fst (ReadResponse (sk_sent (fst (server_handle env auth inp s dm))) lm) = Inr b \<and> bundle_view b = c"
  then obtain b where b: "fst (ReadResponse (sk_sent s') lm) = Inr b" "bundle_view b = c" using h by auto
  have "sk_sent s' = sk_sent s' @ []" by simp
  from hook_decoded [OF assms(1-3) h assms(4) this b(1)] contents_bounded_fit [OF assms(6)] b(2)
  show "\<exists>svc p. hook_outcome oe env cid ann svc p c" by metis
next
  assume "\<exists>svc p. hook_outcome oe env cid ann svc p c"
  then obtain svc p where o: "hook_outcome oe env cid ann svc p c" by blast
  from hook_answered [OF assms(1,2) o assms(3) assms(6) [OF o] assms(4,5)]
  show "\<exists>b. fst (ReadResponse (sk_sent (fst (server_handle env auth inp s dm))) lm) = Inr b \<and> bundle_view b = c" .
qed

text \<open>The hook's request reaches the hook handler with the annotations in the order of their keys.\<close>

lemma hook_request_read:
  assumes "hook_fits (cid, ann)" "sk_sent s = []" "fst (WriteHookRequest cid ann s) = None"
  shows "\<exists>r. ReadRequestHeader (sk_sent (snd (WriteHookRequest cid ann s))) = Inr (RequestHook, r)
    \<and> ReadHookBody r = Inr ((cid, map_view ann), [])"
proof -
  obtain t where t: "WriteHookRequest cid ann s = (None, t)" using assms(3) by (metis prod.collapse)
  from hook_request.round_trip [OF assms(1), of s t "[]"] t assms(2) have "ReadHookRequest (sk_sent t) = Inr ((cid, map_view ann), [])" by auto
  then show ?thesis
    unfolding t snd_conv by (cases "ReadRequestHeader (sk_sent t)") (auto simp: ReadHookRequest_def bindR_def failR_def split: if_splits)
qed

definition forged_labels :: smap where
  "forged_labels = [(''berm.delivery'', ''hook''), (''berm.enable'', ''true''), (''berm.file.pw.from'', ''PW''), (''berm.name'', ''webapp'')]"

definition forged_request :: string where
  "forged_request = sk_sent (snd (WriteHookRequest ''x'' forged_labels open_sink))"

lemma forged_fits: "hook_fits (''x'', forged_labels)" "map_view forged_labels = forged_labels"
    "fst (WriteHookRequest ''x'' forged_labels open_sink) = None"
proof -
  show "hook_fits (''x'', forged_labels)" "map_view forged_labels = forged_labels"
    by (simp_all add: hook_fits_def short_string_def wf_map_def map_fits_def sget_def forged_labels_def map_view_def sorted_keys_def)
  have "flows (WriteHookRequest ''x'' forged_labels)"
    by (rule flows_hook) (auto simp: sorted_keys_def sget_def forged_labels_def)
  then show "fst (WriteHookRequest ''x'' forged_labels open_sink) = None" by (simp add: flows_def open_sink_def)
qed

lemma forged_read: "ReadHookRequest forged_request = Inr ((''x'', forged_labels), [])"
  using hook_request_read [OF forged_fits(1) open_sink_simps(1) forged_fits(3)] forged_fits(2)
  by (auto simp: forged_request_def ReadHookRequest_def bindR_def)

lemma forged_plan:
  "case ServiceName \<lparr>rc_id = ''x'', rc_name = [], rc_service = composeService forged_labels, rc_labels = forged_labels\<rparr> of
     Inr svc \<Rightarrow>
       (case Resolve (daemon_input sample_denv forged_labels ''x'' svc) of
          Inr (Some p) \<Rightarrow> p_mechanism p = MechHook \<and> dp_env (ToDelivery p) = []
            \<and> bundle_contents (config_ops sample_opener) (sops_answers sample_opener) (build_env_of sample_denv)
                (dp_service (ToDelivery p)) (ToDelivery p) = Inr (sample_wire_contents ''x'')
        | _ \<Rightarrow> False)
   | _ \<Rightarrow> False"
  by code_simp

lemma forged_outcome:
  "\<exists>svc p. hook_outcome sample_opener sample_denv ''x'' forged_labels svc p (sample_wire_contents ''x'')"
  "hook_outcome sample_opener sample_denv ''x'' forged_labels svc p c \<Longrightarrow> c = sample_wire_contents ''x''"
  using forged_plan by (auto simp: hook_outcome_def ToDelivery_def split: sum.splits option.splits)

theorem hook_answer_exact_witness:
  "\<exists>b'. fst (ReadResponse (sk_sent (fst (server_handle sample_denv (Inl ErrNoContainerID) forged_request open_sink sample_daemon))) fresh_mem) = Inr b'
    \<and> bundle_view b' = sample_wire_contents ''x''"
  using hook_answer_exact [OF sample_ops sample_daemon_mem(1) forged_read open_sink_simps,
      where c = "sample_wire_contents ''x''" and auth = "Inl ErrNoContainerID" and lm = fresh_mem]
    forged_outcome sample_wire_bounded(3) by blast

section \<open>From the daemon to the application\<close>

lemma EnvFor_view:
  assumes "bundle_view b = (fs, es, ps, man)"
  obtains kvs where "EnvFor base b = map (\<lambda>(k, v). k @ ''='' @ v) kvs" "distinct (map fst kvs)"
    "map_of kvs = map_of (rev (List.map_filter env_pair base @ ps @ es))"
proof -
  have "env_pairs base b = List.map_filter env_pair base @ ps @ es"
    using assms by (auto simp: env_pairs_def bundle_view_def pointer_view_def env_view_def)
  then show thesis using that [OF EnvFor_alist distinct_updates] map_of_updates [of "env_pairs base b"] by simp
qed

text \<open>
  C2: \<open>berm-client exec\<close> against the daemon, end to end. If the socket gave the client what the daemon wrote for its identity, cut anywhere, the contents keep to
  the lengths of the wire format, and the client becomes the application, then the daemon resolved the container's labels to a plan, and the plan's files and then the manifest were written: each path they
  name holds the last content the plan has for it, and nothing else changed; when no two files of the plan share a path and none has the manifest's, every
  file is at its path with its content. The application's environment has each name once, with the value of the plan's secret variables,
  else its pointers, else the client's own environment. No locked buffer of the client is left.
\<close>

theorem client_end_to_end:
  assumes "de_ops env = config_ops oe" "mem_ok (wd_mem (dm_world dm))" "mem_ok lm"
    and "handleFetch env (Inr i) s dm = (s', dm')" "sk_sent s = []"
    and "sk_sent s' = ce_reply ce (socketFrom ce args) (client_timeout ce) @ lost"
    and "client_run ce (''exec'' # args) w lm = (Replaced path argv vars, w', lm')"
    and "\<And>p c. Resolve (daemon_input env (id_labels i) (id_container i) (id_service i)) = Inr (Some p) \<Longrightarrow>
           bundle_contents (config_ops oe) (sops_answers oe) (build_env_of env) (id_service i) (ToDelivery p) = Inr c \<Longrightarrow> contents_fit c"
  shows "\<exists>p fs es ps man kvs. Resolve (daemon_input env (id_labels i) (id_container i) (id_service i)) = Inr (Some p)
    \<and> bundle_contents (config_ops oe) (sops_answers oe) (build_env_of env) (id_service i) (ToDelivery p) = Inr (fs, es, ps, man)
    \<and> contents_landed (\<lambda>p. p) (client_manifestPath ce) (fs, es, ps, man) w w'
    \<and> (contents_apart (\<lambda>p. p) (client_manifestPath ce) (fs, es, ps, man) \<longrightarrow> contents_placed (\<lambda>p. p) (client_manifestPath ce) (fs, es, ps, man) w')
    \<and> vars = map (\<lambda>(k, v). k @ ''='' @ v) kvs \<and> distinct (map fst kvs)
    \<and> map_of kvs = map_of (rev (List.map_filter env_pair (ce_environ ce) @ ps @ es))
    \<and> argv = afterDashDash args \<and> lm_live lm' = lm_live lm"
proof -
  obtain b lm1 where c: "ReadResponse (ce_reply ce (socketFrom ce args) (client_timeout ce)) lm = (Inr b, lm1)"
    "ApplyFiles b (client_manifestPath ce) (client_requireTmpfs ce) w = (None, w')" "vars = EnvFor (ce_environ ce) b" "argv = afterDashDash args"
    "runExec ce args w lm = (Replaced path argv vars, w', lm')"
    using assms(7) by (rule client_exec_succeeds)
  have "fst (ReadResponse (ce_reply ce (socketFrom ce args) (client_timeout ce)) lm) = Inr b" by (simp add: c(1))
  from fetch_decoded [OF assms(1,2,4-6) this] assms(8)
  obtain p where p: "Resolve (daemon_input env (id_labels i) (id_container i) (id_service i)) = Inr (Some p)"
    "bundle_contents (config_ops oe) (sops_answers oe) (build_env_of env) (id_service i) (ToDelivery p) = Inr (bundle_view b)" by blast
  obtain fs es ps man where v: "bundle_view b = (fs, es, ps, man)" by (metis prod.exhaust)
  have l: "contents_landed (\<lambda>p. p) (client_manifestPath ce) (fs, es, ps, man) w w'"
    using ApplyFiles_landed [OF c(2)] v by simp
  moreover obtain kvs where "vars = map (\<lambda>(k, v). k @ ''='' @ v) kvs" "distinct (map fst kvs)"
    "map_of kvs = map_of (rev (List.map_filter env_pair (ce_environ ce) @ ps @ es))"
    using EnvFor_view [OF v, of "ce_environ ce"] c(3) by blast
  ultimately show ?thesis using p v c(4) runExec_memory [OF assms(3) c(5)] landed_placed [OF l] by auto
qed

lemma hook_run_succeeds:
  assumes "hook_run he [] mt lm = (0, mt', lm')" "ParseState he = Inr st"
  obtains b lm1 where "fst (WriteHookRequest (st_id st) (st_annotations st) (ce_out (he_consumer he))) = None"
    "ReadResponse (ce_reply (he_consumer he) (hook_socket (he_consumer he)) (hook_timeout (he_consumer he))) lm = (Inr b, lm1)"
    "hook_inject he b st (hook_manifestPath (he_consumer he)) (hook_requireTmpfs (he_consumer he)) mt = (None, mt')"
proof -
  obtain r lm1 where f: "hook_Fetch (he_consumer he) (hook_socket (he_consumer he)) (st_id st) (st_annotations st) (hook_timeout (he_consumer he)) lm
      = (r, lm1)" by (metis prod.exhaust)
  obtain b where b: "r = Inr b" using assms f by (cases r) (auto simp: hook_run_def Let_def)
  have "hook_inject he b st (hook_manifestPath (he_consumer he)) (hook_requireTmpfs (he_consumer he)) mt = (None, mt')"
    using assms f b by (auto simp: hook_run_def Let_def split: prod.splits if_splits)
  with that hook_Fetch_reply [OF f [unfolded b]] show thesis by blast
qed

text \<open>Where an injection goes: the file system it changes, and the root in it.\<close>

definition hook_target :: "hook_env \<Rightarrow> oci_state \<Rightarrow> mounts \<Rightarrow> string \<times> fs" where
  "hook_target he st mt =
     (if st_pid st > 0 then (''/'', mt_of mt (st_pid st))
      else (case ContainerRoot he st of Inl e \<Rightarrow> [] | Inr root \<Rightarrow> root, mt_own mt))"

lemma hook_inject_landed:
  assumes "hook_inject he b st m req mt = (None, mt')"
  shows "contents_landed (path_join (fst (hook_target he st mt))) m (bundle_view b) (snd (hook_target he st mt)) (snd (hook_target he st mt'))"
proof (cases "st_pid st > 0")
  case True
  then obtain w' where "WriteFilesUnderRoot b ''/'' m req (mt_of mt (st_pid st)) = (None, w')" "mt_of mt' (st_pid st) = w'"
    using assms(1) by (auto simp: hook_inject_def WriteIntoMountNS_def split: if_splits prod.splits)
  then show ?thesis using WriteFiles_landed True by (auto simp: hook_target_def)
next
  case False
  then obtain root w' where "ContainerRoot he st = Inr root" "WriteFilesUnderRoot b root m req (mt_own mt) = (None, w')" "mt_own mt' = w'"
    using assms(1) by (auto simp: hook_inject_def split: sum.splits prod.splits)
  then show ?thesis using WriteFiles_landed False by (auto simp: hook_target_def)
qed

text \<open>
  C3: \<open>berm-hook\<close> against the daemon, end to end. If the socket gave the hook what the daemon wrote for the hook's own request, cut anywhere, request
  and contents keep to the lengths of the wire format, and the hook exits with success, then the daemon resolved the container's annotations to a hook-mode plan without env deliveries, and that plan's files and then
  the manifest were written in the container's file system (that of its process when it has one), each at its path joined to the container's root: each such
  path holds the last content the plan has for it, and nothing else changed; when no two files share a path and none has the manifest's, every file is there with
  its content. A path without dots or empty elements lies under the root. One with dots can leave it, see \<open>hook_escapes_root\<close>.
\<close>

theorem hook_end_to_end:
  assumes "de_ops env = config_ops oe" "mem_ok (wd_mem (dm_world dm))"
    and "ParseState he = Inr st" "hook_fits (st_id st, st_annotations st)" "sk_sent (ce_out (he_consumer he)) = []" "sk_sent s = []"
    and "server_handle env auth (sk_sent (snd (WriteHookRequest (st_id st) (st_annotations st) (ce_out (he_consumer he))))) s dm = (s', dm')"
    and "sk_sent s' = ce_reply (he_consumer he) (hook_socket (he_consumer he)) (hook_timeout (he_consumer he)) @ lost"
    and "hook_run he [] mt lm = (0, mt', lm')"
    and "\<And>svc p c. hook_outcome oe env (st_id st) (map_view (st_annotations st)) svc p c \<Longrightarrow> contents_fit c"
    and "root = fst (hook_target he st mt)" "man = hook_manifestPath (he_consumer he)"
  shows "\<exists>svc p c. hook_outcome oe env (st_id st) (map_view (st_annotations st)) svc p c \<and> dp_env (ToDelivery p) = []
    \<and> contents_landed (path_join root) man c (snd (hook_target he st mt)) (snd (hook_target he st mt'))
    \<and> (contents_apart (path_join root) man c \<longrightarrow> contents_placed (path_join root) man c (snd (hook_target he st mt')))
    \<and> (is_abs root \<longrightarrow> (\<forall>f \<in> set (dp_files (ToDelivery p)). plain_path (ft_path f) \<longrightarrow> under root (path_clean (path_join root (ft_path f)))))"
proof -
  let ?ann = "map_view (st_annotations st)"
  obtain b lm1 where c: "fst (WriteHookRequest (st_id st) (st_annotations st) (ce_out (he_consumer he))) = None"
    "ReadResponse (ce_reply (he_consumer he) (hook_socket (he_consumer he)) (hook_timeout (he_consumer he))) lm = (Inr b, lm1)"
    "hook_inject he b st (hook_manifestPath (he_consumer he)) (hook_requireTmpfs (he_consumer he)) mt = (None, mt')"
    using assms(9,3) by (rule hook_run_succeeds)
  have f: "fst (ReadResponse (ce_reply (he_consumer he) (hook_socket (he_consumer he)) (hook_timeout (he_consumer he))) lm) = Inr b"
    by (simp add: c(2))
  have "ReadHookRequest (sk_sent (snd (WriteHookRequest (st_id st) (st_annotations st) (ce_out (he_consumer he))))) = Inr ((st_id st, ?ann), [])"
    using hook_request_read [OF assms(4,5) c(1)] by (auto simp: ReadHookRequest_def bindR_def)
  then obtain svc p where o: "hook_outcome oe env (st_id st) ?ann svc p (bundle_view b)"
    by (rule hook_decoded [OF assms(1,2) _ assms(7,6,8) f assms(10)])
  have l: "contents_landed (path_join root) man (bundle_view b) (snd (hook_target he st mt)) (snd (hook_target he st mt'))"
    using hook_inject_landed [OF c(3)] by (simp add: assms(11,12))
  show ?thesis
    by (intro exI [of _ svc] exI [of _ p] exI [of _ "bundle_view b"] conjI impI ballI)
      (use o l hook_outcome_no_env [OF o] landed_placed [OF l] path_join_plain in simp_all)
qed

text \<open>Applying a bundle depends on what it shows.\<close>

lemma apply_each_view: "map file_view fs = map file_view gs \<Longrightarrow> apply_each req fs w = apply_each req gs w"
proof (induction fs arbitrary: gs w)
  case (Cons f fs)
  then obtain g gs' where g: "gs = g # gs'" "file_view f = file_view g" "map file_view fs = map file_view gs'" by (cases gs) auto
  have ih: "apply_each req fs = apply_each req gs'" using Cons.IH [OF g(3)] by blast
  have e: "wf_path f = wf_path g" "wf_owner f = wf_owner g" "wf_mode f = wf_mode g" "sec_bytes (wf_data f) = sec_bytes (wf_data g)"
    using g(2) by (simp_all add: file_view_def)
  show ?case unfolding g(1) apply_each.simps e ih ..
qed simp

lemma ApplyFiles_view: "bundle_view b = bundle_view c \<Longrightarrow> ApplyFiles b m req w = ApplyFiles c m req w"
proof -
  assume v: "bundle_view b = bundle_view c"
  then have m: "b_manifest b = b_manifest c" and f: "map file_view (b_files b) = map file_view (b_files c)" by (simp_all add: bundle_view_def)
  show ?thesis unfolding ApplyFiles_def m apply_each_view [OF f] ..
qed

lemma write_each_view: "map file_view fs = map file_view gs \<Longrightarrow> write_each root req fs w = write_each root req gs w"
proof (induction fs arbitrary: gs w)
  case (Cons f fs)
  then obtain g gs' where g: "gs = g # gs'" "file_view f = file_view g" "map file_view fs = map file_view gs'" by (cases gs) auto
  have ih: "write_each root req fs = write_each root req gs'" using Cons.IH [OF g(3)] by blast
  have e: "wf_path f = wf_path g" "wf_owner f = wf_owner g" "wf_mode f = wf_mode g" "sec_bytes (wf_data f) = sec_bytes (wf_data g)"
    using g(2) by (simp_all add: file_view_def)
  show ?case unfolding g(1) write_each.simps e ih ..
qed simp

lemma WriteFiles_view: "bundle_view b = bundle_view c \<Longrightarrow> WriteFilesUnderRoot b root m req w = WriteFilesUnderRoot c root m req w"
proof -
  assume v: "bundle_view b = bundle_view c"
  then have m: "b_manifest b = b_manifest c" and f: "map file_view (b_files b) = map file_view (b_files c)" by (simp_all add: bundle_view_def)
  show ?thesis unfolding WriteFilesUnderRoot_def m write_each_view [OF f] ..
qed

definition shown_bundle :: "string \<Rightarrow> wbundle" where
  "shown_bundle cid = \<lparr>b_files = [\<lparr>wf_path = ''/run/berm/pw'', wf_owner = ''0:0'', wf_mode = ''0400'', wf_data = \<lparr>sec_bytes = ''s3=x'', sec_buf = None\<rparr>\<rparr>],
     b_env = [], b_pointers = [\<lparr>pt_name = ''PW_FILE'', pt_path = ''/run/berm/pw''\<rparr>], b_manifest = cid, b_locked = []\<rparr>"

lemma shown_view: "bundle_view (shown_bundle cid) = sample_wire_contents cid"
  by (simp add: shown_bundle_def sample_wire_contents_def bundle_view_def file_view_def pointer_view_def)

lemma sample_applies: "fst (ApplyFiles (shown_bundle sample_cid) DefaultManifestPath True hook_fs) = None"
  "fst (WriteFilesUnderRoot (shown_bundle ''x'') ''/c/root'' DefaultManifestPath True hook_fs) = None"
  by code_simp+

lemma sample_apart: "contents_apart (\<lambda>p. p) DefaultManifestPath (sample_wire_contents sample_cid)"
  "contents_apart (path_join ''/c/root'') DefaultManifestPath (sample_wire_contents ''x'')"
proof -
  have p: "path_clean ''/run/berm/pw'' = ''/run/berm/pw''" "path_clean DefaultManifestPath = ''/run/berm/manifest''"
    "path_clean (path_join ''/c/root'' ''/run/berm/pw'') = ''/c/root/run/berm/pw''"
    "path_clean (path_join ''/c/root'' DefaultManifestPath) = ''/c/root/run/berm/manifest''" by code_simp+
  show "contents_apart (\<lambda>p. p) DefaultManifestPath (sample_wire_contents sample_cid)"
    "contents_apart (path_join ''/c/root'') DefaultManifestPath (sample_wire_contents ''x'')"
    by (simp_all add: contents_apart_def sample_wire_contents_def p)
qed

definition sample_consumer :: "string \<Rightarrow> consumer_env" where
  "sample_consumer reply = \<lparr>ce_getenv = (\<lambda>v. []), ce_environ = [''PW_FILE=old'', ''TERM=x''], ce_dial = (\<lambda>p. True), ce_deadline = True, ce_out = open_sink,
     ce_reply = (\<lambda>p t. reply), ce_stat = (\<lambda>p. Some False), ce_exec = (\<lambda>p. True), ce_parse_duration = (\<lambda>s. None)\<rparr>"

lemma sample_consumer_settings:
  "client_manifestPath (sample_consumer r) = DefaultManifestPath" "client_requireTmpfs (sample_consumer r)"
  "hook_manifestPath (sample_consumer r) = DefaultManifestPath" "hook_requireTmpfs (sample_consumer r)"
  by (simp_all add: client_manifestPath_def client_requireTmpfs_def hook_manifestPath_def hook_requireTmpfs_def sample_consumer_def)

lemma sample_request_written: "WriteRequest open_sink = (None, \<lparr>sk_sent = [ProtocolVersion, msgFetchRequest], sk_room = None\<rparr>)"
  by (simp add: WriteRequest_def sink_write_def open_sink_def)

lemma sample_exec:
  "\<exists>vars w' lm'. client_run (sample_consumer sample_reply) [''exec'', ''--'', ''/bin/app''] hook_fs fresh_mem
     = (Replaced ''/bin/app'' [''/bin/app''] vars, w', lm')"
proof -
  let ?ce = "sample_consumer sample_reply"
  obtain b lm where b: "ReadResponse sample_reply fresh_mem = (Inr b, lm)" "bundle_view b = sample_wire_contents sample_cid"
    using sample_received by blast
  have "client_Fetch ?ce sock t fresh_mem = (Inr b, lm)" for sock t
    by (simp add: client_Fetch_def sample_consumer_def sample_request_written b(1))
  moreover have "fst (ApplyFiles b DefaultManifestPath True hook_fs) = None"
    using sample_applies(1) ApplyFiles_view [of b "shown_bundle sample_cid"] b(2) shown_view by simp
  then obtain w' where "ApplyFiles b DefaultManifestPath True hook_fs = (None, w')" by (metis prod.collapse)
  moreover have "lookPath ?ce ''/bin/app'' = Some ''/bin/app''" "ce_exec ?ce ''/bin/app''" by (simp_all add: lookPath_def sample_consumer_def)
  moreover obtain b1 lm1 where "Destroy b lm = (b1, lm1)" by (metis prod.exhaust)
  ultimately show ?thesis by (simp add: client_run_def runExec_def client_Exec_def Let_def sample_consumer_settings)
qed

theorem client_end_to_end_witness:
  "\<exists>vars w' lm'. client_run (sample_consumer sample_reply) [''exec'', ''--'', ''/bin/app''] hook_fs fresh_mem
       = (Replaced ''/bin/app'' [''/bin/app''] vars, w', lm')
     \<and> content w' ''/run/berm/pw'' = Some ''s3=x'' \<and> content w' DefaultManifestPath = Some sample_cid
     \<and> ''PW_FILE=/run/berm/pw'' \<in> set vars \<and> lm_live lm' = []"
proof -
  let ?i = sample_client and ?env = sample_denv and ?ce = "sample_consumer sample_reply" and ?args = "[''--'', ''/bin/app'']"
  obtain vars w' lm' where run: "client_run ?ce (''exec'' # ?args) hook_fs fresh_mem = (Replaced ''/bin/app'' [''/bin/app''] vars, w', lm')"
    using sample_exec by blast
  obtain s' dm' where h: "handleFetch ?env (Inr ?i) open_sink sample_daemon = (s', dm')" by (metis prod.exhaust)
  have "sk_sent s' = ce_reply ?ce (socketFrom ?ce ?args) (client_timeout ?ce) @ []"
    by (simp add: sample_consumer_def sample_reply_def h)
  note sent = this
  have fit: "contents_fit c" if "Resolve (daemon_input ?env (id_labels ?i) (id_container ?i) (id_service ?i)) = Inr (Some p)"
      "bundle_contents (config_ops sample_opener) (sops_answers sample_opener) (build_env_of ?env) (id_service ?i) (ToDelivery p) = Inr c" for p c
    using sample_only_plan [OF that] sample_wire_bounded(2) by simp
  from client_end_to_end [OF sample_ops sample_daemon_mem(1) sample_mem_ok h open_sink_simps(1) sent run] fit
  obtain p fs es ps man kvs where c: "bundle_contents (config_ops sample_opener) (sops_answers sample_opener) (build_env_of ?env) (id_service ?i) (ToDelivery p)
       = Inr (fs, es, ps, man)" "Resolve (daemon_input ?env (id_labels ?i) (id_container ?i) (id_service ?i)) = Inr (Some p)"
    "contents_apart (\<lambda>p. p) DefaultManifestPath (fs, es, ps, man) \<longrightarrow> contents_placed (\<lambda>p. p) DefaultManifestPath (fs, es, ps, man) w'"
    "vars = map (\<lambda>(k, v). k @ ''='' @ v) kvs"
    "map_of kvs = map_of (rev (List.map_filter env_pair (ce_environ ?ce) @ ps @ es))" "lm_live lm' = lm_live fresh_mem"
    unfolding sample_consumer_settings by metis
  have v: "(fs, es, ps, man) = sample_wire_contents sample_cid" by (rule sample_only_plan [OF c(2,1)])
  then have "map_of kvs ''PW_FILE'' = Some ''/run/berm/pw''" using c(5) by (simp add: sample_wire_contents_def)
  then have "''PW_FILE=/run/berm/pw'' \<in> set vars" using c(4) by (force dest: map_of_SomeD)
  moreover have "content w' ''/run/berm/pw'' = Some ''s3=x''" "content w' DefaultManifestPath = Some sample_cid"
    using c(3) sample_apart(1) v by (simp_all add: contents_placed_def sample_wire_contents_def sample_cid_def)
  ultimately show ?thesis using run c(6) by (auto simp: fresh_mem_def)
qed

definition sample_hook_reply :: string where
  "sample_hook_reply = sk_sent (fst (server_handle sample_denv (Inl ErrNoContainerID) forged_request open_sink sample_daemon))"

definition sample_state :: oci_state where
  "sample_state = \<lparr>st_id = ''x'', st_pid = 0, st_bundle = [], st_root = ''/c/root'', st_annotations = forged_labels\<rparr>"

definition sample_hook :: hook_env where
  "sample_hook = \<lparr>he_consumer = sample_consumer sample_hook_reply, he_stdin = [], he_decode = (\<lambda>d. Some sample_state), he_read = (\<lambda>p. None),
     he_root_path = (\<lambda>d. None), he_ns_open = (\<lambda>p. True), he_setns = (\<lambda>p. True)\<rparr>"

definition sample_mounts :: mounts where
  "sample_mounts = \<lparr>mt_own = hook_fs, mt_of = (\<lambda>p. hook_fs)\<rparr>"

lemma sample_hook_simps: "st_id sample_state = ''x''" "st_annotations sample_state = forged_labels" "ParseState sample_hook = Inr sample_state"
  "he_consumer sample_hook = sample_consumer sample_hook_reply" "hook_target sample_hook sample_state mt = (''/c/root'', mt_own mt)"
  "ce_out (sample_consumer r) = open_sink" "ce_reply (sample_consumer r) a t = r"
  by (simp_all add: sample_state_def sample_hook_def ParseState_def hook_target_def ContainerRoot_def sample_consumer_def)

lemma forged_received: "\<exists>b lm. ReadResponse sample_hook_reply fresh_mem = (Inr b, lm) \<and> bundle_view b = sample_wire_contents ''x''"
proof -
  obtain svc p where "hook_outcome sample_opener sample_denv ''x'' forged_labels svc p (sample_wire_contents ''x'')"
    using forged_outcome(1) by blast
  from hook_answered [OF sample_ops sample_daemon_mem(1) this forged_read sample_wire_bounded(3) open_sink_simps] show ?thesis
    unfolding sample_hook_reply_def by (metis prod.collapse)
qed

lemma sample_hook_runs: "\<exists>mt' lm'. hook_run sample_hook [] sample_mounts fresh_mem = (0, mt', lm')"
proof -
  obtain b lm where b: "ReadResponse sample_hook_reply fresh_mem = (Inr b, lm)" "bundle_view b = sample_wire_contents ''x''"
    using forged_received by blast
  obtain t where "WriteHookRequest ''x'' forged_labels open_sink = (None, t)" using forged_fits(3) by (metis prod.collapse)
  then have f: "hook_Fetch (sample_consumer sample_hook_reply) sock ''x'' forged_labels lim fresh_mem = (Inr b, lm)" for sock lim
    by (simp add: hook_Fetch_def sample_consumer_def b(1))
  have "fst (WriteFilesUnderRoot b ''/c/root'' DefaultManifestPath True hook_fs) = None"
    using sample_applies(2) WriteFiles_view [of b "shown_bundle ''x''"] b(2) shown_view by simp
  then obtain w' where w: "WriteFilesUnderRoot b ''/c/root'' DefaultManifestPath True hook_fs = (None, w')" by (metis prod.collapse)
  have "hook_inject sample_hook b sample_state DefaultManifestPath True sample_mounts = (None, sample_mounts\<lparr>mt_own := w'\<rparr>)"
    by (simp add: hook_inject_def ContainerRoot_def sample_state_def sample_mounts_def w)
  then show ?thesis by (simp add: hook_run_def sample_hook_simps f sample_consumer_settings)
qed

theorem hook_end_to_end_witness:
  "\<exists>mt' lm'. hook_run sample_hook [] sample_mounts fresh_mem = (0, mt', lm')
     \<and> content (mt_own mt') (path_join ''/c/root'' ''/run/berm/pw'') = Some ''s3=x''"
proof -
  obtain mt' lm' where run: "hook_run sample_hook [] sample_mounts fresh_mem = (0, mt', lm')" using sample_hook_runs by blast
  obtain s' dm' where h: "server_handle sample_denv (Inl ErrNoContainerID) forged_request open_sink sample_daemon = (s', dm')" by (metis prod.exhaust)
  have sent: "sk_sent s' = sample_hook_reply @ []" by (simp add: sample_hook_reply_def h)
  have fit: "contents_fit c" if "hook_outcome sample_opener sample_denv (st_id sample_state) (map_view (st_annotations sample_state)) svc p c" for svc p c
    using forged_outcome(2) [of svc p c] that sample_wire_bounded(4) by (simp add: sample_hook_simps forged_fits(2))
  have "\<exists>svc p c. hook_outcome sample_opener sample_denv (st_id sample_state) (map_view (st_annotations sample_state)) svc p c \<and> dp_env (ToDelivery p) = []
    \<and> contents_landed (path_join ''/c/root'') DefaultManifestPath c (snd (hook_target sample_hook sample_state sample_mounts))
        (snd (hook_target sample_hook sample_state mt'))
    \<and> (contents_apart (path_join ''/c/root'') DefaultManifestPath c \<longrightarrow>
        contents_placed (path_join ''/c/root'') DefaultManifestPath c (snd (hook_target sample_hook sample_state mt')))
    \<and> (is_abs ''/c/root'' \<longrightarrow> (\<forall>f \<in> set (dp_files (ToDelivery p)). plain_path (ft_path f) \<longrightarrow>
        under ''/c/root'' (path_clean (path_join ''/c/root'' (ft_path f)))))"
    by (rule hook_end_to_end [OF sample_ops sample_daemon_mem(1) sample_hook_simps(3) _ _ open_sink_simps(1) _ _ run,
          where auth = "Inl ErrNoContainerID" and s' = s' and dm' = dm' and lost = "[]"])
      (use forged_fits(1) h sent fit in \<open>simp_all add: sample_hook_simps open_sink_simps forged_request_def sample_consumer_settings\<close>)
  then obtain c where "c = sample_wire_contents ''x''"
    "contents_apart (path_join ''/c/root'') DefaultManifestPath c \<longrightarrow>
        contents_placed (path_join ''/c/root'') DefaultManifestPath c (snd (hook_target sample_hook sample_state mt'))"
    using forged_outcome(2) by (auto simp: sample_hook_simps forged_fits(2))
  then have "content (mt_own mt') (path_join ''/c/root'' ''/run/berm/pw'') = Some ''s3=x''"
    using sample_apart(2) by (simp add: sample_hook_simps contents_placed_def sample_wire_contents_def)
  with run show ?thesis by blast
qed

section \<open>What was delivered is watched\<close>

lemma built_sources:
  assumes "BuildManifest ops plan t = Inr m"
  shows "fst ` set (manifest_sources m) = ft_source ` set (dp_files plan) \<union> rt_source ` set (dp_renders plan) \<union> et_source ` set (dp_env plan)"
proof -
  note b = BuildManifest_spec [OF assms]
  have "map mf_source (mn_files m) = map ft_source (dp_files plan)" "map mr_source (mn_renders m) = map rt_source (dp_renders plan)"
    "map me_source (mn_env m) = map et_source (dp_env plan)"
    using b by (auto simp: list_all2_conv_all_nth list_eq_iff_nth_eq manifest_file_of_def manifest_render_of_def manifest_env_of_def)
  then have "map fst (manifest_sources m) = map ft_source (dp_files plan) @ map rt_source (dp_renders plan) @ map et_source (dp_env plan)"
    by (simp add: manifest_sources_def comp_def)
  from arg_cong [OF this, of set] show ?thesis by (auto simp: image_Un)
qed

lemma plan_sources_delivery:
  "plan_sources p = ft_source ` set (dp_files (ToDelivery p)) \<union> rt_source ` set (dp_renders (ToDelivery p)) \<union> et_source ` set (dp_env (ToDelivery p))"
  by (auto simp: plan_sources_def ToDelivery_def image_image)

lemma recorded_watched:
  assumes "BuildManifest ops (ToDelivery p) t = Inr m" "p_container p \<noteq> []"
  shows "drifted hs (dm_ledger (recordInjection env m dm)) (p_container p) src
      \<longleftrightarrow> src \<noteq> [] \<and> src \<in> plan_sources p \<and> hs src \<noteq> so_cipher_hash ops src"
    "map_of (dm_sticky (recordInjection env m dm)) (p_container p) = None"
proof -
  have c: "mn_container m = p_container p" using BuildManifest_spec [OF assms(1)] by (simp add: ToDelivery_def)
  obtain e lg w where r: "RecordManifest (de_json env) (dm_ledger dm) (Some m) (de_later env) (wd_fs (dm_world dm)) = (e, lg, w)" by (metis prod.exhaust)
  then have "lg = (dm_ledger dm)\<lparr>lg_records := AList.update (p_container p) (record_of m (de_later env)) (lg_records (dm_ledger dm))\<rparr>"
    using assms(2) c by (cases rule: RecordManifest_spec) simp_all
  then have l: "map_of (lg_records (dm_ledger (recordInjection env m dm))) (p_container p) = Some (record_of m (de_later env))"
    by (simp add: recordInjection_def r)
  have dom: "(\<exists>h. map_of (rev (manifest_sources m)) src = Some h) \<longleftrightarrow> src \<in> plan_sources p"
    using built_sources [OF assms(1)] unfolding plan_sources_delivery
    by (metis dom_map_of_conv_image_fst domD domI set_rev)
  have hash: "so_cipher_hash ops src = Inr h" if "map_of (rev (manifest_sources m)) src = Some h" for h
    using manifest_hashes [OF assms(1)] map_of_SomeD [OF that] by simp
  show "drifted hs (dm_ledger (recordInjection env m dm)) (p_container p) src
      \<longleftrightarrow> src \<noteq> [] \<and> src \<in> plan_sources p \<and> hs src \<noteq> so_cipher_hash ops src"
    using hash unfolding drifted_def l dom [symmetric]
    by (auto simp: record_of_def fold_add_source split: option.splits if_splits)
  show "map_of (dm_sticky (recordInjection env m dm)) (p_container p) = None"
    by (simp add: recordInjection_def r sticky_clear_def c AList_delete_other)
qed

text \<open>
  A volume delivery is watched. When a push succeeded, the drift query flags for that container exactly the sources of its plan whose
  ciphertext has another hash than at the push, and no error of the container stands.
\<close>

theorem push_watched:
  assumes "fst (ApplyVolume (de_ops env) (build_env_of env) (ToDelivery p) (path_join (de_vol_root env) (volumeName c (p_service p))) (dm_world dm)) = None"
    and "p_container p \<noteq> []" "BuildManifest (de_ops env) (ToDelivery p) (de_rfc3339 env (de_now env)) = Inr m"
  shows "(drifted hs (dm_ledger (pushVolume env p c dm)) (p_container p) src
      \<longleftrightarrow> src \<noteq> [] \<and> src \<in> plan_sources p \<and> hs src \<noteq> so_cipher_hash (de_ops env) src)
    \<and> map_of (dm_sticky (pushVolume env p c dm)) (p_container p) = None"
proof -
  obtain w where "ApplyVolume (de_ops env) (build_env_of env) (ToDelivery p) (path_join (de_vol_root env) (volumeName c (p_service p))) (dm_world dm) = (None, w)"
    using assms(1) by (metis prod.collapse)
  then have "pushVolume env p c dm = recordInjection env m (dm\<lparr>dm_world := w\<rparr>)" by (simp add: pushVolume_def Let_def assms(3))
  with recorded_watched(1) [OF assms(3,2), of hs env "dm\<lparr>dm_world := w\<rparr>" src]
    recorded_watched(2) [OF assms(3,2), of env "dm\<lparr>dm_world := w\<rparr>"]
  show ?thesis by metis
qed

text \<open>
  C14: what a client received is watched. When a client decodes a bundle out of the daemon's answer, the ledger has the delivery: from then on the
  drift query flags for that container exactly the sources of its plan whose ciphertext has another hash than at the delivery, whatever was recorded for it
  before, and no error of the container stands. The library's JSON is only asked to read back the manifest it wrote.
\<close>

theorem fetch_watched:
  assumes "de_ops env = config_ops oe" "mem_ok (wd_mem (dm_world dm))" "id_container i \<noteq> []"
    and "handleFetch env (Inr i) s dm = (s', dm')" "sk_sent s = []"
    and "sk_sent s' = received @ lost" "fst (ReadResponse received lm) = Inr b'"
    and "\<And>p c. Resolve (daemon_input env (id_labels i) (id_container i) (id_service i)) = Inr (Some p) \<Longrightarrow>
           bundle_contents (config_ops oe) (sops_answers oe) (build_env_of env) (id_service i) (ToDelivery p) = Inr c \<Longrightarrow> contents_fit c"
    and "\<And>p m. Resolve (daemon_input env (id_labels i) (id_container i) (id_service i)) = Inr (Some p) \<Longrightarrow>
           BuildManifest (config_ops oe) (ToDelivery p) (de_rfc3339 env (de_now env)) = Inr m \<Longrightarrow> de_parse env (de_marshal env m) = Some m"
  shows "\<exists>p. Resolve (daemon_input env (id_labels i) (id_container i) (id_service i)) = Inr (Some p)
    \<and> (\<forall>hs src. drifted hs (dm_ledger dm') (id_container i) src
          \<longleftrightarrow> src \<noteq> [] \<and> src \<in> plan_sources p \<and> hs src \<noteq> so_cipher_hash (config_ops oe) src)
    \<and> map_of (dm_sticky dm') (id_container i) = None"
proof -
  let ?inp = "daemon_input env (id_labels i) (id_container i) (id_service i)"
  let ?dm1 = "dm\<lparr>dm_tracker := arrived (id_container i) (dm_tracker dm)\<rparr>"
  obtain p where p: "Resolve ?inp = Inr (Some p)" "p_container p = id_container i"
    "bundle_contents (config_ops oe) (sops_answers oe) (build_env_of env) (id_service i) (ToDelivery p) = Inr (bundle_view b')"
    using fetch_decoded [OF assms(1,2,4-7)] assms(8) by metis
  obtain x lm1 where b: "BuildBundle (config_ops oe) (build_env_of env) (id_service i) (ToDelivery p) (wd_mem (dm_world ?dm1)) = (x, lm1)"
    by (metis prod.exhaust)
  have "mem_ok (wd_mem (dm_world ?dm1))" using assms(2) by simp
  from BuildBundle_config [OF this b, folded sops_answers_def, unfolded p(3) sum.case] obtain bb where x: "x = Inr bb" "bundle_view bb = bundle_view b'"
    by blast
  have h: "(s', dm') = send_bundle env bb s (set_mem lm1 ?dm1)" using assms(1,4) p(1) b x(1) by (simp add: handleFetch_def)
  then have s': "s' = fst (send_bundle env bb s (set_mem lm1 ?dm1))" by (metis fst_conv)
  have "contents_fit (bundle_view bb)" using assms(8) [OF p(1,3)] x(2) by simp
  from sent_bundle_decoded [OF this assms(5) assms(6) [unfolded s'] assms(7)]
  obtain s1 where enc: "EncodeBundle bb s = (None, s1)" by (metis prod.collapse)
  obtain m where m: "BuildManifest (config_ops oe) (ToDelivery p) (de_rfc3339 env (de_now env)) = Inr m" "b_manifest bb = de_marshal env m"
    using p(3) x(2) by (cases "BuildManifest (config_ops oe) (ToDelivery p) (de_rfc3339 env (de_now env))")
      (auto simp: bundle_contents_def result_simps build_env_of_def bundle_view_def split: option.splits)
  have "mn_version m \<noteq> 0" using BuildManifest_spec [OF m(1)] by simp
  then have "recordFromBundleManifest env bb dmx = recordInjection env m dmx" for dmx
    using assms(9) [OF p(1) m(1)] by (simp add: recordFromBundleManifest_def ParseManifest_def m(2))
  then have "dm' = set_mem (snd (Destroy bb (wd_mem (dm_world (recordInjection env m (set_mem lm1 ?dm1)))))) (recordInjection env m (set_mem lm1 ?dm1))"
    using h by (simp add: send_bundle_def enc)
  then have "dm_ledger dm' = dm_ledger (recordInjection env m (set_mem lm1 ?dm1))" "dm_sticky dm' = dm_sticky (recordInjection env m (set_mem lm1 ?dm1))"
    by simp_all
  then show ?thesis using recorded_watched [OF m(1)] p(1,2) assms(3) by auto
qed

text \<open>The sample daemon, its decoder reading back the manifest of the sample client's plan.\<close>

definition sample_manifest :: "manifest option" where
  "sample_manifest =
     (case Resolve (daemon_input sample_denv (id_labels sample_client) (id_container sample_client) (id_service sample_client)) of
        Inr (Some p) \<Rightarrow> (case BuildManifest (config_ops sample_opener) (ToDelivery p) (de_rfc3339 sample_denv (de_now sample_denv)) of
                          Inr m \<Rightarrow> Some m | Inl e \<Rightarrow> None)
      | _ \<Rightarrow> None)"

definition watch_denv :: "opened denv" where
  "watch_denv = sample_denv\<lparr>de_parse := (\<lambda>d. sample_manifest)\<rparr>"

lemma watch_denv_simps: "de_ops watch_denv = config_ops sample_opener" "build_env_of watch_denv = build_env_of sample_denv"
  "daemon_input watch_denv l c v = daemon_input sample_denv l c v" "de_parse watch_denv d = sample_manifest"
  "de_rfc3339 watch_denv = de_rfc3339 sample_denv" "de_now watch_denv = de_now sample_denv"
  by (simp_all add: watch_denv_def sample_ops build_env_of_def daemon_input_def)

lemma watch_alert: "alertValidation watch_denv = alertValidation sample_denv"
  by (simp add: fun_eq_iff alertValidation_def watch_denv_def Let_def split: option.split)

lemma watch_reply: "sk_sent (fst (handleFetch watch_denv (Inr sample_client) open_sink sample_daemon)) = sample_reply"
  by (simp add: sample_reply_def handleFetch_def Let_def watch_denv_simps sample_ops watch_alert send_bundle_sent split: sum.split option.split prod.split)

lemma sample_plan_sources:
  "case Resolve (daemon_input sample_denv (id_labels sample_client) (id_container sample_client) (id_service sample_client)) of
     Inr (Some p) \<Rightarrow> map ft_source (dp_files (ToDelivery p)) = [''webapp''] \<and> dp_renders (ToDelivery p) = [] \<and> dp_env (ToDelivery p) = []
   | _ \<Rightarrow> False"
  "so_cipher_hash (config_ops sample_opener) ''webapp'' = Inr ''sha256:00''"
  by code_simp+

theorem fetch_watched_witness:
  "\<exists>s' dm'. handleFetch watch_denv (Inr sample_client) open_sink sample_daemon = (s', dm')
     \<and> drifted (\<lambda>n. Inr ''sha256:11'') (dm_ledger dm') sample_cid ''webapp'' \<and> \<not> drifted (\<lambda>n. Inr ''sha256:00'') (dm_ledger dm') sample_cid ''webapp''"
proof -
  let ?i = sample_client and ?env = watch_denv
  have cid: "id_container ?i = sample_cid" by (simp add: sample_client_def sample_identity_def)
  obtain b' where r: "fst (ReadResponse sample_reply fresh_mem) = Inr b'" using sample_received by (metis fst_conv)
  obtain s' dm' where h: "handleFetch ?env (Inr ?i) open_sink sample_daemon = (s', dm')" by (metis prod.exhaust)
  have "\<exists>p. Resolve (daemon_input ?env (id_labels ?i) (id_container ?i) (id_service ?i)) = Inr (Some p)
    \<and> (\<forall>hs src. drifted hs (dm_ledger dm') (id_container ?i) src
          \<longleftrightarrow> src \<noteq> [] \<and> src \<in> plan_sources p \<and> hs src \<noteq> so_cipher_hash (config_ops sample_opener) src)
    \<and> map_of (dm_sticky dm') (id_container ?i) = None"
  proof (rule fetch_watched [OF watch_denv_simps(1) sample_daemon_mem(1) _ h open_sink_simps(1) _ r])
    show "id_container ?i \<noteq> []" by (simp add: cid sample_cid_def)
    show "sk_sent s' = sample_reply @ []" using watch_reply by (simp add: h)
  next
    fix p c
    assume "Resolve (daemon_input ?env (id_labels ?i) (id_container ?i) (id_service ?i)) = Inr (Some p)"
      "bundle_contents (config_ops sample_opener) (sops_answers sample_opener) (build_env_of ?env) (id_service ?i) (ToDelivery p) = Inr c"
    from sample_only_plan [OF this [unfolded watch_denv_simps]] show "contents_fit c" using sample_wire_bounded(2) by simp
  next
    fix p m
    assume "Resolve (daemon_input ?env (id_labels ?i) (id_container ?i) (id_service ?i)) = Inr (Some p)"
      "BuildManifest (config_ops sample_opener) (ToDelivery p) (de_rfc3339 ?env (de_now ?env)) = Inr m"
    then show "de_parse ?env (de_marshal ?env m) = Some m" by (simp add: watch_denv_simps sample_manifest_def)
  qed
  then obtain p where p: "Resolve (daemon_input sample_denv (id_labels ?i) (id_container ?i) (id_service ?i)) = Inr (Some p)"
    "\<And>hs src. drifted hs (dm_ledger dm') sample_cid src
          \<longleftrightarrow> src \<noteq> [] \<and> src \<in> plan_sources p \<and> hs src \<noteq> so_cipher_hash (config_ops sample_opener) src"
    unfolding cid watch_denv_simps by metis
  have "map ft_source (dp_files (ToDelivery p)) = [''webapp'']" using sample_plan_sources(1) p(1) by simp
  then have "''webapp'' \<in> plan_sources p" unfolding plan_sources_delivery by (metis Un_iff list.set_intros(1) set_map)
  then show ?thesis using h p(2) sample_plan_sources(2) by simp
qed

end
